(* ===== verification/Bgp_Prelude.thy ===== *)
theory Bgp_Prelude
  imports Main "HOL-Library.Word"
begin

text \<open>
  Shared vocabulary of the development.

  \<^item> fallible C++ code is a value of a sum type: \<open>Inl\<close> carries the exception, \<open>Inr\<close> the
    result; \<open>rbind\<close> sequences two fallible steps;
  \<^item> a byte is an \<open>8 word\<close>; \<open>word_of_bytes\<close> and \<open>bytes_of_word\<close> are the big-endian
    (network order) reading and writing of an integer of any width;
  \<^item> \<open>word_masked\<close> keeps the high bits of a word, which is what masking an address with a
    prefix length does.

  The lemmas below are the bit-level facts the wire-format theories rest on.
\<close>

unbundle bit_operations_syntax

named_theorems codec_simps \<open>evaluation rules for the wire-format primitives\<close>
named_theorems exn_simps \<open>which exceptions a parser step can raise\<close>
named_theorems raises_intros \<open>compositional rules for \<open>raises_only\<close>\<close>
named_theorems ensures_intros \<open>compositional rules for \<open>ensures\<close>\<close>

type_synonym byte = "8 word"
type_synonym u16 = "16 word"
type_synonym u32 = "32 word"
type_synonym u128 = "128 word"

subsection \<open>Fallible computations\<close>

definition rbind :: "'e + 'a \<Rightarrow> ('a \<Rightarrow> 'e + 'b) \<Rightarrow> 'e + 'b" where
  "rbind r f = (case r of Inl e \<Rightarrow> Inl e | Inr x \<Rightarrow> f x)"

lemma rbind_Inl [simp]: "rbind (Inl e) f = Inl e"
  by (simp add: rbind_def)

lemma rbind_Inr [simp]: "rbind (Inr x) f = f x"
  by (simp add: rbind_def)

lemma rbind_eq_Inr: "rbind r f = Inr y \<longleftrightarrow> (\<exists>x. r = Inr x \<and> f x = Inr y)"
  by (cases r) auto

lemma rbind_eq_Inl: "rbind r f = Inl e \<longleftrightarrow> r = Inl e \<or> (\<exists>x. r = Inr x \<and> f x = Inl e)"
  by (cases r) auto

lemma rbind_InrE:
  assumes "rbind r f = Inr y"
  obtains x where "r = Inr x" "f x = Inr y"
  using assms by (auto simp: rbind_eq_Inr)

lemma rbind_cong [fundef_cong]:
  "r = r' \<Longrightarrow> (\<And>x. r' = Inr x \<Longrightarrow> f x = g x) \<Longrightarrow> rbind r f = rbind r' g"
  by (cases r') auto

text \<open>A check that throws: the guard of an early \<open>throw\<close>.\<close>

definition throw_if :: "bool \<Rightarrow> 'e \<Rightarrow> 'e + unit" where
  "throw_if b e = (if b then Inl e else Inr ())"

lemma throw_if_simps [simp]: "throw_if True e = Inl e" "throw_if False e = Inr ()"
  by (simp_all add: throw_if_def)

lemma throw_if_eq_Inr [simp]: "throw_if b e = Inr u \<longleftrightarrow> \<not> b"
  by (simp add: throw_if_def)

lemma throw_if_eq_Inl [simp]: "throw_if b e = Inl e' \<longleftrightarrow> b \<and> e = e'"
  by (simp add: throw_if_def)

text \<open>All exceptions a computation can raise satisfy a predicate.\<close>

definition raises_only :: "('e \<Rightarrow> bool) \<Rightarrow> 'e + 'a \<Rightarrow> bool" where
  "raises_only P r \<longleftrightarrow> (\<forall>e. r = Inl e \<longrightarrow> P e)"

lemma raises_onlyI: "(\<And>e. r = Inl e \<Longrightarrow> P e) \<Longrightarrow> raises_only P r"
  by (simp add: raises_only_def)

lemma raises_onlyD: "raises_only P r \<Longrightarrow> r = Inl e \<Longrightarrow> P e"
  by (simp add: raises_only_def)

lemma raises_only_mono: "raises_only P r \<Longrightarrow> (\<And>e. P e \<Longrightarrow> Q e) \<Longrightarrow> raises_only Q r"
  by (simp add: raises_only_def)

lemma raises_only_basic [raises_intros]:
  "raises_only P (Inr x)"
  "P e \<Longrightarrow> raises_only P (Inl e)"
  "(b \<Longrightarrow> P e) \<Longrightarrow> raises_only P (throw_if b e)"
  by (simp_all add: raises_only_def)

lemma raises_only_rbind [raises_intros]:
  "raises_only P r \<Longrightarrow> (\<And>x. r = Inr x \<Longrightarrow> raises_only P (f x)) \<Longrightarrow> raises_only P (rbind r f)"
  by (auto simp: raises_only_def rbind_eq_Inl)

lemma raises_only_control [raises_intros]:
  "(\<And>x y. p = (x, y) \<Longrightarrow> raises_only P (g x y)) \<Longrightarrow> raises_only P (case p of (x, y) \<Rightarrow> g x y)"
  "(b \<Longrightarrow> raises_only P r) \<Longrightarrow> (\<not> b \<Longrightarrow> raises_only P r') \<Longrightarrow> raises_only P (if b then r else r')"
  "raises_only P (h v) \<Longrightarrow> raises_only P (let x = v in h x)"
  "raises_only P n \<Longrightarrow> (\<And>v. x = Some v \<Longrightarrow> raises_only P (s v)) \<Longrightarrow>
     raises_only P (case x of None \<Rightarrow> n | Some v \<Rightarrow> s v)"
  by (auto simp: Let_def split: prod.splits option.splits)

text \<open>The result of a computation, if there is one, satisfies a predicate.\<close>

definition ensures :: "('a \<Rightarrow> bool) \<Rightarrow> 'e + 'a \<Rightarrow> bool" where
  "ensures Q r \<longleftrightarrow> (\<forall>x. r = Inr x \<longrightarrow> Q x)"

lemma ensuresD: "ensures Q r \<Longrightarrow> r = Inr x \<Longrightarrow> Q x"
  by (simp add: ensures_def)

lemma ensures_basic [ensures_intros]:
  "Q x \<Longrightarrow> ensures Q (Inr x)"
  "ensures Q (Inl e)"
  by (simp_all add: ensures_def)

lemma ensures_rbind [ensures_intros]:
  "(\<And>x. r = Inr x \<Longrightarrow> ensures Q (f x)) \<Longrightarrow> ensures Q (rbind r f)"
  by (auto simp: ensures_def rbind_eq_Inr)

lemma ensures_control [ensures_intros]:
  "(\<And>x y. p = (x, y) \<Longrightarrow> ensures Q (g x y)) \<Longrightarrow> ensures Q (case p of (x, y) \<Rightarrow> g x y)"
  "(b \<Longrightarrow> ensures Q r) \<Longrightarrow> (\<not> b \<Longrightarrow> ensures Q r') \<Longrightarrow> ensures Q (if b then r else r')"
  "ensures Q (h v) \<Longrightarrow> ensures Q (let x = v in h x)"
  by (auto simp: Let_def split: prod.splits)

subsection \<open>Big-endian integers\<close>

definition word_of_bytes :: "byte list \<Rightarrow> 'a::len word" where
  "word_of_bytes bs = foldl (\<lambda>acc b. push_bit 8 acc OR ucast b) 0 bs"

fun bytes_of_word :: "nat \<Rightarrow> 'a::len word \<Rightarrow> byte list" where
  "bytes_of_word 0 w = []"
| "bytes_of_word (Suc n) w = ucast (drop_bit (8 * n) w) # bytes_of_word n w"

lemma length_bytes_of_word [simp]: "length (bytes_of_word n w) = n"
  by (induction n) auto

lemma bytes_of_word_eq_Nil [simp]: "bytes_of_word n w = [] \<longleftrightarrow> n = 0"
  by (cases n) auto

lemma word_of_bytes_Nil [simp]: "word_of_bytes [] = 0"
  by (simp add: word_of_bytes_def)

lemma word_of_bytes_snoc:
  "word_of_bytes (bs @ [b]) = push_bit 8 (word_of_bytes bs) OR ucast b"
  by (simp add: word_of_bytes_def)

lemma nth_bytes_of_word:
  "k < n \<Longrightarrow> bytes_of_word n w ! k = ucast (drop_bit (8 * (n - 1 - k)) w)"
proof (induction n arbitrary: k)
  case (Suc n)
  then show ?case by (cases k) auto
qed simp

lemma bit_word_of_bytes:
  "bit (word_of_bytes bs :: 'a::len word) i \<longleftrightarrow>
     i < LENGTH('a) \<and> i < 8 * length bs \<and> bit (bs ! (length bs - 1 - i div 8)) (i mod 8)"
proof (induction bs arbitrary: i rule: rev_induct)
  case Nil
  then show ?case by simp
next
  case (snoc b bs)
  show ?case
  proof (cases "i < 8")
    case True
    then show ?thesis
      by (auto simp: word_of_bytes_snoc bit_simps nth_append dest: bit_imp_le_length)
  next
    case False
    then obtain j where j: "i = j + 8"
      by (metis add.commute le_add_diff_inverse not_less)
    have big: "\<not> bit b (j + 8)"
      using bit_imp_le_length [of b "j + 8"] by auto
    have idx: "length bs - Suc (j div 8) < length bs" if "j < 8 * length bs"
      using that by (cases bs) auto
    have d: "(j + 8) div 8 = Suc (j div 8)" by simp
    show ?thesis
      using snoc.IH [of j] idx unfolding j
      by (auto simp: word_of_bytes_snoc bit_simps nth_append big d)
  qed
qed

lemma bit_nth_bytes_of_word:
  assumes "k < n"
  shows "bit (bytes_of_word n w ! k) i \<longleftrightarrow> i < 8 \<and> bit w (8 * (n - 1 - k) + i)"
  using assms by (auto simp: nth_bytes_of_word bit_simps add.commute dest: bit_imp_le_length)

lemma word_of_bytes_of_word [simp]:
  fixes w :: "'a::len word"
  assumes "LENGTH('a) = 8 * n"
  shows "word_of_bytes (bytes_of_word n w) = w"
proof (rule bit_word_eqI)
  fix i assume i: "i < LENGTH('a)"
  have "i div 8 < n" using i assms by (simp add: less_mult_imp_div_less mult.commute)
  moreover from this have "n - Suc (n - Suc (i div 8)) = i div 8" by arith
  ultimately show "bit (word_of_bytes (bytes_of_word n w) :: 'a word) i \<longleftrightarrow> bit w i"
    using i assms by (auto simp: bit_word_of_bytes bit_nth_bytes_of_word)
qed

lemma bytes_of_word_of_bytes:
  assumes "length bs = n" "LENGTH('a::len) = 8 * n"
  shows "bytes_of_word n (word_of_bytes bs :: 'a word) = bs"
proof (rule nth_equalityI)
  show "length (bytes_of_word n (word_of_bytes bs :: 'a word)) = length bs"
    using assms by simp
  fix k assume "k < length (bytes_of_word n (word_of_bytes bs :: 'a word))"
  then have k: "k < n" by simp
  show "bytes_of_word n (word_of_bytes bs :: 'a word) ! k = bs ! k"
  proof (rule bit_word_eqI)
    fix i assume "i < LENGTH(8)"
    then have i: "i < 8" by simp
    have b: "8 * (n - 1 - k) + i < 8 * n" using i k by arith
    have "(8 * (n - 1 - k) + i) div 8 = n - 1 - k" "(8 * (n - 1 - k) + i) mod 8 = i"
      using i by simp_all
    moreover have "n - 1 - (n - 1 - k) = k" using k by arith
    ultimately show "bit (bytes_of_word n (word_of_bytes bs :: 'a word) ! k) i \<longleftrightarrow> bit (bs ! k) i"
      using i k b assms by (simp add: bit_nth_bytes_of_word bit_word_of_bytes)
  qed
qed

subsection \<open>Keeping the high bits of a word\<close>

definition word_masked :: "nat \<Rightarrow> 'a::len word \<Rightarrow> 'a word" where
  "word_masked n w = w AND NOT (mask (LENGTH('a) - n))"

lemma bit_word_masked:
  "bit (word_masked n w :: 'a::len word) i \<longleftrightarrow> bit w i \<and> LENGTH('a) - n \<le> i"
  by (auto simp: word_masked_def bit_simps dest: bit_imp_le_length)

lemma word_masked_idem [simp]: "word_masked n (word_masked n w) = word_masked n w"
  by (rule bit_word_eqI) (auto simp: bit_word_masked)

text \<open>
  Only the first \<open>k\<close> bytes of an address are sent; the receiver pads with zero bytes and
  masks. As long as \<open>k\<close> bytes hold all \<open>n\<close> prefix bits nothing is lost.
\<close>

lemma word_masked_take_bytes:
  fixes w :: "'a::len word"
  assumes len: "LENGTH('a) = 8 * m" and k: "k \<le> m" "n \<le> 8 * k"
  shows "word_masked n (word_of_bytes (take k (bytes_of_word m w) @ replicate (m - k) 0)) =
         word_masked n w"
proof (rule bit_word_eqI)
  fix i assume i: "i < LENGTH('a)"
  let ?bs = "take k (bytes_of_word m w) @ replicate (m - k) 0"
  have lbs: "length ?bs = m" using k by simp
  have d: "i div 8 < m" using i len by (simp add: less_mult_imp_div_less mult.commute)
  show "bit (word_masked n (word_of_bytes ?bs) :: 'a word) i \<longleftrightarrow> bit (word_masked n w) i"
  proof (cases "LENGTH('a) - n \<le> i")
    case True
    have "m - 1 - i div 8 < k"
    proof -
      have "8 * m - n \<le> i" using True len by simp
      then have "8 * m - 8 * k \<le> i" using k by arith
      then have "m - k \<le> i div 8" by arith
      then show ?thesis using d k by arith
    qed
    then have "?bs ! (m - 1 - i div 8) = bytes_of_word m w ! (m - 1 - i div 8)"
      using k by (simp add: nth_append)
    moreover have "m - 1 - (m - 1 - i div 8) = i div 8" using d by arith
    ultimately show ?thesis
      using i d len lbs by (simp add: bit_word_masked bit_word_of_bytes bit_nth_bytes_of_word)
  next
    case False
    then show ?thesis by (simp add: bit_word_masked)
  qed
qed

end
