(* ===== verification/Bgp_Types.thy ===== *)
theory Bgp_Types
  imports Bgp_Prelude
begin

text \<open>
  The data the BGP library exchanges: the enumerations and structures of
  \<^verbatim>\<open>if/BgpStructs.thrift\<close> and \<^verbatim>\<open>cpp/lib/BgpStructs.h\<close>, and the exceptions of
  \<^verbatim>\<open>cpp/lib/BgpException.h\<close>.

  Thrift enumerations are open: \<^verbatim>\<open>static_cast\<close> puts any integer into them, and
  \<^verbatim>\<open>enumName(x) == nullptr\<close> is how the code recognises an unnamed value. Each such enumeration
  therefore has a constructor for the unnamed values. Thrift integers (\<^verbatim>\<open>i16\<close>, \<^verbatim>\<open>i32\<close>,
  \<^verbatim>\<open>i64\<close>) are \<open>int\<close>; the places where the code casts them to a machine width are written out.
  The text of an exception (its \<^verbatim>\<open>what()\<close>) is not kept; its code, subcode and data are.
\<close>

subsection \<open>Addresses\<close>

text \<open>
  An address is empty, a 32-bit or a 128-bit value. A textual address field of the thrift
  structures is represented by the address it denotes, the empty string by \<open>IPEmpty\<close>.
\<close>

datatype ipaddr = IPEmpty | IPv4 u32 | IPv6 u128

fun isV4 :: "ipaddr \<Rightarrow> bool" where
  "isV4 (IPv4 _) = True"
| "isV4 _ = False"

fun isV6 :: "ipaddr \<Rightarrow> bool" where
  "isV6 (IPv6 _) = True"
| "isV6 _ = False"

fun ip_bytes :: "ipaddr \<Rightarrow> byte list" where
  "ip_bytes IPEmpty = []"
| "ip_bytes (IPv4 w) = bytes_of_word 4 w"
| "ip_bytes (IPv6 w) = bytes_of_word 16 w"

fun ip_mask :: "nat \<Rightarrow> ipaddr \<Rightarrow> ipaddr" where
  "ip_mask n IPEmpty = IPEmpty"
| "ip_mask n (IPv4 w) = IPv4 (word_masked n w)"
| "ip_mask n (IPv6 w) = IPv6 (word_masked n w)"

fun ip_bits :: "ipaddr \<Rightarrow> nat" where
  "ip_bits IPEmpty = 0"
| "ip_bits (IPv4 _) = 32"
| "ip_bits (IPv6 _) = 128"

type_synonym cidr = "ipaddr \<times> nat"

subsection \<open>Enumerations\<close>

datatype BgpUpdateAfi = AFI_IPv4 | AFI_IPv6 | AFI_LS | AFI_unnamed int

datatype BgpUpdateSafi = SAFI_UNICAST | SAFI_LABELED_UNICAST | SAFI_LS | SAFI_unnamed int

datatype BgpAttrOrigin = BGP_ORIGIN_IGP | BGP_ORIGIN_EGP | BGP_ORIGIN_INCOMPLETE

datatype BgpAddPathSendRec = RECEIVE | SEND | BOTH

datatype BgpRouteRefreshMessageSubtype =
  ROUTE_REFRESH_REQUEST | BEGINNING_OF_ROUTE_REFRESH | END_OF_ROUTE_REFRESH
  | RR_subtype_unnamed int

datatype BgpNotifErrCode =
  BN_MSG_HDR_ERR | BN_OPEN_MSG_ERR | BN_UPDATE_MSG_ERR | BN_HOLD_TIMER_EXPIRED
  | BN_FSM_ERROR | BN_CEASE | BN_ROUTE_REFRESH_MSG_ERR

datatype BgpNotifMsgHdrErrSubCode =
  BN_MH_CONNECTION_NOT_SYNCHRONIZED | BN_MH_BAD_MSG_LEN | BN_MH_BAD_MSG_TYPE

datatype BgpNotifOpenMsgErrSubCode =
  BN_OM_UNSPECIFIC | BN_OM_UNSUPPORTED_VERSION_NUMBER | BN_OM_UNSUPPORTED_OPTIONAL_PARAM
  | BN_OM_UNACCEPTABLE_HOLD_TIME

datatype BgpNotifUpdateMsgErrSubCode =
  BN_UM_UNSPECIFIC | BN_UM_MALFORMED_ATTRIBUTE_LIST | BN_UM_MISSING_WELL_KNOWN_ATTR
  | BN_UM_ATTR_FLAGS_ERR | BN_UM_ATTR_LEN_ERR | BN_UM_INVALID_ORIGIN_ATTR
  | BN_UM_INVALID_NEXT_HOP_ATTR | BN_UM_OPTIONAL_ATTR_ERROR | BN_UM_INVALID_NETWORK_FIELD
  | BN_UM_MALFORMED_AS_PATH

datatype BgpSerializerExceptionCode =
  AFI_MISMATCH | EXCEEDED_MAX_SIZE | MISSING_NLRI_INFO | INVALID_ASPATH_INFO
  | INVALID_NLRI_LABEL_INFO | VERSION_ERROR | EXT_NH_ENCODING_NOT_SUPPORTTED

fun afi_code :: "BgpUpdateAfi \<Rightarrow> int" where
  "afi_code AFI_IPv4 = 1"
| "afi_code AFI_IPv6 = 2"
| "afi_code AFI_LS = 16388"
| "afi_code (AFI_unnamed n) = n"

definition afi_of_code :: "int \<Rightarrow> BgpUpdateAfi" where
  "afi_of_code n =
     (if n = 1 then AFI_IPv4 else if n = 2 then AFI_IPv6 else if n = 16388 then AFI_LS
      else AFI_unnamed n)"

fun safi_code :: "BgpUpdateSafi \<Rightarrow> int" where
  "safi_code SAFI_UNICAST = 1"
| "safi_code SAFI_LABELED_UNICAST = 4"
| "safi_code SAFI_LS = 71"
| "safi_code (SAFI_unnamed n) = n"

definition safi_of_code :: "int \<Rightarrow> BgpUpdateSafi" where
  "safi_of_code n =
     (if n = 1 then SAFI_UNICAST else if n = 4 then SAFI_LABELED_UNICAST
      else if n = 71 then SAFI_LS else SAFI_unnamed n)"

fun afi_named :: "BgpUpdateAfi \<Rightarrow> bool" where
  "afi_named (AFI_unnamed _) = False"
| "afi_named _ = True"

fun safi_named :: "BgpUpdateSafi \<Rightarrow> bool" where
  "safi_named (SAFI_unnamed _) = False"
| "safi_named _ = True"

fun origin_code :: "BgpAttrOrigin \<Rightarrow> int" where
  "origin_code BGP_ORIGIN_IGP = 0"
| "origin_code BGP_ORIGIN_EGP = 1"
| "origin_code BGP_ORIGIN_INCOMPLETE = 2"

fun sor_code :: "BgpAddPathSendRec \<Rightarrow> int" where
  "sor_code RECEIVE = 1"
| "sor_code SEND = 2"
| "sor_code BOTH = 3"

definition sor_of_code :: "int \<Rightarrow> BgpAddPathSendRec option" where
  "sor_of_code n =
     (if n = 1 then Some RECEIVE else if n = 2 then Some SEND else if n = 3 then Some BOTH
      else None)"

fun rr_subtype_code :: "BgpRouteRefreshMessageSubtype \<Rightarrow> int" where
  "rr_subtype_code ROUTE_REFRESH_REQUEST = 0"
| "rr_subtype_code BEGINNING_OF_ROUTE_REFRESH = 1"
| "rr_subtype_code END_OF_ROUTE_REFRESH = 2"
| "rr_subtype_code (RR_subtype_unnamed n) = n"

definition rr_subtype_of_code :: "int \<Rightarrow> BgpRouteRefreshMessageSubtype" where
  "rr_subtype_of_code n =
     (if n = 0 then ROUTE_REFRESH_REQUEST else if n = 1 then BEGINNING_OF_ROUTE_REFRESH
      else if n = 2 then END_OF_ROUTE_REFRESH else RR_subtype_unnamed n)"

fun notif_code :: "BgpNotifErrCode \<Rightarrow> int" where
  "notif_code BN_MSG_HDR_ERR = 1"
| "notif_code BN_OPEN_MSG_ERR = 2"
| "notif_code BN_UPDATE_MSG_ERR = 3"
| "notif_code BN_HOLD_TIMER_EXPIRED = 4"
| "notif_code BN_FSM_ERROR = 5"
| "notif_code BN_CEASE = 6"
| "notif_code BN_ROUTE_REFRESH_MSG_ERR = 7"

lemma afi_code_of_code [simp]: "afi_code (afi_of_code n) = n"
  by (simp add: afi_of_code_def)

lemma safi_code_of_code [simp]: "safi_code (safi_of_code n) = n"
  by (simp add: safi_of_code_def)

lemma afi_of_code_named [simp]: "afi_named a \<Longrightarrow> afi_of_code (afi_code a) = a"
  by (cases a) (auto simp: afi_of_code_def)

lemma safi_of_code_named [simp]: "safi_named a \<Longrightarrow> safi_of_code (safi_code a) = a"
  by (cases a) (auto simp: safi_of_code_def)

lemma afi_named_bounds: "afi_named a \<Longrightarrow> 0 \<le> afi_code a \<and> afi_code a < 2 ^ 16"
  by (cases a) auto

lemma safi_named_bounds: "safi_named a \<Longrightarrow> 0 \<le> safi_code a \<and> safi_code a < 2 ^ 8"
  by (cases a) auto

lemma sor_of_code_code [simp]: "sor_of_code (sor_code s) = Some s"
  by (cases s) (auto simp: sor_of_code_def)

lemma rr_subtype_of_code_named [simp]:
  "(\<And>n. s \<noteq> RR_subtype_unnamed n) \<Longrightarrow> rr_subtype_of_code (rr_subtype_code s) = s"
  by (cases s) (auto simp: rr_subtype_of_code_def)

subsection \<open>Exceptions\<close>

text \<open>
  \<open>OutOfRange\<close> is the \<^verbatim>\<open>std::out_of_range\<close> a cursor raises when it runs past its buffer.
  \<open>IPAddressFormatException\<close> is what \<^verbatim>\<open>IPAddress::fromBinary\<close> raises on an empty address and
  \<open>InvalidAddressFamilyException\<close> what \<^verbatim>\<open>IPAddress::asV4\<close> raises on one that is not IPv4.
  Two marks are not exceptions of the code: \<open>Diverges\<close> stands for a loop iteration that consumes
  nothing, on which the C++ loop would run forever, and \<open>UndefinedBehaviour\<close> for a read past the
  end of an object that the code does not guard.
\<close>

datatype bgp_exn =
    OutOfRange
  | BgpHeaderException BgpNotifMsgHdrErrSubCode "byte list"
  | BgpOpenMsgException BgpNotifOpenMsgErrSubCode "byte list"
  | BgpUpdateMsgException BgpNotifUpdateMsgErrSubCode "byte list"
  | BgpRouteRefreshMsgException "byte list"
  | BgpFsmException
  | BgpException
  | BgpSerializerException BgpSerializerExceptionCode
  | IPAddressFormatException
  | InvalidAddressFamilyException
  | Diverges
  | UndefinedBehaviour

subsection \<open>Path attributes\<close>

record BgpAttrAsPathSegment =
  asSet :: "int set"
  asSequence :: "int list"
  asConfedSequence :: "int list"
  asConfedSet :: "int set"

definition empty_segment :: BgpAttrAsPathSegment where
  "empty_segment = \<lparr>asSet = {}, asSequence = [], asConfedSequence = [], asConfedSet = {}\<rparr>"

record BgpAttrAggregator =
  agg_asn :: int
  agg_ip :: ipaddr

record BgpAttrCommunity =
  comm_asn :: int
  comm_value :: int

record BgpAttrExtCommunity =
  firstWord :: int
  secondWord :: int

record BgpAttrLargeCommunity =
  lc_asn :: int
  localData1 :: int
  localData2 :: int

record BgpAttributes =
  origin :: BgpAttrOrigin
  asPath :: "BgpAttrAsPathSegment list"
  nexthop :: ipaddr
  med :: int
  localPref :: "int option"
  atomicAggregate :: bool
  aggregator :: BgpAttrAggregator
  communities :: "BgpAttrCommunity list"
  originatorId :: int
  clusterList :: "int list"
  extCommunities :: "BgpAttrExtCommunity list"
  largeCommunities :: "BgpAttrLargeCommunity list"
  isMedSet :: bool
  weight :: int

definition default_attrs :: BgpAttributes where
  "default_attrs =
     \<lparr>origin = BGP_ORIGIN_IGP, asPath = [], nexthop = IPEmpty, med = 0, localPref = None,
      atomicAggregate = False, aggregator = \<lparr>agg_asn = 0, agg_ip = IPEmpty\<rparr>, communities = [],
      originatorId = 0, clusterList = [], extCommunities = [], largeCommunities = [],
      isMedSet = False, weight = 0\<rparr>"

subsection \<open>Capabilities and messages\<close>

record BgpGrCapability =
  gr_afi :: BgpUpdateAfi
  gr_safi :: BgpUpdateSafi
  forwardingState :: bool

record BgpAddPathCapability =
  ap_afi :: BgpUpdateAfi
  ap_safi :: BgpUpdateSafi
  sor :: BgpAddPathSendRec

record BgpExtNHEncodingCapability =
  nlriAfi :: BgpUpdateAfi
  nlriSafi :: BgpUpdateSafi
  nhAfi :: BgpUpdateAfi

record BgpCapabilities =
  mpExtV4Unicast :: bool
  mpExtV6Unicast :: bool
  mpExtV4LU :: bool
  mpExtV6LU :: bool
  as4byte :: bool
  capa_asn :: int
  gracefulRestart :: bool
  isRestarting :: bool
  restartTime :: int
  grCapabilities :: "BgpGrCapability list"
  mpExtLs :: bool
  mpExtExist :: bool
  addPathCapabilities :: "BgpAddPathCapability list"
  extNHEncodingCapabilities :: "BgpExtNHEncodingCapability list"
  enhancedRouteRefresh :: bool
  routeRefresh :: bool
  grNotification :: bool

definition default_capabilities :: BgpCapabilities where
  "default_capabilities =
     \<lparr>mpExtV4Unicast = False, mpExtV6Unicast = False, mpExtV4LU = False, mpExtV6LU = False,
      as4byte = False, capa_asn = 0, gracefulRestart = False, isRestarting = False,
      restartTime = 0, grCapabilities = [], mpExtLs = False, mpExtExist = False,
      addPathCapabilities = [], extNHEncodingCapabilities = [], enhancedRouteRefresh = False,
      routeRefresh = False, grNotification = False\<rparr>"

text \<open>\<^verbatim>\<open>RiggedIPPrefix\<close>; the parser's own \<^verbatim>\<open>BgpPrefix\<close> has the same three members.\<close>

record RiggedIPPrefix =
  prefix :: cidr
  labels :: "int list"
  pathId :: "int option"

record BgpNlri =
  nlri_afi :: BgpUpdateAfi
  nlri_safi :: BgpUpdateSafi
  prefixes :: "RiggedIPPrefix list"
  nlri_nexthop :: ipaddr

record BgpUpdate2 =
  attrs :: BgpAttributes
  mpAnnounced :: BgpNlri
  mpWithdrawn :: BgpNlri
  v4Announced :: "cidr list"
  v4Withdrawn :: "cidr list"
  v4Nexthop :: ipaddr
  v4Announced2 :: "RiggedIPPrefix list"
  v4Withdrawn2 :: "RiggedIPPrefix list"

record BgpEndOfRib =
  isMpEor :: bool
  eor_afi :: BgpUpdateAfi
  eor_safi :: BgpUpdateSafi

record BgpOpenMsg =
  version :: int
  open_asn :: int
  holdTime :: int
  bgpID :: int
  capabilities :: BgpCapabilities

record BgpNotification =
  errCode :: BgpNotifErrCode
  errSubCode :: int
  notif_data :: "byte list"

record BgpRouteRefresh =
  rr_afi :: BgpUpdateAfi
  rr_subtype :: BgpRouteRefreshMessageSubtype
  rr_safi :: BgpUpdateSafi

subsection \<open>Constants of BgpStructs.h\<close>

definition kBgpMsgHeaderLen :: nat where "kBgpMsgHeaderLen = 19"

definition kMaxBgpMsgLen :: nat where "kMaxBgpMsgLen = 4096"

definition kMinBgpUpdateMsgLen :: nat where "kMinBgpUpdateMsgLen = 23"

definition kMaxBgpUpdateVarLen :: nat where
  "kMaxBgpUpdateVarLen = kMaxBgpMsgLen - kMinBgpUpdateMsgLen"

definition kMaxV6PrefixLen :: nat where "kMaxV6PrefixLen = 17"

definition kMaxV4prefixLen :: nat where "kMaxV4prefixLen = 5"

definition kMaxPathIdLen :: nat where "kMaxPathIdLen = 4"

definition kBgpMarker :: "byte list" where "kBgpMarker = replicate 16 255"

definition kBgpVersion :: byte where "kBgpVersion = 4"

lemmas bgp_consts =
  kBgpMsgHeaderLen_def kMaxBgpMsgLen_def kMinBgpUpdateMsgLen_def kMaxBgpUpdateVarLen_def
  kMaxV6PrefixLen_def kMaxV4prefixLen_def kMaxPathIdLen_def

end
