(* ===== verification/Wire_Cursor.thy ===== *)
theory Wire_Cursor
  imports Bgp_Types
begin

text \<open>
  The byte buffers of the wire format.

  A \<^verbatim>\<open>folly::io::Cursor\<close> over a contiguous buffer is the list of the bytes still to be read:
  \<^verbatim>\<open>cursor.length()\<close> is the length of the list, and every read that needs more bytes than are
  left raises \<^verbatim>\<open>std::out_of_range\<close>, which is what the parsers catch. A writer appends to the
  bytes written so far; the bytes of \<^verbatim>\<open>write\<close> and \<^verbatim>\<open>writeBE\<close> are those of \<open>wr8\<close>, \<open>wr16\<close>,
  \<open>wr32\<close> (network order) and \<open>wr32n\<close> (host order, little endian).

  Every loop of the parsers has the form \<^verbatim>\<open>while (cursor.length()) { ... }\<close>. It is the
  combinator \<open>cursor_loop\<close>, and two interfaces carry the proofs about such loops: \<open>cursor_codec\<close>
  (the loop undoes a concatenation of encoded items) and \<open>cursor_body\<close> (the loop returns, and
  raises only what its body raises).
\<close>

type_synonym cursor = "byte list"

subsection \<open>Reading\<close>

definition read_u8 :: "cursor \<Rightarrow> bgp_exn + (byte \<times> cursor)" where
  "read_u8 cur = (case cur of [] \<Rightarrow> Inl OutOfRange | b # cs \<Rightarrow> Inr (b, cs))"

definition pull :: "nat \<Rightarrow> cursor \<Rightarrow> bgp_exn + (byte list \<times> cursor)" where
  "pull n cur = (if length cur < n then Inl OutOfRange else Inr (take n cur, drop n cur))"

definition skip :: "nat \<Rightarrow> cursor \<Rightarrow> bgp_exn + cursor" where
  "skip n cur = (if length cur < n then Inl OutOfRange else Inr (drop n cur))"

definition readBE16 :: "cursor \<Rightarrow> bgp_exn + (u16 \<times> cursor)" where
  "readBE16 cur = rbind (pull 2 cur) (\<lambda>(bs, cur). Inr (word_of_bytes bs, cur))"

definition readBE32 :: "cursor \<Rightarrow> bgp_exn + (u32 \<times> cursor)" where
  "readBE32 cur = rbind (pull 4 cur) (\<lambda>(bs, cur). Inr (word_of_bytes bs, cur))"

definition read32n :: "cursor \<Rightarrow> bgp_exn + (u32 \<times> cursor)" where
  "read32n cur = rbind (pull 4 cur) (\<lambda>(bs, cur). Inr (word_of_bytes (rev bs), cur))"

text \<open>\<^verbatim>\<open>catch (std::out_of_range)\<close> that rethrows as another exception.\<close>

definition catch_oor :: "bgp_exn \<Rightarrow> bgp_exn + 'a \<Rightarrow> bgp_exn + 'a" where
  "catch_oor e r = (if r = Inl OutOfRange then Inl e else r)"

subsection \<open>Writing\<close>

definition wr8 :: "int \<Rightarrow> byte list" where
  "wr8 x = [word_of_int x]"

definition wr16 :: "int \<Rightarrow> byte list" where
  "wr16 x = bytes_of_word 2 (word_of_int x :: u16)"

definition wr32 :: "int \<Rightarrow> byte list" where
  "wr32 x = bytes_of_word 4 (word_of_int x :: u32)"

definition wr32n :: "int \<Rightarrow> byte list" where
  "wr32n x = rev (bytes_of_word 4 (word_of_int x :: u32))"

text \<open>
  A write into a buffer of \<open>cap\<close> bytes of which \<open>buf\<close> are used: it raises when the bytes do
  not fit.
\<close>

definition push :: "nat \<Rightarrow> byte list \<Rightarrow> byte list \<Rightarrow> bgp_exn + byte list" where
  "push cap buf bs = (if length buf + length bs \<le> cap then Inr (buf @ bs) else Inl OutOfRange)"

subsection \<open>Loops over a cursor\<close>

function cursor_loop ::
  "(cursor \<Rightarrow> 's \<Rightarrow> bgp_exn + ('s \<times> cursor)) \<Rightarrow> cursor \<Rightarrow> 's \<Rightarrow> bgp_exn + 's" where
  "cursor_loop body cur s =
     (if cur = [] then Inr s
      else case body cur s of
             Inl e \<Rightarrow> Inl e
           | Inr (s', cur') \<Rightarrow>
               if length cur' < length cur then cursor_loop body cur' s' else Inl Diverges)"
  by pat_completeness auto
termination
  by (relation "measure (\<lambda>(body, cur, s). length cur)") auto

declare cursor_loop.simps [simp del]

lemma cursor_loop_Nil [simp]: "cursor_loop body [] s = Inr s"
  by (simp add: cursor_loop.simps)

lemma cursor_loop_step:
  assumes "body cur s = Inr (s', cur')" "length cur' < length cur"
  shows "cursor_loop body cur s = cursor_loop body cur' s'"
  using assms by (subst cursor_loop.simps) auto

lemma cursor_loop_raise:
  assumes "body cur s = Inl e" "cur \<noteq> []"
  shows "cursor_loop body cur s = Inl e"
  using assms by (subst cursor_loop.simps) auto

subsection \<open>Rules for the primitives\<close>

lemma length_wr [simp]:
  "length (wr8 x) = 1" "length (wr16 x) = 2" "length (wr32 x) = 4" "length (wr32n x) = 4"
  by (simp_all add: wr8_def wr16_def wr32_def wr32n_def)

lemma wr_nonempty [simp]: "wr8 x \<noteq> []" "wr16 x \<noteq> []" "wr32 x \<noteq> []" "wr32n x \<noteq> []"
  by (simp_all add: wr8_def wr16_def wr32_def wr32n_def)

lemma read_u8_Cons [simp]: "read_u8 (b # cs) = Inr (b, cs)"
  by (simp add: read_u8_def)

lemma read_u8_Nil [simp]: "read_u8 [] = Inl OutOfRange"
  by (simp add: read_u8_def)

lemma pull_append [codec_simps]: "length bs = n \<Longrightarrow> pull n (bs @ rest) = Inr (bs, rest)"
  by (simp add: pull_def)

lemma skip_append [codec_simps]: "length bs = n \<Longrightarrow> skip n (bs @ rest) = Inr rest"
  by (simp add: skip_def)

lemma read_u8_wr8 [codec_simps]: "read_u8 (wr8 x @ rest) = Inr (word_of_int x, rest)"
  by (simp add: wr8_def)

lemma readBE16_wr16 [codec_simps]: "readBE16 (wr16 x @ rest) = Inr (word_of_int x, rest)"
  by (simp add: readBE16_def wr16_def pull_append)

lemma readBE32_wr32 [codec_simps]: "readBE32 (wr32 x @ rest) = Inr (word_of_int x, rest)"
  by (simp add: readBE32_def wr32_def pull_append)

lemma read32n_wr32n [codec_simps]: "read32n (wr32n x @ rest) = Inr (word_of_int x, rest)"
  by (simp add: read32n_def wr32n_def pull_append)

lemma catch_oor_Inr [simp]: "catch_oor e (Inr x) = Inr x"
  by (simp add: catch_oor_def)

lemma catch_oor_eq_Inr [simp]: "catch_oor e r = Inr x \<longleftrightarrow> r = Inr x"
  by (auto simp: catch_oor_def)

lemma catch_oor_eq_Inl:
  "catch_oor e r = Inl e' \<longleftrightarrow> (r = Inl OutOfRange \<and> e' = e) \<or> (r = Inl e' \<and> e' \<noteq> OutOfRange)"
  by (auto simp: catch_oor_def)

text \<open>What a successful read leaves, and what a failing one raises.\<close>

lemma read_u8_InrD: "read_u8 cur = Inr (b, cur') \<Longrightarrow> cur = b # cur'"
  by (simp add: read_u8_def split: list.splits)

lemma pull_InrD:
  "pull n cur = Inr (bs, cur') \<Longrightarrow> cur = bs @ cur' \<and> length bs = n"
  by (auto simp: pull_def split: if_splits)

lemma skip_InrD: "skip n cur = Inr cur' \<Longrightarrow> cur' = drop n cur \<and> n \<le> length cur"
  by (auto simp: skip_def split: if_splits)

lemma read_lengthD:
  "read_u8 cur = Inr (b, cur') \<Longrightarrow> length cur = Suc (length cur')"
  "readBE16 cur = Inr (w, cur') \<Longrightarrow> length cur = length cur' + 2"
  "readBE32 cur = Inr (v, cur') \<Longrightarrow> length cur = length cur' + 4"
  "read32n cur = Inr (v, cur') \<Longrightarrow> length cur = length cur' + 4"
  "skip n cur = Inr cur' \<Longrightarrow> length cur = length cur' + n"
  "pull n cur = Inr (bs, cur') \<Longrightarrow> length cur = length cur' + n"
  by (auto dest!: read_u8_InrD pull_InrD skip_InrD
      simp: readBE16_def readBE32_def read32n_def rbind_eq_Inr)

lemma read_raises [exn_simps]:
  "read_u8 cur = Inl e \<longleftrightarrow> cur = [] \<and> e = OutOfRange"
  "pull n cur = Inl e \<longleftrightarrow> length cur < n \<and> e = OutOfRange"
  "skip n cur = Inl e \<longleftrightarrow> length cur < n \<and> e = OutOfRange"
  "readBE16 cur = Inl e \<longleftrightarrow> length cur < 2 \<and> e = OutOfRange"
  "readBE32 cur = Inl e \<longleftrightarrow> length cur < 4 \<and> e = OutOfRange"
  "read32n cur = Inl e \<longleftrightarrow> length cur < 4 \<and> e = OutOfRange"
  by (auto simp: read_u8_def pull_def skip_def readBE16_def readBE32_def read32n_def
      split: list.splits)

lemma read_raises_only [raises_intros]:
  assumes "P OutOfRange"
  shows "raises_only P (read_u8 cur)" "raises_only P (pull n cur)" "raises_only P (skip n cur)"
    "raises_only P (readBE16 cur)" "raises_only P (readBE32 cur)" "raises_only P (read32n cur)"
  using assms by (auto simp: raises_only_def exn_simps)

lemma catch_oor_raises_only [raises_intros]:
  "P e \<Longrightarrow> raises_only (\<lambda>e. e = OutOfRange \<or> P e) r \<Longrightarrow> raises_only P (catch_oor e r)"
  by (auto simp: raises_only_def catch_oor_eq_Inl)

text \<open>Casting an in-range thrift integer to a machine width and back is the identity.\<close>

lemma uint_cast [codec_simps]:
  "0 \<le> x \<Longrightarrow> x < 256 \<Longrightarrow> uint (word_of_int x :: byte) = x"
  "0 \<le> x \<Longrightarrow> x < 65536 \<Longrightarrow> uint (word_of_int x :: u16) = x"
  "0 \<le> x \<Longrightarrow> x < 4294967296 \<Longrightarrow> uint (word_of_int x :: u32) = x"
  by (simp_all add: uint_word_of_int)

lemma unat_cast8 [codec_simps]: "n < 256 \<Longrightarrow> unat (word_of_nat n :: byte) = n"
  by (simp add: unat_of_nat)

lemma unat_cast16 [codec_simps]: "n < 65536 \<Longrightarrow> unat (word_of_nat n :: u16) = n"
  by (simp add: unat_of_nat)

subsection \<open>The loop undoes a concatenation of encoded items\<close>

locale cursor_codec =
  fixes body :: "cursor \<Rightarrow> 's \<Rightarrow> bgp_exn + ('s \<times> cursor)"
    and enc :: "'a \<Rightarrow> byte list"
    and upd :: "'a \<Rightarrow> 's \<Rightarrow> 's"
    and ok :: "'a \<Rightarrow> bool"
  assumes enc_nonempty: "ok x \<Longrightarrow> enc x \<noteq> []"
    and body_enc: "ok x \<Longrightarrow> body (enc x @ rest) s = Inr (upd x s, rest)"
begin

lemma loop_enc_append:
  "list_all ok xs \<Longrightarrow>
     cursor_loop body (concat (map enc xs) @ rest) s = cursor_loop body rest (fold upd xs s)"
proof (induction xs arbitrary: s)
  case (Cons x xs)
  then have "cursor_loop body (enc x @ concat (map enc xs) @ rest) s =
      cursor_loop body (concat (map enc xs) @ rest) (upd x s)"
    by (intro cursor_loop_step) (auto simp: body_enc enc_nonempty)
  with Cons show ?case by simp
qed simp

lemma loop_enc:
  "list_all ok xs \<Longrightarrow> cursor_loop body (concat (map enc xs)) s = Inr (fold upd xs s)"
  using loop_enc_append [of xs "[]" s] by simp

end

subsection \<open>The loop returns, and raises what its body raises\<close>

locale cursor_body =
  fixes body :: "cursor \<Rightarrow> 's \<Rightarrow> bgp_exn + ('s \<times> cursor)"
    and raised :: "bgp_exn \<Rightarrow> bool"
  assumes consumes: "body cur s = Inr (s', cur') \<Longrightarrow> cur \<noteq> [] \<Longrightarrow> length cur' < length cur"
    and raises: "body cur s = Inl e \<Longrightarrow> cur \<noteq> [] \<Longrightarrow> raised e"
begin

lemma loop_raises: "cursor_loop body cur s = Inl e \<Longrightarrow> raised e"
proof (induction "length cur" arbitrary: cur s rule: less_induct)
  case less
  from less.prems have ne: "cur \<noteq> []" by auto
  show ?case
  proof (cases "body cur s")
    case (Inl e')
    with less.prems ne have "e' = e" by (subst (asm) cursor_loop.simps) auto
    with raises [OF Inl ne] show ?thesis by simp
  next
    case (Inr r)
    obtain s1 cur1 where r: "r = (s1, cur1)" by (cases r)
    with Inr have b: "body cur s = Inr (s1, cur1)" by simp
    from consumes [OF b ne] have l: "length cur1 < length cur" .
    from less.prems cursor_loop_step [of body cur s, OF b l]
    have "cursor_loop body cur1 s1 = Inl e" by simp
    with less.hyps [OF l] show ?thesis .
  qed
qed

end

text \<open>A property of the state that every iteration keeps holds of the loop's result.\<close>

locale cursor_invariant =
  fixes body :: "cursor \<Rightarrow> 's \<Rightarrow> bgp_exn + ('s \<times> cursor)"
    and inv :: "'s \<Rightarrow> bool"
  assumes keeps: "body cur s = Inr (s', cur') \<Longrightarrow> inv s \<Longrightarrow> inv s'"
begin

lemma loop_keeps: "cursor_loop body cur s = Inr s' \<Longrightarrow> inv s \<Longrightarrow> inv s'"
proof (induction "length cur" arbitrary: cur s rule: less_induct)
  case less
  show ?case
  proof (cases "cur = []")
    case True
    with less.prems show ?thesis by simp
  next
    case False
    with less.prems(1) obtain s1 cur1 where b: "body cur s = Inr (s1, cur1)"
      and l: "length cur1 < length cur" and r: "cursor_loop body cur1 s1 = Inr s'"
      by (subst (asm) cursor_loop.simps) (auto split: sum.splits if_splits)
    from keeps [OF b less.prems(2)] have "inv s1" .
    with less.hyps [OF l r] show ?thesis .
  qed
qed

end

end
