(* ===== verification/Nlri_Codec.thy ===== *)
theory Nlri_Codec
  imports Wire_Cursor
begin

text \<open>
  Network layer reachability information: \<^verbatim>\<open>parseNlriPrefix\<close>, \<^verbatim>\<open>parseNlri\<close> and
  \<^verbatim>\<open>parseMpNlri\<close> of \<^verbatim>\<open>lib/detail/BgpMessageParserUtils.cpp\<close> against \<^verbatim>\<open>serializeNlri\<close> of
  \<^verbatim>\<open>lib/BgpMessageSerializer.cpp\<close>.

  The lemmas show that parsing undoes serialising for unicast prefixes (with and without path
  ids) and for labeled prefixes, that what is parsed is always a masked prefix of the family
  asked for, and how many prefixes one call of the serialiser packs.
\<close>

subsection \<open>Parsing\<close>

definition parseNlriPrefix :: "cursor \<Rightarrow> nat \<Rightarrow> BgpUpdateAfi \<Rightarrow> bgp_exn + cidr" where
  "parseNlriPrefix cursor prefixLen afi =
     (let bytes = (prefixLen + 7) div 8 in
      case afi of
        AFI_IPv4 \<Rightarrow>
          rbind (throw_if (bytes > 4) (BgpUpdateMsgException BN_UM_INVALID_NETWORK_FIELD []))
            (\<lambda>_. rbind (pull bytes cursor) (\<lambda>(bs, _).
               Inr (ip_mask prefixLen (IPv4 (word_of_bytes (bs @ replicate (4 - bytes) 0))), prefixLen)))
      | AFI_IPv6 \<Rightarrow>
          rbind (throw_if (bytes > 16) (BgpUpdateMsgException BN_UM_INVALID_NETWORK_FIELD []))
            (\<lambda>_. rbind (pull bytes cursor) (\<lambda>(bs, _).
               Inr (ip_mask prefixLen (IPv6 (word_of_bytes (bs @ replicate (16 - bytes) 0))), prefixLen)))
      | _ \<Rightarrow> Inr (IPEmpty, prefixLen))"

text \<open>Whether a path id precedes each prefix: the last matching add-path capability decides.\<close>

definition parsePathIdFlag :: "BgpCapabilities \<Rightarrow> BgpUpdateAfi \<Rightarrow> BgpUpdateSafi \<Rightarrow> bool" where
  "parsePathIdFlag capa afi safi =
     fold (\<lambda>cap parsePathId.
             if ap_afi cap = afi \<and> ap_safi cap = safi
             then sor cap = RECEIVE \<or> sor cap = BOTH else parsePathId)
       (addPathCapabilities capa) False"

definition parseNlri_body ::
  "bool \<Rightarrow> BgpUpdateAfi \<Rightarrow> cursor \<Rightarrow> RiggedIPPrefix list
     \<Rightarrow> bgp_exn + (RiggedIPPrefix list \<times> cursor)" where
  "parseNlri_body parsePathId afi cursor bgpPrefixes =
     rbind (if parsePathId
            then rbind (throw_if (length cursor < 4)
                          (BgpUpdateMsgException BN_UM_INVALID_NETWORK_FIELD []))
                   (\<lambda>_. rbind (readBE32 cursor) (\<lambda>(w, cursor). Inr (Some (sint w), cursor)))
            else Inr (None, cursor))
       (\<lambda>(pid, cursor).
     rbind (throw_if (cursor = []) (BgpUpdateMsgException BN_UM_INVALID_NETWORK_FIELD [])) (\<lambda>_.
     rbind (read_u8 cursor) (\<lambda>(plen, cursor).
     let prefixLen = unat plen; bytes = (prefixLen + 7) div 8 in
     rbind (throw_if (bytes > length cursor)
              (BgpUpdateMsgException BN_UM_INVALID_NETWORK_FIELD [])) (\<lambda>_.
     rbind (parseNlriPrefix (take bytes cursor) prefixLen afi) (\<lambda>pfx.
     Inr (bgpPrefixes @ [\<lparr>prefix = pfx, labels = [], pathId = pid\<rparr>], drop bytes cursor))))))"

definition parseNlri ::
  "cursor \<Rightarrow> BgpUpdateAfi \<Rightarrow> BgpUpdateSafi \<Rightarrow> BgpCapabilities
     \<Rightarrow> bgp_exn + RiggedIPPrefix list" where
  "parseNlri cursor afi safi capa =
     cursor_loop (parseNlri_body (parsePathIdFlag capa afi safi) afi) cursor []"

text \<open>
  The label stack of a labeled prefix. \<open>unreach\<close> says that the attribute is
  \<^verbatim>\<open>MP_UNREACH_NLRI\<close>, where two label values mean an explicit withdrawal. The three bytes of a
  label are read left to right.
\<close>

function parseLabelStack ::
  "bool \<Rightarrow> nat \<Rightarrow> cursor \<Rightarrow> int list \<Rightarrow> bgp_exn + (nat \<times> int list \<times> cursor)" where
  "parseLabelStack unreach len cursor ls =
     (if len > 24
      then case pull 3 cursor of
             Inl e \<Rightarrow> Inl e
           | Inr (bs, cursor) \<Rightarrow>
               let label = uint (bs ! 0) * 2 ^ 16 + uint (bs ! 1) * 2 ^ 8 + uint (bs ! 2) in
               if unreach \<and> (label = 0x800000 \<or> label = 0) then Inr (len - 24, ls, cursor)
               else if label mod 2 = 1 then Inr (len - 24, ls @ [label div 16], cursor)
               else parseLabelStack unreach (len - 24) cursor (ls @ [label div 16])
      else Inr (len, ls, cursor))"
  by pat_completeness auto
termination
  by (relation "measure (\<lambda>(unreach, len, cursor, ls). len)") auto

declare parseLabelStack.simps [simp del]

definition parseLabeled_body ::
  "bool \<Rightarrow> bool \<Rightarrow> BgpUpdateAfi \<Rightarrow> byte list \<Rightarrow> cursor \<Rightarrow> RiggedIPPrefix list
     \<Rightarrow> bgp_exn + (RiggedIPPrefix list \<times> cursor)" where
  "parseLabeled_body unreach parsePathId afi attrBeingParsed cursor bgpPrefixes =
     rbind (read_u8 cursor) (\<lambda>(l8, cursor).
     rbind (parseLabelStack unreach (unat l8) cursor []) (\<lambda>(len, ls, cursor).
     rbind (if parsePathId
            then rbind (readBE32 cursor) (\<lambda>(w, cursor). Inr (Some (sint w), cursor))
            else Inr (None, cursor)) (\<lambda>(pid, cursor).
     let bytes = (len + 7) div 8 in
     rbind (throw_if (bytes > length cursor)
              (BgpUpdateMsgException BN_UM_UNSPECIFIC attrBeingParsed)) (\<lambda>_.
     rbind (parseNlriPrefix (take bytes cursor) len afi) (\<lambda>pfx.
     Inr (bgpPrefixes @ [\<lparr>prefix = pfx, labels = ls, pathId = pid\<rparr>], drop bytes cursor))))))"

definition parseMpNlri ::
  "cursor \<Rightarrow> BgpUpdateAfi \<Rightarrow> BgpUpdateSafi \<Rightarrow> BgpCapabilities \<Rightarrow> byte list \<Rightarrow> bool
     \<Rightarrow> bgp_exn + RiggedIPPrefix list" where
  "parseMpNlri cursor afi safi capa attrBeingParsed unreach =
     (case safi of
        SAFI_UNICAST \<Rightarrow>
          if afi = AFI_IPv6 \<and> mpExtV6Unicast capa \<or> afi = AFI_IPv4 \<and> mpExtV4Unicast capa
          then parseNlri cursor afi safi capa
          else Inr []
      | SAFI_LABELED_UNICAST \<Rightarrow>
          if (afi \<noteq> AFI_IPv6 \<or> \<not> mpExtV6LU capa) \<and> (afi \<noteq> AFI_IPv4 \<or> \<not> mpExtV4LU capa)
          then Inr []
          else cursor_loop
                 (parseLabeled_body unreach (parsePathIdFlag capa afi safi) afi attrBeingParsed)
                 cursor []
      | _ \<Rightarrow> Inl (BgpUpdateMsgException BN_UM_OPTIONAL_ATTR_ERROR attrBeingParsed))"

subsection \<open>Serialising\<close>

definition getMaxPrefixLen :: "bool \<Rightarrow> bool \<Rightarrow> nat" where
  "getMaxPrefixLen hasPathId v4 =
     (if v4 then (if hasPathId then kMaxV4prefixLen + kMaxPathIdLen else kMaxV4prefixLen)
      else if hasPathId then kMaxV6PrefixLen + kMaxPathIdLen else kMaxV6PrefixLen)"

text \<open>One label: the value shifted by four, with the bottom-of-stack bit on the last one.\<close>

fun label_bytes :: "int list \<Rightarrow> byte list" where
  "label_bytes [] = []"
| "label_bytes (l # ls) =
     (let label = l * 16 + (if ls = [] then 1 else 0)
      in wr8 (label div 2 ^ 16) @ wr8 (label div 2 ^ 8) @ wr8 label) @ label_bytes ls"

text \<open>
  The body of the loop of \<^verbatim>\<open>serializeNlri\<close>: the checks on one prefix and the bytes it writes.
  \<^verbatim>\<open>cursor.push\<close> copies \<^verbatim>\<open>prefixLenBytes\<close> bytes from the address, however long that is.
\<close>

definition serializeOnePrefix ::
  "BgpUpdateAfi \<Rightarrow> BgpUpdateSafi \<Rightarrow> RiggedIPPrefix \<Rightarrow> bgp_exn + byte list" where
  "serializeOnePrefix afi safi p =
     (let addr = fst (prefix p); plen = snd (prefix p) mod 256;
          prefixLenBytes = (plen + 7) div 8;
          prefixLenBits =
            (if safi = SAFI_LABELED_UNICAST then plen + length (labels p) * 24 else plen) in
      rbind (throw_if (addr = IPEmpty) IPAddressFormatException) (\<lambda>_.
      rbind (throw_if (isV4 addr \<and> afi \<noteq> AFI_IPv4 \<or> isV6 addr \<and> afi \<noteq> AFI_IPv6)
               (BgpSerializerException AFI_MISMATCH)) (\<lambda>_.
      rbind (throw_if (safi = SAFI_LABELED_UNICAST \<and> labels p = [] \<or>
                       safi = SAFI_UNICAST \<and> labels p \<noteq> [])
               (BgpSerializerException INVALID_NLRI_LABEL_INFO)) (\<lambda>_.
      rbind (throw_if (prefixLenBytes > length (ip_bytes addr)) UndefinedBehaviour) (\<lambda>_.
      Inr ((case pathId p of None \<Rightarrow> [] | Some i \<Rightarrow> wr32 i) @
           wr8 (int prefixLenBits) @
           (if safi = SAFI_LABELED_UNICAST then label_bytes (labels p) else []) @
           take prefixLenBytes (ip_bytes addr)))))))"

text \<open>
  \<open>room\<close> is what is left of the message buffer behind the start cursor; \<open>out\<close> is what has been
  written since, and \<open>cnt\<close> is the caller's \<^verbatim>\<open>curPrefixCnt\<close>, passed by reference in the code.
\<close>

fun serializeNlri_loop ::
  "nat \<Rightarrow> BgpUpdateAfi \<Rightarrow> BgpUpdateSafi \<Rightarrow> nat \<Rightarrow> nat \<Rightarrow> byte list \<Rightarrow> nat \<Rightarrow> RiggedIPPrefix list
     \<Rightarrow> bgp_exn + (byte list \<times> nat)" where
  "serializeNlri_loop room afi safi bufSize maxPerPrefixSpace out cnt [] = Inr (out, cnt)"
| "serializeNlri_loop room afi safi bufSize maxPerPrefixSpace out cnt (p # ps) =
     (if length out + maxPerPrefixSpace < bufSize
      then rbind (serializeOnePrefix afi safi p) (\<lambda>bs.
           rbind (push room out bs) (\<lambda>out.
           serializeNlri_loop room afi safi bufSize maxPerPrefixSpace out (Suc cnt) ps))
      else Inr (out, cnt))"

definition serializeNlri ::
  "nat \<Rightarrow> BgpUpdateAfi \<Rightarrow> BgpUpdateSafi \<Rightarrow> RiggedIPPrefix list \<Rightarrow> nat \<Rightarrow> nat \<Rightarrow> nat
     \<Rightarrow> bgp_exn + (byte list \<times> nat)" where
  "serializeNlri room afi safi riggedIPPrefixes bufSize maxPrefixLen curPrefixCnt =
     serializeNlri_loop room afi safi bufSize (maxPrefixLen + 1) [] curPrefixCnt
       (drop curPrefixCnt riggedIPPrefixes)"

subsection \<open>Well-formed prefixes\<close>

definition afi_matches :: "BgpUpdateAfi \<Rightarrow> ipaddr \<Rightarrow> bool" where
  "afi_matches afi a \<longleftrightarrow> afi = AFI_IPv4 \<and> isV4 a \<or> afi = AFI_IPv6 \<and> isV6 a"

text \<open>A prefix of the family \<open>afi\<close>: not longer than the address and without host bits.\<close>

definition cidr_ok :: "BgpUpdateAfi \<Rightarrow> cidr \<Rightarrow> bool" where
  "cidr_ok afi pfx \<longleftrightarrow>
     afi_matches afi (fst pfx) \<and> snd pfx \<le> ip_bits (fst pfx) \<and>
     ip_mask (snd pfx) (fst pfx) = fst pfx"

definition path_id_ok :: "bool \<Rightarrow> int option \<Rightarrow> bool" where
  "path_id_ok parsePathId pid \<longleftrightarrow>
     (case pid of None \<Rightarrow> \<not> parsePathId
      | Some i \<Rightarrow> parsePathId \<and> - (2 ^ 31) \<le> i \<and> i < 2 ^ 31)"

definition unicast_ok :: "bool \<Rightarrow> BgpUpdateAfi \<Rightarrow> RiggedIPPrefix \<Rightarrow> bool" where
  "unicast_ok parsePathId afi p \<longleftrightarrow>
     cidr_ok afi (prefix p) \<and> labels p = [] \<and> path_id_ok parsePathId (pathId p)"

text \<open>
  A labeled prefix the parser can recover: at least one prefix bit, at least one label, labels
  of 20 bits, and a total length that fits in the length byte. Inside an \<^verbatim>\<open>MP_UNREACH_NLRI\<close>
  attribute a zero label above the bottom of the stack means a withdrawal.
\<close>

definition labeled_ok :: "bool \<Rightarrow> BgpUpdateAfi \<Rightarrow> RiggedIPPrefix \<Rightarrow> bool" where
  "labeled_ok unreach afi p \<longleftrightarrow>
     cidr_ok afi (prefix p) \<and> 0 < snd (prefix p) \<and> labels p \<noteq> [] \<and>
     snd (prefix p) + 24 * length (labels p) < 256 \<and> pathId p = None \<and>
     (\<forall>l\<in>set (labels p). 0 \<le> l \<and> l < 2 ^ 20) \<and>
     (unreach \<longrightarrow> (\<forall>l\<in>set (butlast (labels p)). l \<noteq> 0 \<and> l \<noteq> 2 ^ 19))"

subsection \<open>Unicast prefixes survive the round trip\<close>

definition unicast_bytes :: "RiggedIPPrefix \<Rightarrow> byte list" where
  "unicast_bytes p =
     (case pathId p of None \<Rightarrow> [] | Some i \<Rightarrow> wr32 i) @ wr8 (int (snd (prefix p))) @
     take ((snd (prefix p) + 7) div 8) (ip_bytes (fst (prefix p)))"

lemma length_ip_bytes: "8 * length (ip_bytes a) = ip_bits a"
  by (cases a) auto

lemma ip_bits_le: "ip_bits a \<le> 128"
  by (cases a) auto

lemma cidr_bytes_le: "n \<le> ip_bits a \<Longrightarrow> (n + 7) div 8 \<le> length (ip_bytes a)"
  using length_ip_bytes [of a] by arith

lemma cidr_okD:
  assumes "cidr_ok afi pfx"
  shows "afi_matches afi (fst pfx)" "snd pfx \<le> ip_bits (fst pfx)" "snd pfx \<le> 128"
    "snd pfx mod 256 = snd pfx" "(snd pfx + 7) div 8 \<le> length (ip_bytes (fst pfx))"
proof -
  show a: "afi_matches afi (fst pfx)" "snd pfx \<le> ip_bits (fst pfx)"
    using assms by (auto simp: cidr_ok_def)
  then show b: "snd pfx \<le> 128" using ip_bits_le [of "fst pfx"] by arith
  then show "snd pfx mod 256 = snd pfx" by simp
  show "(snd pfx + 7) div 8 \<le> length (ip_bytes (fst pfx))" using a(2) by (rule cidr_bytes_le)
qed

lemma parseNlriPrefix_bytes:
  assumes "cidr_ok afi pfx"
  shows "parseNlriPrefix (take ((snd pfx + 7) div 8) (ip_bytes (fst pfx))) (snd pfx) afi = Inr pfx"
proof -
  obtain a n where pfx: "pfx = (a, n)" by (cases pfx)
  let ?k = "(n + 7) div 8"
  from assms have m: "afi_matches afi a" "n \<le> ip_bits a" "ip_mask n a = a"
    by (auto simp: cidr_ok_def pfx)
  show ?thesis
  proof (cases a)
    case IPEmpty
    with m show ?thesis by (simp add: afi_matches_def)
  next
    case (IPv4 w)
    with m have k: "?k \<le> 4" "n \<le> 8 * ?k" by auto
    have "word_masked n (word_of_bytes (take ?k (bytes_of_word 4 w) @ replicate (4 - ?k) 0)) =
        word_masked n w"
      by (rule word_masked_take_bytes) (use k in auto)
    with m k IPv4 show ?thesis
      by (auto simp: pfx parseNlriPrefix_def afi_matches_def pull_def Let_def)
  next
    case (IPv6 w)
    with m have k: "?k \<le> 16" "n \<le> 8 * ?k" by auto
    have "word_masked n (word_of_bytes (take ?k (bytes_of_word 16 w) @ replicate (16 - ?k) 0)) =
        word_masked n w"
      by (rule word_masked_take_bytes) (use k in auto)
    with m k IPv6 show ?thesis
      by (auto simp: pfx parseNlriPrefix_def afi_matches_def pull_def Let_def)
  qed
qed

lemma sint_cast32:
  "- (2 ^ 31) \<le> i \<Longrightarrow> i < 2 ^ 31 \<Longrightarrow> sint (word_of_int i :: u32) = i"
  by (simp add: signed_take_bit_int_eq_self sint_sbintrunc')

lemma serializeOnePrefix_unicast:
  assumes "unicast_ok parsePathId afi p"
  shows "serializeOnePrefix afi SAFI_UNICAST p = Inr (unicast_bytes p)"
proof -
  from assms have c: "cidr_ok afi (prefix p)" and l: "labels p = []"
    by (auto simp: unicast_ok_def)
  from cidr_okD [OF c] show ?thesis
    by (cases "fst (prefix p)")
       (auto simp: serializeOnePrefix_def unicast_bytes_def l afi_matches_def Let_def)
qed

lemma parseNlri_body_unicast:
  assumes "unicast_ok parsePathId afi p"
  shows "parseNlri_body parsePathId afi (unicast_bytes p @ rest) ps = Inr (ps @ [p], rest)"
proof -
  from assms have c: "cidr_ok afi (prefix p)" and l: "labels p = []"
    and i: "path_id_ok parsePathId (pathId p)"
    by (auto simp: unicast_ok_def)
  let ?k = "(snd (prefix p) + 7) div 8"
  have len: "length (take ?k (ip_bytes (fst (prefix p)))) = ?k"
    using cidr_okD(5) [OF c] by simp
  have n: "unat (word_of_nat (snd (prefix p)) :: byte) = snd (prefix p)"
    using cidr_okD(3) [OF c] by (intro unat_cast8) simp
  have p: "\<lparr>prefix = prefix p, labels = [], pathId = pathId p\<rparr> = p"
    using l by (cases p) simp
  show ?thesis
    using i cidr_okD(5) [OF c] parseNlriPrefix_bytes [OF c] p
    by (cases "pathId p")
       (simp_all add: parseNlri_body_def unicast_bytes_def path_id_ok_def codec_simps n sint_cast32
          Let_def)
qed

interpretation unicast: cursor_codec
  "parseNlri_body parsePathId afi" unicast_bytes "\<lambda>p ps. ps @ [p]" "unicast_ok parsePathId afi"
  for parsePathId afi
  by unfold_locales (auto simp: parseNlri_body_unicast, simp add: unicast_bytes_def)

lemma fold_snoc: "fold (\<lambda>x xs. xs @ [x]) ys xs = xs @ ys"
  by (induction ys arbitrary: xs) auto

lemma parseNlri_unicast_bytes:
  assumes "list_all (unicast_ok (parsePathIdFlag capa afi safi) afi) ps"
  shows "parseNlri (concat (map unicast_bytes ps)) afi safi capa = Inr ps"
  using unicast.loop_enc [OF assms, of "[]"] by (simp add: parseNlri_def fold_snoc)

subsection \<open>How many prefixes one call packs\<close>

text \<open>
  The loop stops at the end of the prefixes or as soon as a further maximal prefix might not fit;
  what it wrote is the concatenation of the encodings of the prefixes it counted.
\<close>

lemma serializeNlri_loop_Inr:
  assumes "serializeNlri_loop room afi safi bufSize m out cnt ps = Inr (out', cnt')"
  shows "\<exists>n bss. cnt' = cnt + n \<and> n \<le> length ps \<and> length bss = n \<and>
           (\<forall>i<n. serializeOnePrefix afi safi (ps ! i) = Inr (bss ! i)) \<and>
           out' = out @ concat bss \<and> (n < length ps \<longrightarrow> \<not> length out' + m < bufSize)"
  using assms
proof (induction ps arbitrary: out cnt)
  case Nil
  then show ?case by simp
next
  case (Cons p ps)
  show ?case
  proof (cases "length out + m < bufSize")
    case False
    with Cons.prems show ?thesis by (intro exI [of _ 0] exI [of _ "[]"]) auto
  next
    case True
    with Cons.prems obtain bs where bs: "serializeOnePrefix afi safi p = Inr bs"
      and r: "serializeNlri_loop room afi safi bufSize m (out @ bs) (Suc cnt) ps = Inr (out', cnt')"
      by (auto simp: rbind_eq_Inr push_def split: if_splits)
    from Cons.IH [OF r] obtain n bss where ih: "cnt' = Suc cnt + n" "n \<le> length ps"
      "length bss = n" "\<forall>i<n. serializeOnePrefix afi safi (ps ! i) = Inr (bss ! i)"
      "out' = (out @ bs) @ concat bss" "n < length ps \<longrightarrow> \<not> length out' + m < bufSize"
      by auto
    have "\<forall>i<Suc n. serializeOnePrefix afi safi ((p # ps) ! i) = Inr ((bs # bss) ! i)"
      using ih(4) bs by (simp add: All_less_Suc2)
    with ih show ?thesis by (intro exI [of _ "Suc n"] exI [of _ "bs # bss"]) auto
  qed
qed

lemma serializeOnePrefix_length:
  assumes "serializeOnePrefix afi SAFI_UNICAST p = Inr bs"
  shows "length bs \<le> getMaxPrefixLen (pathId p \<noteq> None) (isV4 (fst (prefix p)))"
  using assms
  by (cases "fst (prefix p)")
     (auto simp: serializeOnePrefix_def getMaxPrefixLen_def bgp_consts rbind_eq_Inr Let_def
        split: option.splits if_splits)

lemma serializeOnePrefix_family:
  assumes "serializeOnePrefix afi safi p = Inr bs"
  shows "afi_matches afi (fst (prefix p))"
  using assms
  by (cases "fst (prefix p)")
     (auto simp: serializeOnePrefix_def rbind_eq_Inr afi_matches_def Let_def split: if_splits)

text \<open>The space the caller reserves per prefix, for a list led by \<open>p\<close>.\<close>

definition uniform_path_ids :: "RiggedIPPrefix list \<Rightarrow> bool" where
  "uniform_path_ids ps \<longleftrightarrow> (\<forall>p\<in>set ps. \<forall>q\<in>set ps. (pathId p = None) = (pathId q = None))"

lemma getMaxPrefixLen_mono: "getMaxPrefixLen h True \<le> getMaxPrefixLen h v4"
  by (auto simp: getMaxPrefixLen_def bgp_consts)

text \<open>
  When every prefix is serialisable on its own and needs at most \<open>m\<close> bytes, the loop raises
  nothing and what it writes stays inside the space it was given.
\<close>

lemma serializeNlri_loop_fits:
  assumes ser: "\<forall>p\<in>set ps. \<exists>bs. serializeOnePrefix afi safi p = Inr bs \<and> length bs \<le> m"
    and room: "bufSize \<le> room" and out: "length out \<le> bufSize"
  shows "\<exists>out' cnt'. serializeNlri_loop room afi safi bufSize (m + 1) out cnt ps = Inr (out', cnt')
           \<and> length out' \<le> bufSize"
  using ser out
proof (induction ps arbitrary: out cnt)
  case (Cons p ps)
  show ?case
  proof (cases "length out + (m + 1) < bufSize")
    case True
    from Cons.prems obtain bs where bs: "serializeOnePrefix afi safi p = Inr bs" "length bs \<le> m"
      by auto
    from True bs(2) have "length (out @ bs) \<le> bufSize" by simp
    from Cons.IH [OF _ this, of "Suc cnt"] Cons.prems True bs room show ?thesis
      by (auto simp: push_def)
  qed (use Cons.prems in auto)
qed simp

lemma serializeNlri_loop_progress:
  assumes "serializeNlri_loop room afi safi bufSize m out cnt (p # ps) = Inr (out', cnt')"
  shows "cnt < cnt' \<longleftrightarrow> length out + m < bufSize"
proof (cases "length out + m < bufSize")
  case True
  with assms obtain bs where
    "serializeNlri_loop room afi safi bufSize m (out @ bs) (Suc cnt) ps = Inr (out', cnt')"
    by (auto simp: rbind_eq_Inr push_def split: if_splits)
  from serializeNlri_loop_Inr [OF this] True show ?thesis by auto
next
  case False
  with assms show ?thesis by simp
qed

lemma concat_unicast_bytes:
  assumes ok: "list_all (unicast_ok parsePathId afi) ps" and n: "n \<le> length ps" "length bss = n"
    and b: "\<forall>i<n. serializeOnePrefix afi SAFI_UNICAST (ps ! i) = Inr (bss ! i)"
  shows "concat bss = concat (map unicast_bytes (take n ps))"
proof -
  have "bss = map unicast_bytes (take n ps)"
  proof (rule nth_equalityI)
    fix i assume "i < length bss"
    with n have i: "i < n" "i < length ps" by auto
    with ok have "unicast_ok parsePathId afi (ps ! i)" by (simp add: list_all_length)
    from serializeOnePrefix_unicast [OF this] b i n
    show "bss ! i = map unicast_bytes (take n ps) ! i" by auto
  qed (use n in auto)
  then show ?thesis by simp
qed

subsection \<open>What the parsers return and raise\<close>

lemma parseNlriPrefix_ok:
  assumes "parseNlriPrefix cursor n afi = Inr pfx" "afi = AFI_IPv4 \<or> afi = AFI_IPv6"
  shows "cidr_ok afi pfx"
  using assms
  by (auto simp: parseNlriPrefix_def rbind_eq_Inr cidr_ok_def afi_matches_def Let_def)

lemma parseNlriPrefix_raises:
  assumes "parseNlriPrefix cursor n afi = Inl e" "(n + 7) div 8 \<le> length cursor"
  shows "e = BgpUpdateMsgException BN_UM_INVALID_NETWORK_FIELD []"
  using assms
  by (auto simp: parseNlriPrefix_def rbind_eq_Inl exn_simps Let_def
      split: BgpUpdateAfi.splits)

interpretation unicast_body: cursor_body
  "parseNlri_body parsePathId afi" "\<lambda>e. e = BgpUpdateMsgException BN_UM_INVALID_NETWORK_FIELD []"
  for parsePathId afi
proof
  fix cur cur' :: cursor and s s' :: "RiggedIPPrefix list"
  assume "parseNlri_body parsePathId afi cur s = Inr (s', cur')" "cur \<noteq> []"
  then show "length cur' < length cur"
    by (auto simp: parseNlri_body_def rbind_eq_Inr Let_def dest!: read_lengthD split: if_splits)
next
  fix cur :: cursor and s :: "RiggedIPPrefix list" and e
  assume "parseNlri_body parsePathId afi cur s = Inl e" "cur \<noteq> []"
  then show "e = BgpUpdateMsgException BN_UM_INVALID_NETWORK_FIELD []"
    by (auto simp: parseNlri_body_def rbind_eq_Inl exn_simps Let_def
        dest!: parseNlriPrefix_raises split: if_splits)
qed

lemma parseNlri_raises:
  "parseNlri cursor afi safi capa = Inl e \<Longrightarrow>
     e = BgpUpdateMsgException BN_UM_INVALID_NETWORK_FIELD []"
  unfolding parseNlri_def by (rule unicast_body.loop_raises)

interpretation unicast_inv: cursor_invariant
  "parseNlri_body parsePathId afi"
  "\<lambda>ps. afi = AFI_IPv4 \<or> afi = AFI_IPv6 \<longrightarrow> list_all (unicast_ok parsePathId afi) ps"
  for parsePathId afi
proof
  fix cur cur' :: cursor and s s' :: "RiggedIPPrefix list"
  assume b: "parseNlri_body parsePathId afi cur s = Inr (s', cur')"
    and i: "afi = AFI_IPv4 \<or> afi = AFI_IPv6 \<longrightarrow> list_all (unicast_ok parsePathId afi) s"
  show "afi = AFI_IPv4 \<or> afi = AFI_IPv6 \<longrightarrow> list_all (unicast_ok parsePathId afi) s'"
  proof
    assume a: "afi = AFI_IPv4 \<or> afi = AFI_IPv6"
    have "path_id_ok parsePathId (if parsePathId then Some (sint (w :: u32)) else None)" for w
      using sint_ge [of w] sint_lt [of w] by (simp add: path_id_ok_def)
    with b i a show "list_all (unicast_ok parsePathId afi) s'"
      by (auto simp: parseNlri_body_def rbind_eq_Inr unicast_ok_def Let_def
          dest!: parseNlriPrefix_ok split: if_splits)
  qed
qed

lemma parseNlri_ok:
  assumes "parseNlri cursor afi safi capa = Inr ps" "afi = AFI_IPv4 \<or> afi = AFI_IPv6"
  shows "list_all (unicast_ok (parsePathIdFlag capa afi safi) afi) ps"
  using unicast_inv.loop_keeps [of "parsePathIdFlag capa afi safi" afi cursor "[]" ps] assms
  by (simp add: parseNlri_def)

subsection \<open>Labeled prefixes survive the round trip\<close>

definition labeled_bytes :: "RiggedIPPrefix \<Rightarrow> byte list" where
  "labeled_bytes p =
     wr8 (int (snd (prefix p) + length (labels p) * 24)) @ label_bytes (labels p) @
     take ((snd (prefix p) + 7) div 8) (ip_bytes (fst (prefix p)))"

lemma length_label_bytes [simp]: "length (label_bytes ls) = 3 * length ls"
  by (induction ls) (auto simp: Let_def)

text \<open>Three bytes put back together.\<close>

lemma uint_byte_of_int: "uint (word_of_int x :: byte) = x mod 256"
  by (simp add: uint_word_of_int)

lemma three_bytes:
  fixes x :: int
  assumes "0 \<le> x" "x < 2 ^ 24"
  shows "uint (word_of_int (x div 2 ^ 16) :: byte) * 2 ^ 16 +
         uint (word_of_int (x div 2 ^ 8) :: byte) * 2 ^ 8 + uint (word_of_int x :: byte) = x"
proof -
  define y z where "y = x div 256" and "z = y div 256"
  have p: "(2::int) ^ 16 = 65536" "(2::int) ^ 8 = 256" by simp_all
  have z: "x div 65536 = z" by (simp add: y_def z_def zdiv_zmult2_eq [symmetric])
  have "z mod 256 = z" using assms by (simp add: z [symmetric])
  moreover have "y = z * 256 + y mod 256" by (simp add: z_def)
  moreover have "x = y * 256 + x mod 256" by (simp add: y_def)
  ultimately show ?thesis
    unfolding uint_byte_of_int p z y_def [symmetric] by linarith
qed

lemma parseLabelStack_step:
  assumes "24 < len" and x: "uint a * 2 ^ 16 + uint b * 2 ^ 8 + uint c = x"
  shows "parseLabelStack unreach len ([a, b, c] @ cursor) ls =
     (if unreach \<and> (x = 0x800000 \<or> x = 0) then Inr (len - 24, ls, cursor)
      else if x mod 2 = 1 then Inr (len - 24, ls @ [x div 16], cursor)
      else parseLabelStack unreach (len - 24) cursor (ls @ [x div 16]))"
proof -
  have "pull 3 ([a, b, c] @ cursor) = Inr ([a, b, c], cursor)" by (rule pull_append) simp
  moreover have "uint ([a, b, c] ! 0) * 2 ^ 16 + uint ([a, b, c] ! 1) * 2 ^ 8 +
      uint ([a, b, c] ! 2) = x"
    using x by simp
  ultimately show ?thesis
    using assms(1) by (subst parseLabelStack.simps) (simp only: Let_def if_True sum.case prod.case)
qed

lemma parseLabelStack_label_bytes:
  assumes "ls \<noteq> []" "0 < n" "\<forall>l\<in>set ls. 0 \<le> l \<and> l < 2 ^ 20"
    and "unreach \<longrightarrow> (\<forall>l\<in>set (butlast ls). l \<noteq> 0 \<and> l \<noteq> 2 ^ 19)"
  shows "parseLabelStack unreach (n + length ls * 24) (label_bytes ls @ rest) acc =
           Inr (n, acc @ ls, rest)"
  using assms
proof (induction ls arbitrary: acc)
  case (Cons l ls)
  define x where "x = l * 16 + (if ls = [] then 1 else 0)"
  have l: "0 \<le> l" "l < 2 ^ 20" using Cons.prems(3) by auto
  then have x: "0 \<le> x" "x < 2 ^ 24" "x div 16 = l" by (auto simp: x_def)
  have "(l * 16 + 1) mod 2 = 1" by presburger
  then have par: "x mod 2 = (if ls = [] then 1 else 0)" by (simp add: x_def)
  have "\<not> (unreach \<and> (x = 0x800000 \<or> x = 0))"
  proof (cases "ls = []")
    case True
    then have "x mod 2 = 1" by (simp add: par)
    then show ?thesis by auto
  next
    case False
    then show ?thesis using Cons.prems(4) by (auto simp: x_def)
  qed
  then have step: "parseLabelStack unreach (n + length (l # ls) * 24)
      (label_bytes (l # ls) @ rest) acc =
      (if ls = [] then Inr (n, acc @ [l], rest)
       else parseLabelStack unreach (n + length ls * 24) (label_bytes ls @ rest) (acc @ [l]))"
    using parseLabelStack_step [OF _ three_bytes [OF x(1,2)], where unreach = unreach
        and len = "n + length (l # ls) * 24" and cursor = "label_bytes ls @ rest" and ls = acc]
      Cons.prems(2) x(3) par
    by (auto simp add: x_def [symmetric] wr8_def Let_def)
  show ?case
  proof (cases "ls = []")
    case True
    with step show ?thesis by simp
  next
    case False
    have "parseLabelStack unreach (n + length ls * 24) (label_bytes ls @ rest) (acc @ [l]) =
        Inr (n, (acc @ [l]) @ ls, rest)"
      using Cons.prems False by (intro Cons.IH) auto
    with False step show ?thesis by simp
  qed
qed simp

lemma serializeOnePrefix_labeled:
  assumes "labeled_ok unreach afi p"
  shows "serializeOnePrefix afi SAFI_LABELED_UNICAST p = Inr (labeled_bytes p)"
proof -
  from assms have c: "cidr_ok afi (prefix p)" and l: "labels p \<noteq> []" "pathId p = None"
    by (auto simp: labeled_ok_def)
  from cidr_okD [OF c] show ?thesis
    by (cases "fst (prefix p)")
       (auto simp: serializeOnePrefix_def labeled_bytes_def l afi_matches_def Let_def)
qed

lemma parseLabeled_body_labeled:
  assumes ok: "labeled_ok unreach afi p"
  shows "parseLabeled_body unreach False afi a (labeled_bytes p @ rest) ps = Inr (ps @ [p], rest)"
proof -
  from ok have c: "cidr_ok afi (prefix p)" and l: "pathId p = None"
    and b: "snd (prefix p) + length (labels p) * 24 < 256"
    by (auto simp: labeled_ok_def)
  have n: "unat (word_of_nat (snd (prefix p) + length (labels p) * 24) :: byte) =
      snd (prefix p) + length (labels p) * 24"
    using b by (rule unat_cast8)
  have st: "parseLabelStack unreach (snd (prefix p) + length (labels p) * 24)
      (label_bytes (labels p) @ r) [] = Inr (snd (prefix p), labels p, r)" for r
    using parseLabelStack_label_bytes [of "labels p" "snd (prefix p)" unreach r "[]"] ok
    by (simp add: labeled_ok_def)
  have p: "\<lparr>prefix = prefix p, labels = labels p, pathId = None\<rparr> = p"
    using l by (cases p) simp
  show ?thesis
    using cidr_okD(5) [OF c] parseNlriPrefix_bytes [OF c] p
    by (simp add: parseLabeled_body_def labeled_bytes_def codec_simps n [simplified] st Let_def)
qed

interpretation labeled: cursor_codec
  "parseLabeled_body unreach False afi a" labeled_bytes "\<lambda>p ps. ps @ [p]" "labeled_ok unreach afi"
  for unreach afi a
  by unfold_locales (auto simp: parseLabeled_body_labeled, simp add: labeled_bytes_def)

text \<open>The exceptions an NLRI parser lets through to the attribute loop.\<close>

definition nlri_exn :: "bgp_exn \<Rightarrow> bool" where
  "nlri_exn e \<longleftrightarrow> e = OutOfRange \<or> (\<exists>c d. e = BgpUpdateMsgException c d)"

lemma parseLabelStack_raises:
  "parseLabelStack unreach len cursor ls = Inl e \<Longrightarrow> e = OutOfRange"
proof (induction len arbitrary: cursor ls rule: less_induct)
  case (less len)
  from less.prems show ?case
    by (subst (asm) parseLabelStack.simps)
       (auto simp: Let_def pull_def dest: less.IH [rotated] split: if_splits)
qed

lemma parseLabelStack_length:
  "parseLabelStack unreach len cursor ls = Inr (len', ls', cursor') \<Longrightarrow>
     length cursor' \<le> length cursor"
proof (induction len arbitrary: cursor ls rule: less_induct)
  case (less len)
  from less.prems show ?case
    by (subst (asm) parseLabelStack.simps)
       (auto simp: Let_def pull_def dest!: less.IH [rotated] split: if_splits)
qed

interpretation labeled_body: cursor_body "parseLabeled_body unreach pid afi a" nlri_exn
  for unreach pid afi a
proof
  fix cur cur' :: cursor and s s' :: "RiggedIPPrefix list"
  assume "parseLabeled_body unreach pid afi a cur s = Inr (s', cur')" "cur \<noteq> []"
  then show "length cur' < length cur"
    by (auto simp: parseLabeled_body_def rbind_eq_Inr Let_def
        dest!: read_lengthD parseLabelStack_length split: if_splits)
next
  fix cur :: cursor and s :: "RiggedIPPrefix list" and e
  assume "parseLabeled_body unreach pid afi a cur s = Inl e" "cur \<noteq> []"
  then show "nlri_exn e"
    by (auto simp: parseLabeled_body_def rbind_eq_Inl exn_simps nlri_exn_def Let_def
        dest!: parseNlriPrefix_raises parseLabelStack_raises split: if_splits)
qed

lemma parseMpNlri_raises:
  "parseMpNlri cursor afi safi capa a unreach = Inl e \<Longrightarrow> nlri_exn e"
  by (auto simp: parseMpNlri_def nlri_exn_def dest: parseNlri_raises labeled_body.loop_raises
      split: BgpUpdateSafi.splits if_splits)

subsection \<open>Properties\<close>

lemma unicast_ok_length:
  assumes "unicast_ok pid afi p"
  shows "length (unicast_bytes p) \<le> getMaxPrefixLen pid (afi = AFI_IPv4)"
proof -
  from assms have "afi_matches afi (fst (prefix p))" "path_id_ok pid (pathId p)"
    by (auto simp: unicast_ok_def cidr_ok_def)
  then show ?thesis
    using serializeOnePrefix_length [OF serializeOnePrefix_unicast [OF assms]]
    by (cases "fst (prefix p)") (auto simp: afi_matches_def path_id_ok_def split: option.splits)
qed

text \<open>What one call packs: as many prefixes as surely fit, and their encodings.\<close>

lemma serializeNlri_unicast:
  assumes ok: "list_all (unicast_ok pid afi) ps" and room: "bufSize \<le> room" and cnt: "cnt \<le> length ps"
    and m: "getMaxPrefixLen pid (afi = AFI_IPv4) \<le> m"
  shows "\<exists>n. let qs = take n (drop cnt ps); out = concat (map unicast_bytes qs) in
           serializeNlri room afi SAFI_UNICAST ps bufSize m cnt = Inr (out, cnt + n) \<and>
           length out \<le> bufSize \<and> cnt + n \<le> length ps \<and>
           (cnt + n < length ps \<longrightarrow> bufSize \<le> length out + m + 1) \<and>
           (0 < n \<longleftrightarrow> cnt < length ps \<and> m + 1 < bufSize)"
proof -
  let ?qs = "drop cnt ps"
  have ok': "list_all (unicast_ok pid afi) ?qs"
    using ok by (auto simp: list_all_iff dest: in_set_dropD)
  have "\<forall>p\<in>set ?qs. \<exists>bs. serializeOnePrefix afi SAFI_UNICAST p = Inr bs \<and> length bs \<le> m"
    using ok' serializeOnePrefix_unicast unicast_ok_length m unfolding list_all_iff
    by (meson le_trans)
  then obtain out cnt' where
    r: "serializeNlri_loop room afi SAFI_UNICAST bufSize (m + 1) [] cnt ?qs = Inr (out, cnt')"
    and fits: "length out \<le> bufSize"
    using serializeNlri_loop_fits [of ?qs afi SAFI_UNICAST m bufSize room "[]" cnt] room by auto
  from serializeNlri_loop_Inr [OF r] obtain n bss where n: "cnt' = cnt + n" "n \<le> length ?qs"
    "length bss = n" "\<forall>i<n. serializeOnePrefix afi SAFI_UNICAST (?qs ! i) = Inr (bss ! i)"
    "out = concat bss" "n < length ?qs \<longrightarrow> \<not> length out + (m + 1) < bufSize"
    by auto
  have out: "out = concat (map unicast_bytes (take n ?qs))"
    using concat_unicast_bytes [OF ok' n(2,3,4)] n(5) by simp
  have "0 < n \<longleftrightarrow> cnt < length ps \<and> m + 1 < bufSize"
  proof (cases ?qs)
    case Nil
    with n(2) show ?thesis by auto
  next
    case (Cons q qs)
    from serializeNlri_loop_progress [OF r [unfolded Cons]] n(1) Cons show ?thesis
      by (cases "cnt < length ps") auto
  qed
  then show ?thesis
    using r fits n cnt out by (intro exI [of _ n]) (auto simp: serializeNlri_def Let_def)
qed

text \<open>
  C4. Packing. Given well-formed prefixes of one family, a buffer of at least \<open>bufSize\<close> bytes and
  the space per prefix that \<open>getMaxPrefixLen\<close> computes, \<open>serializeNlri\<close> raises nothing and stays
  within \<open>bufSize\<close>. Parsing what it wrote gives exactly the prefixes it counted, in order. It stops
  early only when another maximal prefix might not fit, and it makes progress if and only if
  there is a prefix left and one maximal prefix plus one byte is below \<open>bufSize\<close>.
\<close>

theorem serializeNlri_roundtrip:
  assumes ok: "list_all (unicast_ok (parsePathIdFlag capa afi SAFI_UNICAST) afi) ps"
    and room: "bufSize \<le> room" and cnt: "cnt \<le> length ps"
    and m: "m = getMaxPrefixLen (parsePathIdFlag capa afi SAFI_UNICAST) (afi = AFI_IPv4)"
  shows "\<exists>out n. serializeNlri room afi SAFI_UNICAST ps bufSize m cnt = Inr (out, cnt + n) \<and>
           length out \<le> bufSize \<and> cnt + n \<le> length ps \<and>
           parseNlri out afi SAFI_UNICAST capa = Inr (take n (drop cnt ps)) \<and>
           (cnt + n < length ps \<longrightarrow> bufSize \<le> length out + m + 1) \<and>
           (0 < n \<longleftrightarrow> cnt < length ps \<and> m + 1 < bufSize)"
proof -
  obtain n where n: "let qs = take n (drop cnt ps); out = concat (map unicast_bytes qs) in
      serializeNlri room afi SAFI_UNICAST ps bufSize m cnt = Inr (out, cnt + n) \<and>
      length out \<le> bufSize \<and> cnt + n \<le> length ps \<and>
      (cnt + n < length ps \<longrightarrow> bufSize \<le> length out + m + 1) \<and>
      (0 < n \<longleftrightarrow> cnt < length ps \<and> m + 1 < bufSize)"
    using serializeNlri_unicast [OF ok room cnt] m by blast
  have "list_all (unicast_ok (parsePathIdFlag capa afi SAFI_UNICAST) afi) (take n (drop cnt ps))"
    using ok by (auto simp: list_all_iff dest: in_set_takeD in_set_dropD)
  from parseNlri_unicast_bytes [OF this] n show ?thesis
    unfolding Let_def by blast
qed

theorem serializeNlri_roundtrip_witness:
  "\<exists>out n. serializeNlri 40 AFI_IPv4 SAFI_UNICAST
      [\<lparr>prefix = (IPv4 0x0A010000, 16), labels = [], pathId = None\<rparr>,
       \<lparr>prefix = (IPv4 0x0A010203, 32), labels = [], pathId = None\<rparr>] 40 5 0 = Inr (out, 0 + n) \<and>
     parseNlri out AFI_IPv4 SAFI_UNICAST default_capabilities = Inr (take n
      (drop 0 [\<lparr>prefix = (IPv4 0x0A010000, 16), labels = [], pathId = None\<rparr>,
               \<lparr>prefix = (IPv4 0x0A010203, 32), labels = [], pathId = None\<rparr>])) \<and>
     (0 < n \<longleftrightarrow> 0 < length [\<lparr>prefix = (IPv4 0x0A010000, 16), labels = [], pathId = None\<rparr>,
       \<lparr>prefix = (IPv4 0x0A010203, 32), labels = [], pathId = None\<rparr>] \<and> (5::nat) + 1 < 40)"
proof -
  let ?ps = "[\<lparr>prefix = (IPv4 0x0A010000, 16), labels = [], pathId = None\<rparr>,
       \<lparr>prefix = (IPv4 0x0A010203, 32), labels = [], pathId = None\<rparr>]"
  have flag: "parsePathIdFlag default_capabilities AFI_IPv4 SAFI_UNICAST = False"
    by (simp add: parsePathIdFlag_def default_capabilities_def)
  have "list_all (unicast_ok False AFI_IPv4) ?ps"
    by code_simp
  moreover have "(5::nat) = getMaxPrefixLen False True"
    by (simp add: getMaxPrefixLen_def bgp_consts)
  ultimately show ?thesis
    using serializeNlri_roundtrip [of default_capabilities AFI_IPv4 ?ps 40 40 0 5]
    unfolding flag by fastforce
qed

text \<open>
  C14. What \<open>parseNlri\<close> returns for the two IP families is a list of prefixes that are not longer
  than an address, have no host bits set, and carry a path id exactly when the add-path
  capability says so; and the only exception it raises is the notification
  \<^verbatim>\<open>INVALID_NETWORK_FIELD\<close>: whatever the bytes are, the loop ends and never runs past them.
\<close>

theorem parseNlri_wellformed:
  assumes "afi = AFI_IPv4 \<or> afi = AFI_IPv6"
  shows "case parseNlri cursor afi safi capa of
           Inr ps \<Rightarrow> list_all (unicast_ok (parsePathIdFlag capa afi safi) afi) ps
         | Inl e \<Rightarrow> e = BgpUpdateMsgException BN_UM_INVALID_NETWORK_FIELD []"
  using parseNlri_ok [OF _ assms] parseNlri_raises by (auto split: sum.split)

theorem parseNlri_wellformed_witness:
  "(case parseNlri [33, 1, 2, 3, 4, 5] AFI_IPv4 SAFI_UNICAST default_capabilities of
      Inr ps \<Rightarrow> list_all (unicast_ok (parsePathIdFlag default_capabilities AFI_IPv4 SAFI_UNICAST)
                  AFI_IPv4) ps
    | Inl e \<Rightarrow> e = BgpUpdateMsgException BN_UM_INVALID_NETWORK_FIELD [])"
  using parseNlri_wellformed [of AFI_IPv4] by blast



text \<open>
  C31. The bottom label of a labeled default route is lost. The loop that reads the label stack
  runs while more than 24 bits are left, so with prefix length 0 it stops before the last label,
  whose three bytes are then taken for a /24 prefix without labels.
\<close>

theorem labeled_default_route_lost:
  assumes "afi = AFI_IPv6 \<and> mpExtV6LU capa \<and> a = IPv6 0 \<or> afi = AFI_IPv4 \<and> mpExtV4LU capa \<and> a = IPv4 0"
    and "\<not> parsePathIdFlag capa afi SAFI_LABELED_UNICAST"
  shows "\<exists>bs pfx. serializeOnePrefix afi SAFI_LABELED_UNICAST
                  \<lparr>prefix = (a, 0), labels = [l], pathId = None\<rparr> = Inr bs \<and>
           parseMpNlri bs afi SAFI_LABELED_UNICAST capa attrBeingParsed unreach =
             Inr [\<lparr>prefix = pfx, labels = [], pathId = None\<rparr>] \<and> snd pfx = 24"
proof -
  let ?bs = "[24, word_of_int ((l * 16 + 1) div 2 ^ 16), word_of_int ((l * 16 + 1) div 2 ^ 8),
      word_of_int (l * 16 + 1)] :: byte list"
  have "serializeOnePrefix afi SAFI_LABELED_UNICAST
      \<lparr>prefix = (a, 0), labels = [l], pathId = None\<rparr> = Inr ?bs"
    using assms(1) by (auto simp: serializeOnePrefix_def Let_def wr8_def)
  moreover have "\<exists>pfx. parseLabeled_body unreach False afi attrBeingParsed ?bs [] =
      Inr ([\<lparr>prefix = pfx, labels = [], pathId = None\<rparr>], []) \<and> snd pfx = 24"
    using assms(1)
    by (auto simp: parseLabeled_body_def parseLabelStack.simps [of unreach 24] parseNlriPrefix_def
        pull_def Let_def)
  ultimately show ?thesis
    using assms cursor_loop_step [of "parseLabeled_body unreach False afi attrBeingParsed" ?bs "[]" _ "[]"]
    by (auto simp: parseMpNlri_def)
qed

theorem labeled_default_route_lost_witness:
  "\<exists>bs pfx. serializeOnePrefix AFI_IPv4 SAFI_LABELED_UNICAST
                  \<lparr>prefix = (IPv4 0, 0), labels = [100], pathId = None\<rparr> = Inr bs \<and>
     parseMpNlri bs AFI_IPv4 SAFI_LABELED_UNICAST (default_capabilities\<lparr>mpExtV4LU := True\<rparr>) [] False =
       Inr [\<lparr>prefix = pfx, labels = [], pathId = None\<rparr>] \<and> snd pfx = 24"
  by (rule labeled_default_route_lost) (simp_all add: parsePathIdFlag_def default_capabilities_def)

end
