(* ===== verification/Attr_Codec.thy ===== *)
theory Attr_Codec
  imports Nlri_Codec
begin

text \<open>
  Path attributes: \<^verbatim>\<open>parseAsPathAttr\<close> and \<^verbatim>\<open>struct UpdateMsgParsingState\<close> of
  \<^verbatim>\<open>lib/detail/BgpMessageParserUtils\<close> (\<^verbatim>\<open>parseV4Withdrawn\<close>, \<^verbatim>\<open>checkPathAttributeFlag\<close>,
  \<^verbatim>\<open>parsePathAttributes\<close>, \<^verbatim>\<open>parseV4Announced\<close>, \<^verbatim>\<open>doSanityChecks\<close>) against
  \<^verbatim>\<open>serializePathAttrs\<close> of \<^verbatim>\<open>lib/BgpMessageSerializer.cpp\<close>.

  A message has at most 4096 bytes, so the \<^verbatim>\<open>int16_t\<close> lengths of the attribute loop never wrap and
  are natural numbers here. Set-valued AS path segments are written in ascending order, as
  \<^verbatim>\<open>std::set\<close> iterates.

  The lemmas show that the attributes survive the round trip apart from the ones the serialiser
  does not write, and that the attribute loop returns on every input and raises only
  \<^verbatim>\<open>BgpUpdateMsgException\<close>.
\<close>

unbundle bit_operations_syntax

subsection \<open>Attribute codes and flags\<close>

datatype BgpAttrCode =
  BGP_ATTR_ORIGIN | BGP_ATTR_AS_PATH | BGP_ATTR_NEXT_HOP | BGP_ATTR_MED | BGP_ATTR_LOCAL_PREF
  | BGP_ATTR_ATOMIC_AGGREGATE | BGP_ATTR_AGGREGATOR | BGP_ATTR_COMMUNITIES
  | BGP_ATTR_ORIGINATOR_ID | BGP_ATTR_CLUSTER_LIST | BGP_ATTR_MP_REACH_NLRI
  | BGP_ATTR_MP_UNREACH_NLRI | BGP_ATTR_EXTENDED_COMMUNITIES | BGP_ATTR_LINK_STATE
  | BGP_ATTR_LARGE_COMMUNITIES | BGP_ATTR_unnamed byte

fun attr_code :: "BgpAttrCode \<Rightarrow> byte" where
  "attr_code BGP_ATTR_ORIGIN = 1"
| "attr_code BGP_ATTR_AS_PATH = 2"
| "attr_code BGP_ATTR_NEXT_HOP = 3"
| "attr_code BGP_ATTR_MED = 4"
| "attr_code BGP_ATTR_LOCAL_PREF = 5"
| "attr_code BGP_ATTR_ATOMIC_AGGREGATE = 6"
| "attr_code BGP_ATTR_AGGREGATOR = 7"
| "attr_code BGP_ATTR_COMMUNITIES = 8"
| "attr_code BGP_ATTR_ORIGINATOR_ID = 9"
| "attr_code BGP_ATTR_CLUSTER_LIST = 10"
| "attr_code BGP_ATTR_MP_REACH_NLRI = 14"
| "attr_code BGP_ATTR_MP_UNREACH_NLRI = 15"
| "attr_code BGP_ATTR_EXTENDED_COMMUNITIES = 16"
| "attr_code BGP_ATTR_LINK_STATE = 29"
| "attr_code BGP_ATTR_LARGE_COMMUNITIES = 32"
| "attr_code (BGP_ATTR_unnamed b) = b"

definition named_attrs :: "BgpAttrCode list" where
  "named_attrs =
     [BGP_ATTR_ORIGIN, BGP_ATTR_AS_PATH, BGP_ATTR_NEXT_HOP, BGP_ATTR_MED, BGP_ATTR_LOCAL_PREF,
      BGP_ATTR_ATOMIC_AGGREGATE, BGP_ATTR_AGGREGATOR, BGP_ATTR_COMMUNITIES,
      BGP_ATTR_ORIGINATOR_ID, BGP_ATTR_CLUSTER_LIST, BGP_ATTR_MP_REACH_NLRI,
      BGP_ATTR_MP_UNREACH_NLRI, BGP_ATTR_EXTENDED_COMMUNITIES, BGP_ATTR_LINK_STATE,
      BGP_ATTR_LARGE_COMMUNITIES]"

definition attr_of_code :: "byte \<Rightarrow> BgpAttrCode" where
  "attr_of_code b =
     (case filter (\<lambda>a. attr_code a = b) named_attrs of [] \<Rightarrow> BGP_ATTR_unnamed b | a # _ \<Rightarrow> a)"

abbreviation BGP_ATTR_FLAG_OPTIONAL_TRANSITIVE :: byte where
  "BGP_ATTR_FLAG_OPTIONAL_TRANSITIVE \<equiv> 0xc0"
abbreviation BGP_ATTR_FLAG_OPTIONAL :: byte where "BGP_ATTR_FLAG_OPTIONAL \<equiv> 0x80"
abbreviation BGP_ATTR_FLAG_TRANSITIVE :: byte where "BGP_ATTR_FLAG_TRANSITIVE \<equiv> 0x40"
abbreviation BGP_ATTR_FLAG_PARTIAL :: byte where "BGP_ATTR_FLAG_PARTIAL \<equiv> 0x20"
abbreviation BGP_ATTR_FLAG_EXTENDED :: byte where "BGP_ATTR_FLAG_EXTENDED \<equiv> 0x10"

fun kBgpAttr_Codes_TO_FLAGS :: "BgpAttrCode \<Rightarrow> byte option" where
  "kBgpAttr_Codes_TO_FLAGS BGP_ATTR_ORIGIN = Some BGP_ATTR_FLAG_TRANSITIVE"
| "kBgpAttr_Codes_TO_FLAGS BGP_ATTR_AS_PATH = Some BGP_ATTR_FLAG_TRANSITIVE"
| "kBgpAttr_Codes_TO_FLAGS BGP_ATTR_NEXT_HOP = Some BGP_ATTR_FLAG_TRANSITIVE"
| "kBgpAttr_Codes_TO_FLAGS BGP_ATTR_MED = Some BGP_ATTR_FLAG_OPTIONAL"
| "kBgpAttr_Codes_TO_FLAGS BGP_ATTR_LOCAL_PREF = Some BGP_ATTR_FLAG_TRANSITIVE"
| "kBgpAttr_Codes_TO_FLAGS BGP_ATTR_ATOMIC_AGGREGATE = Some BGP_ATTR_FLAG_TRANSITIVE"
| "kBgpAttr_Codes_TO_FLAGS BGP_ATTR_AGGREGATOR = Some BGP_ATTR_FLAG_OPTIONAL_TRANSITIVE"
| "kBgpAttr_Codes_TO_FLAGS BGP_ATTR_COMMUNITIES = Some BGP_ATTR_FLAG_OPTIONAL_TRANSITIVE"
| "kBgpAttr_Codes_TO_FLAGS BGP_ATTR_ORIGINATOR_ID = Some BGP_ATTR_FLAG_OPTIONAL"
| "kBgpAttr_Codes_TO_FLAGS BGP_ATTR_CLUSTER_LIST = Some BGP_ATTR_FLAG_OPTIONAL"
| "kBgpAttr_Codes_TO_FLAGS BGP_ATTR_MP_REACH_NLRI = Some BGP_ATTR_FLAG_OPTIONAL"
| "kBgpAttr_Codes_TO_FLAGS BGP_ATTR_MP_UNREACH_NLRI = Some BGP_ATTR_FLAG_OPTIONAL"
| "kBgpAttr_Codes_TO_FLAGS BGP_ATTR_EXTENDED_COMMUNITIES = Some BGP_ATTR_FLAG_OPTIONAL_TRANSITIVE"
| "kBgpAttr_Codes_TO_FLAGS BGP_ATTR_LINK_STATE = Some BGP_ATTR_FLAG_OPTIONAL"
| "kBgpAttr_Codes_TO_FLAGS BGP_ATTR_LARGE_COMMUNITIES = Some BGP_ATTR_FLAG_OPTIONAL_TRANSITIVE"
| "kBgpAttr_Codes_TO_FLAGS (BGP_ATTR_unnamed _) = None"

definition checkPathAttributeFlag :: "byte \<Rightarrow> BgpAttrCode \<Rightarrow> byte list \<Rightarrow> bgp_exn + unit" where
  "checkPathAttributeFlag attrFlags attrType attrBeingParsed =
     (case kBgpAttr_Codes_TO_FLAGS attrType of
        None \<Rightarrow> Inr ()
      | Some flags \<Rightarrow>
          throw_if (flags \<noteq> attrFlags AND 0xc0)
            (BgpUpdateMsgException BN_UM_ATTR_FLAGS_ERR attrBeingParsed))"

subsection \<open>Parsing the AS path\<close>

definition readAsn :: "bool \<Rightarrow> cursor \<Rightarrow> bgp_exn + (int \<times> cursor)" where
  "readAsn as4 cursor =
     (if as4 then rbind (readBE32 cursor) (\<lambda>(w, cursor). Inr (uint w, cursor))
      else rbind (readBE16 cursor) (\<lambda>(w, cursor). Inr (uint w, cursor)))"

definition addAsn :: "byte \<Rightarrow> int \<Rightarrow> BgpAttrAsPathSegment \<Rightarrow> bgp_exn + BgpAttrAsPathSegment" where
  "addAsn segmentType asn seg =
     (if segmentType = 1 then Inr (seg\<lparr>asSet := insert asn (asSet seg)\<rparr>)
      else if segmentType = 2 then Inr (seg\<lparr>asSequence := asSequence seg @ [asn]\<rparr>)
      else if segmentType = 3 then Inr (seg\<lparr>asConfedSequence := asConfedSequence seg @ [asn]\<rparr>)
      else if segmentType = 4 then Inr (seg\<lparr>asConfedSet := insert asn (asConfedSet seg)\<rparr>)
      else Inl (BgpUpdateMsgException BN_UM_MALFORMED_AS_PATH []))"

fun parseAsns ::
  "bool \<Rightarrow> byte \<Rightarrow> nat \<Rightarrow> cursor \<Rightarrow> BgpAttrAsPathSegment
     \<Rightarrow> bgp_exn + (BgpAttrAsPathSegment \<times> cursor)" where
  "parseAsns as4 segmentType 0 cursor seg = Inr (seg, cursor)"
| "parseAsns as4 segmentType (Suc asCnt) cursor seg =
     rbind (readAsn as4 cursor) (\<lambda>(asn, cursor).
     rbind (addAsn segmentType asn seg) (\<lambda>seg.
     parseAsns as4 segmentType asCnt cursor seg))"

definition parseAsPath_body ::
  "bool \<Rightarrow> byte list \<Rightarrow> cursor \<Rightarrow> BgpAttrAsPathSegment list
     \<Rightarrow> bgp_exn + (BgpAttrAsPathSegment list \<times> cursor)" where
  "parseAsPath_body as4 attrBeingParsed cursor path =
     rbind (throw_if (length cursor < 2)
              (BgpUpdateMsgException BN_UM_ATTR_LEN_ERR attrBeingParsed)) (\<lambda>_.
     rbind (read_u8 cursor) (\<lambda>(segmentType, cursor).
     rbind (read_u8 cursor) (\<lambda>(asCnt, cursor).
     let expectedLength = (if as4 then 4 * unat asCnt else 2 * unat asCnt) in
     rbind (throw_if (length cursor < expectedLength)
              (BgpUpdateMsgException BN_UM_ATTR_LEN_ERR attrBeingParsed)) (\<lambda>_.
     rbind (parseAsns as4 segmentType (unat asCnt) cursor empty_segment) (\<lambda>(seg, cursor).
     Inr (path @ [seg], cursor))))))"

definition parseAsPathAttr ::
  "cursor \<Rightarrow> BgpCapabilities \<Rightarrow> byte list \<Rightarrow> bgp_exn + BgpAttrAsPathSegment list" where
  "parseAsPathAttr cursor capa attrBeingParsed =
     cursor_loop (parseAsPath_body (as4byte capa) attrBeingParsed) cursor []"

subsection \<open>The state of parsing one UPDATE message\<close>

record UpdateMsgParsingState =
  ps_attrs :: BgpAttributes
  ps_v4Announced :: "RiggedIPPrefix list"
  ps_v4Withdrawn :: "RiggedIPPrefix list"
  mpAnnouncedAfi :: BgpUpdateAfi
  mpAnnouncedSafi :: BgpUpdateSafi
  ps_mpAnnounced :: "RiggedIPPrefix list"
  mpWithdrawnAfi :: BgpUpdateAfi
  mpWithdrawnSafi :: BgpUpdateSafi
  ps_mpWithdrawn :: "RiggedIPPrefix list"
  v4WithdrawnLen :: nat
  paLen :: nat
  ps_eor :: "BgpEndOfRib option"
  ps_v4Nexthop :: ipaddr
  ps_mpNexthop :: ipaddr
  hasOriginAttr :: bool
  hasAsPathAttr :: bool

definition init_state :: UpdateMsgParsingState where
  "init_state =
     \<lparr>ps_attrs = default_attrs, ps_v4Announced = [], ps_v4Withdrawn = [],
      mpAnnouncedAfi = afi_of_code 0, mpAnnouncedSafi = safi_of_code 0, ps_mpAnnounced = [],
      mpWithdrawnAfi = afi_of_code 0, mpWithdrawnSafi = safi_of_code 0, ps_mpWithdrawn = [],
      v4WithdrawnLen = 0, paLen = 0, ps_eor = None, ps_v4Nexthop = IPEmpty,
      ps_mpNexthop = IPEmpty, hasOriginAttr = False, hasAsPathAttr = False\<rparr>"

abbreviation upd_attrs ::
  "(BgpAttributes \<Rightarrow> BgpAttributes) \<Rightarrow> UpdateMsgParsingState \<Rightarrow> UpdateMsgParsingState" where
  "upd_attrs f st \<equiv> st\<lparr>ps_attrs := f (ps_attrs st)\<rparr>"

definition parseV4Withdrawn ::
  "cursor \<Rightarrow> BgpCapabilities \<Rightarrow> UpdateMsgParsingState
     \<Rightarrow> bgp_exn + (UpdateMsgParsingState \<times> cursor)" where
  "parseV4Withdrawn updateMsgCursor capa st =
     rbind (throw_if (2 > length updateMsgCursor)
              (BgpUpdateMsgException BN_UM_MALFORMED_ATTRIBUTE_LIST [])) (\<lambda>_.
     rbind (readBE16 updateMsgCursor) (\<lambda>(w, updateMsgCursor).
     let len = unat w; st = st\<lparr>v4WithdrawnLen := len\<rparr> in
     if len = 0 then Inr (st, updateMsgCursor)
     else
       rbind (throw_if (len > length updateMsgCursor)
                (BgpUpdateMsgException BN_UM_MALFORMED_ATTRIBUTE_LIST [])) (\<lambda>_.
       rbind (catch_oor (BgpUpdateMsgException BN_UM_INVALID_NETWORK_FIELD [])
                (parseNlri (take len updateMsgCursor) AFI_IPv4 SAFI_UNICAST capa)) (\<lambda>ps.
       Inr (st\<lparr>ps_v4Withdrawn := ps\<rparr>, drop len updateMsgCursor)))))"

subsection \<open>Multiprotocol attributes\<close>

text \<open>A 16-byte next hop; of 32 bytes the second half is a link-local address and is skipped.\<close>

definition readV6Nexthop :: "nat \<Rightarrow> cursor \<Rightarrow> bgp_exn + (ipaddr \<times> cursor)" where
  "readV6Nexthop nextHopLen cursor =
     rbind (pull 16 cursor) (\<lambda>(bs, cursor).
     rbind (if nextHopLen = 32 then skip 16 cursor else Inr cursor) (\<lambda>cursor.
     Inr (IPv6 (word_of_bytes bs), cursor)))"

definition parseMpReach ::
  "cursor \<Rightarrow> BgpCapabilities \<Rightarrow> byte list \<Rightarrow> UpdateMsgParsingState
     \<Rightarrow> bgp_exn + UpdateMsgParsingState" where
  "parseMpReach cursor capa attrBeingParsed st =
     rbind (readBE16 cursor) (\<lambda>(afi, cursor).
     rbind (read_u8 cursor) (\<lambda>(safi, cursor).
     let st = st\<lparr>mpAnnouncedAfi := afi_of_code (uint afi),
                 mpAnnouncedSafi := safi_of_code (uint safi)\<rparr> in
     case mpAnnouncedAfi st of
       AFI_IPv4 \<Rightarrow>
         rbind (read_u8 cursor) (\<lambda>(l, cursor).
         let nextHopLen = unat l; extNhEncoding = (extNHEncodingCapabilities capa \<noteq> []) in
         rbind (throw_if (\<not> extNhEncoding \<and> nextHopLen \<noteq> 4)
                  (BgpUpdateMsgException BN_UM_OPTIONAL_ATTR_ERROR attrBeingParsed)) (\<lambda>_.
         rbind (throw_if (extNhEncoding \<and> nextHopLen \<noteq> 4 \<and> nextHopLen \<noteq> 16 \<and> nextHopLen \<noteq> 32)
                  (BgpUpdateMsgException BN_UM_OPTIONAL_ATTR_ERROR attrBeingParsed)) (\<lambda>_.
         rbind (if nextHopLen = 4
                then rbind (readBE32 cursor) (\<lambda>(w, cursor). Inr (IPv4 w, cursor))
                else readV6Nexthop nextHopLen cursor) (\<lambda>(nh, cursor).
         rbind (skip 1 cursor) (\<lambda>cursor.
         rbind (parseMpNlri cursor AFI_IPv4 (mpAnnouncedSafi st) capa attrBeingParsed False) (\<lambda>ps.
         Inr (st\<lparr>ps_mpNexthop := nh, ps_mpAnnounced := ps\<rparr>)))))))
     | AFI_IPv6 \<Rightarrow>
         rbind (read_u8 cursor) (\<lambda>(l, cursor).
         let nextHopLen = unat l in
         rbind (throw_if (nextHopLen \<noteq> 16 \<and> nextHopLen \<noteq> 32)
                  (BgpUpdateMsgException BN_UM_OPTIONAL_ATTR_ERROR attrBeingParsed)) (\<lambda>_.
         rbind (readV6Nexthop nextHopLen cursor) (\<lambda>(nh, cursor).
         rbind (skip 1 cursor) (\<lambda>cursor.
         rbind (parseMpNlri cursor AFI_IPv6 (mpAnnouncedSafi st) capa attrBeingParsed False) (\<lambda>ps.
         Inr (st\<lparr>ps_mpNexthop := nh, ps_mpAnnounced := ps\<rparr>))))))
     | _ \<Rightarrow> Inr st))"

definition parseMpUnreach ::
  "cursor \<Rightarrow> BgpCapabilities \<Rightarrow> byte list \<Rightarrow> UpdateMsgParsingState
     \<Rightarrow> bgp_exn + UpdateMsgParsingState" where
  "parseMpUnreach cursor capa attrBeingParsed st =
     rbind (readBE16 cursor) (\<lambda>(afi, cursor).
     rbind (read_u8 cursor) (\<lambda>(safi, cursor).
     let st = st\<lparr>mpWithdrawnAfi := afi_of_code (uint afi),
                 mpWithdrawnSafi := safi_of_code (uint safi)\<rparr> in
     case mpWithdrawnAfi st of
       AFI_IPv4 \<Rightarrow>
         if cursor = []
         then Inr (st\<lparr>ps_eor := Some \<lparr>isMpEor = True, eor_afi = AFI_IPv4,
                                      eor_safi = mpWithdrawnSafi st\<rparr>\<rparr>)
         else rbind (parseMpNlri cursor AFI_IPv4 (mpWithdrawnSafi st) capa attrBeingParsed True)
                (\<lambda>ps. Inr (st\<lparr>ps_mpWithdrawn := ps\<rparr>))
     | AFI_IPv6 \<Rightarrow>
         if cursor = []
         then Inr (st\<lparr>ps_eor := Some \<lparr>isMpEor = True, eor_afi = AFI_IPv6,
                                      eor_safi = mpWithdrawnSafi st\<rparr>\<rparr>)
         else rbind (parseMpNlri cursor AFI_IPv6 (mpWithdrawnSafi st) capa attrBeingParsed True)
                (\<lambda>ps. Inr (st\<lparr>ps_mpWithdrawn := ps\<rparr>))
     | _ \<Rightarrow> Inl (BgpUpdateMsgException BN_UM_OPTIONAL_ATTR_ERROR attrBeingParsed)))"

subsection \<open>The other attributes\<close>

definition parseCommunity_body ::
  "cursor \<Rightarrow> BgpAttrCommunity list \<Rightarrow> bgp_exn + (BgpAttrCommunity list \<times> cursor)" where
  "parseCommunity_body cursor cs =
     rbind (readBE16 cursor) (\<lambda>(a, cursor).
     rbind (readBE16 cursor) (\<lambda>(v, cursor).
     Inr (cs @ [\<lparr>comm_asn = uint a, comm_value = uint v\<rparr>], cursor)))"

definition parseCluster_body :: "cursor \<Rightarrow> int list \<Rightarrow> bgp_exn + (int list \<times> cursor)" where
  "parseCluster_body cursor cl =
     rbind (read32n cursor) (\<lambda>(c, cursor). Inr (cl @ [uint c], cursor))"

definition parseExtCommunity_body ::
  "cursor \<Rightarrow> BgpAttrExtCommunity list \<Rightarrow> bgp_exn + (BgpAttrExtCommunity list \<times> cursor)" where
  "parseExtCommunity_body cursor cs =
     rbind (readBE32 cursor) (\<lambda>(a, cursor).
     rbind (readBE32 cursor) (\<lambda>(v, cursor).
     Inr (cs @ [\<lparr>firstWord = uint a, secondWord = uint v\<rparr>], cursor)))"

definition parseLargeCommunity_body ::
  "cursor \<Rightarrow> BgpAttrLargeCommunity list \<Rightarrow> bgp_exn + (BgpAttrLargeCommunity list \<times> cursor)" where
  "parseLargeCommunity_body cursor cs =
     rbind (readBE32 cursor) (\<lambda>(a, cursor).
     rbind (readBE32 cursor) (\<lambda>(d1, cursor).
     rbind (readBE32 cursor) (\<lambda>(d2, cursor).
     Inr (cs @ [\<lparr>lc_asn = uint a, localData1 = uint d1, localData2 = uint d2\<rparr>], cursor))))"

definition parseAggregator ::
  "cursor \<Rightarrow> BgpCapabilities \<Rightarrow> byte list \<Rightarrow> bgp_exn + BgpAttrAggregator" where
  "parseAggregator cursor capa attrBeingParsed =
     rbind (readAsn (as4byte capa) cursor) (\<lambda>(asn, cursor).
     rbind (readBE32 cursor) (\<lambda>(ip, cursor).
     rbind (throw_if (cursor \<noteq> [])
              (BgpUpdateMsgException BN_UM_OPTIONAL_ATTR_ERROR attrBeingParsed)) (\<lambda>_.
     Inr \<lparr>agg_asn = asn, agg_ip = IPv4 ip\<rparr>)))"

text \<open>The \<^verbatim>\<open>switch (attrType)\<close> of \<^verbatim>\<open>parsePathAttributes\<close> on the body of one attribute.\<close>

definition parseAttrBody ::
  "BgpAttrCode \<Rightarrow> cursor \<Rightarrow> BgpCapabilities \<Rightarrow> byte list \<Rightarrow> UpdateMsgParsingState
     \<Rightarrow> bgp_exn + UpdateMsgParsingState" where
  "parseAttrBody attrType cursor capa attrBeingParsed st =
     (case attrType of
        BGP_ATTR_ORIGIN \<Rightarrow>
          rbind (read_u8 cursor) (\<lambda>(originCode, cursor).
          rbind (throw_if (originCode > 2)
                   (BgpUpdateMsgException BN_UM_INVALID_ORIGIN_ATTR attrBeingParsed)) (\<lambda>_.
          Inr ((upd_attrs (origin_update (\<lambda>_.
                  if originCode = 0 then BGP_ORIGIN_IGP else if originCode = 1 then BGP_ORIGIN_EGP
                  else BGP_ORIGIN_INCOMPLETE)) st)\<lparr>hasOriginAttr := True\<rparr>)))
      | BGP_ATTR_AS_PATH \<Rightarrow>
          rbind (parseAsPathAttr cursor capa attrBeingParsed) (\<lambda>path.
          Inr ((upd_attrs (asPath_update (\<lambda>_. path)) st)\<lparr>hasAsPathAttr := True\<rparr>))
      | BGP_ATTR_NEXT_HOP \<Rightarrow>
          rbind (throw_if (length cursor \<noteq> 4)
                   (BgpUpdateMsgException BN_UM_INVALID_NEXT_HOP_ATTR attrBeingParsed)) (\<lambda>_.
          rbind (readBE32 cursor) (\<lambda>(w, cursor).
          Inr ((upd_attrs (nexthop_update (\<lambda>_. IPv4 w)) st)\<lparr>ps_v4Nexthop := IPv4 w\<rparr>)))
      | BGP_ATTR_MED \<Rightarrow>
          rbind (readBE32 cursor) (\<lambda>(w, cursor).
          Inr (upd_attrs (\<lambda>a. a\<lparr>med := uint w, isMedSet := True\<rparr>) st))
      | BGP_ATTR_LOCAL_PREF \<Rightarrow>
          rbind (readBE32 cursor) (\<lambda>(w, cursor).
          Inr (upd_attrs (localPref_update (\<lambda>_. Some (uint w))) st))
      | BGP_ATTR_ATOMIC_AGGREGATE \<Rightarrow> Inr (upd_attrs (atomicAggregate_update (\<lambda>_. True)) st)
      | BGP_ATTR_AGGREGATOR \<Rightarrow>
          rbind (parseAggregator cursor capa attrBeingParsed) (\<lambda>g.
          Inr (upd_attrs (aggregator_update (\<lambda>_. g)) st))
      | BGP_ATTR_COMMUNITIES \<Rightarrow>
          rbind (cursor_loop parseCommunity_body cursor (communities (ps_attrs st))) (\<lambda>cs.
          Inr (upd_attrs (communities_update (\<lambda>_. cs)) st))
      | BGP_ATTR_ORIGINATOR_ID \<Rightarrow>
          rbind (read32n cursor) (\<lambda>(w, cursor).
          rbind (throw_if (cursor \<noteq> [])
                   (BgpUpdateMsgException BN_UM_ATTR_LEN_ERR attrBeingParsed)) (\<lambda>_.
          Inr (upd_attrs (originatorId_update (\<lambda>_. uint w)) st)))
      | BGP_ATTR_CLUSTER_LIST \<Rightarrow>
          rbind (cursor_loop parseCluster_body cursor (clusterList (ps_attrs st))) (\<lambda>cl.
          Inr (upd_attrs (clusterList_update (\<lambda>_. cl)) st))
      | BGP_ATTR_MP_REACH_NLRI \<Rightarrow> parseMpReach cursor capa attrBeingParsed st
      | BGP_ATTR_MP_UNREACH_NLRI \<Rightarrow> parseMpUnreach cursor capa attrBeingParsed st
      | BGP_ATTR_EXTENDED_COMMUNITIES \<Rightarrow>
          rbind (cursor_loop parseExtCommunity_body cursor (extCommunities (ps_attrs st))) (\<lambda>cs.
          Inr (upd_attrs (extCommunities_update (\<lambda>_. cs)) st))
      | BGP_ATTR_LARGE_COMMUNITIES \<Rightarrow>
          rbind (cursor_loop parseLargeCommunity_body cursor (largeCommunities (ps_attrs st))) (\<lambda>cs.
          Inr (upd_attrs (largeCommunities_update (\<lambda>_. cs)) st))
      | _ \<Rightarrow> Inr st)"

text \<open>
  One attribute: flags, type, a length of one or two bytes, the checks on flags and length, and
  the body. \<open>attrBeingParsed\<close> is what a notification quotes: flags, type, length and as much of
  the body as is there.
\<close>

definition parsePathAttr_body ::
  "BgpCapabilities \<Rightarrow> cursor \<Rightarrow> UpdateMsgParsingState
     \<Rightarrow> bgp_exn + (UpdateMsgParsingState \<times> cursor)" where
  "parsePathAttr_body capa paCursor st =
     catch_oor (BgpUpdateMsgException BN_UM_MALFORMED_ATTRIBUTE_LIST [])
      (rbind (read_u8 paCursor) (\<lambda>(attrFlags, paCursor).
       rbind (read_u8 paCursor) (\<lambda>(code, paCursor).
       rbind (if attrFlags AND BGP_ATTR_FLAG_EXTENDED \<noteq> 0
              then rbind (readBE16 paCursor) (\<lambda>(l, paCursor). Inr (unat l, bytes_of_word 2 l, paCursor))
              else rbind (read_u8 paCursor) (\<lambda>(l, paCursor). Inr (unat l, [l], paCursor)))
        (\<lambda>(attrBodyLen, lenBytes, paCursor).
       let attrType = attr_of_code code;
           attrBeingParsed = attrFlags # code # lenBytes @ take attrBodyLen paCursor in
       rbind (checkPathAttributeFlag attrFlags attrType attrBeingParsed) (\<lambda>_.
       rbind (throw_if (attrBodyLen > length paCursor)
                (BgpUpdateMsgException BN_UM_MALFORMED_ATTRIBUTE_LIST [])) (\<lambda>_.
       rbind (throw_if (attrFlags AND BGP_ATTR_FLAG_OPTIONAL = 0 \<and>
                        attrFlags AND BGP_ATTR_FLAG_TRANSITIVE = 0)
                (BgpUpdateMsgException BN_UM_ATTR_FLAGS_ERR attrBeingParsed)) (\<lambda>_.
       rbind (throw_if ((attrFlags AND BGP_ATTR_FLAG_OPTIONAL = 0 \<or>
                         attrFlags AND BGP_ATTR_FLAG_TRANSITIVE = 0) \<and>
                        attrFlags AND BGP_ATTR_FLAG_PARTIAL \<noteq> 0)
                (BgpUpdateMsgException BN_UM_ATTR_FLAGS_ERR attrBeingParsed)) (\<lambda>_.
       rbind (parseAttrBody attrType (take attrBodyLen paCursor) capa attrBeingParsed st) (\<lambda>st.
       Inr (st, drop attrBodyLen paCursor))))))))))"

definition parsePathAttributes ::
  "cursor \<Rightarrow> BgpCapabilities \<Rightarrow> UpdateMsgParsingState
     \<Rightarrow> bgp_exn + (UpdateMsgParsingState \<times> cursor)" where
  "parsePathAttributes updateMsgCursor capa st =
     (let st = upd_attrs (isMedSet_update (\<lambda>_. False)) st in
      rbind (throw_if (2 > length updateMsgCursor)
               (BgpUpdateMsgException BN_UM_MALFORMED_ATTRIBUTE_LIST [])) (\<lambda>_.
      rbind (readBE16 updateMsgCursor) (\<lambda>(w, updateMsgCursor).
      let len = unat w; st = st\<lparr>paLen := len\<rparr> in
      if len = 0 then Inr (st, updateMsgCursor)
      else
        rbind (throw_if (len > length updateMsgCursor)
                 (BgpUpdateMsgException BN_UM_MALFORMED_ATTRIBUTE_LIST [])) (\<lambda>_.
        rbind (cursor_loop (parsePathAttr_body capa) (take len updateMsgCursor) st) (\<lambda>st.
        Inr (st, drop len updateMsgCursor))))))"

definition parseV4Announced ::
  "cursor \<Rightarrow> BgpCapabilities \<Rightarrow> UpdateMsgParsingState
     \<Rightarrow> bgp_exn + (UpdateMsgParsingState \<times> cursor)" where
  "parseV4Announced updateMsgCursor capa st =
     (if updateMsgCursor = [] then Inr (st, updateMsgCursor)
      else rbind (parseNlri updateMsgCursor AFI_IPv4 SAFI_UNICAST capa) (\<lambda>ps.
           Inr (st\<lparr>ps_v4Announced := ps\<rparr>, [])))"

definition doSanityChecks :: "UpdateMsgParsingState \<Rightarrow> bgp_exn + unit" where
  "doSanityChecks st =
     rbind (throw_if ((ps_v4Announced st \<noteq> [] \<or> ps_mpAnnounced st \<noteq> []) \<and>
                      (\<not> hasOriginAttr st \<or> \<not> hasAsPathAttr st))
              (BgpUpdateMsgException BN_UM_MISSING_WELL_KNOWN_ATTR
                 [attr_code (if hasOriginAttr st then BGP_ATTR_AS_PATH else BGP_ATTR_ORIGIN)])) (\<lambda>_.
     throw_if (ps_v4Announced st \<noteq> [] \<and> ps_v4Nexthop st = IPEmpty)
       (BgpUpdateMsgException BN_UM_MISSING_WELL_KNOWN_ATTR [attr_code BGP_ATTR_NEXT_HOP]))"

subsection \<open>Serialising\<close>

definition asn_bytes :: "bool \<Rightarrow> int \<Rightarrow> byte list" where
  "asn_bytes as4 asn = (if as4 then wr32 asn else wr16 asn)"

definition numUsedSegmentTypes :: "BgpAttrAsPathSegment \<Rightarrow> nat" where
  "numUsedSegmentTypes seg =
     (if asSequence seg \<noteq> [] then 1 else 0) + (if asSet seg \<noteq> {} then 1 else 0) +
     (if asConfedSequence seg \<noteq> [] then 1 else 0) + (if asConfedSet seg \<noteq> {} then 1 else 0)"

text \<open>The segment type that is written and the AS numbers that follow it.\<close>

definition segment_content :: "BgpAttrAsPathSegment \<Rightarrow> int \<times> int list" where
  "segment_content seg =
     (if asSet seg \<noteq> {} then (1, sorted_list_of_set (asSet seg))
      else if asSequence seg \<noteq> [] then (2, asSequence seg)
      else if asConfedSequence seg \<noteq> [] then (3, asConfedSequence seg)
      else (4, sorted_list_of_set (asConfedSet seg)))"

definition segment_bytes :: "bool \<Rightarrow> BgpAttrAsPathSegment \<Rightarrow> byte list" where
  "segment_bytes as4 seg =
     (case segment_content seg of (t, asns) \<Rightarrow>
        wr8 t @ wr8 (int (length asns)) @ concat (map (asn_bytes as4) asns))"

fun serializeAsPath ::
  "nat \<Rightarrow> bool \<Rightarrow> byte list \<Rightarrow> BgpAttrAsPathSegment list \<Rightarrow> bgp_exn + byte list" where
  "serializeAsPath room as4 buf [] = Inr buf"
| "serializeAsPath room as4 buf (seg # segs) =
     rbind (throw_if (numUsedSegmentTypes seg \<noteq> 1)
              (BgpSerializerException INVALID_ASPATH_INFO)) (\<lambda>_.
     rbind (push room buf (segment_bytes as4 seg)) (\<lambda>buf.
     serializeAsPath room as4 buf segs))"

definition push_if :: "bool \<Rightarrow> nat \<Rightarrow> byte list \<Rightarrow> byte list \<Rightarrow> bgp_exn + byte list" where
  "push_if c room bs buf = (if c then push room buf bs else Inr buf)"

text \<open>
  The attributes after the next hop, from \<^verbatim>\<open>MED\<close> on; \<open>room\<close> is the capacity of the attribute
  buffer and \<open>buf\<close> what is written already.
\<close>

definition serializeOptionalAttrs ::
  "nat \<Rightarrow> bool \<Rightarrow> BgpAttributes \<Rightarrow> byte list \<Rightarrow> bgp_exn + byte list" where
  "serializeOptionalAttrs room as4 a buf =
     (let asnLen = (if as4 then 4 else 2);
          hasAggregator = (agg_asn (aggregator a) \<noteq> 0 \<and> agg_ip (aggregator a) \<noteq> IPEmpty) in
      rbind (push_if (isMedSet a) room
               ([BGP_ATTR_FLAG_OPTIONAL, attr_code BGP_ATTR_MED, 4] @ wr32 (med a)) buf) (\<lambda>buf.
      rbind (push_if (localPref a \<noteq> None) room
               ([BGP_ATTR_FLAG_TRANSITIVE, attr_code BGP_ATTR_LOCAL_PREF, 4] @
                wr32 (the (localPref a))) buf) (\<lambda>buf.
      rbind (push_if (atomicAggregate a) room
               [BGP_ATTR_FLAG_TRANSITIVE, attr_code BGP_ATTR_ATOMIC_AGGREGATE, 0] buf) (\<lambda>buf.
      rbind (push_if hasAggregator room
               ([BGP_ATTR_FLAG_OPTIONAL OR BGP_ATTR_FLAG_TRANSITIVE, attr_code BGP_ATTR_AGGREGATOR] @
                wr8 (4 + asnLen) @ asn_bytes as4 (agg_asn (aggregator a))) buf) (\<lambda>buf.
      rbind (throw_if (hasAggregator \<and> \<not> isV4 (agg_ip (aggregator a)))
               InvalidAddressFamilyException) (\<lambda>_.
      rbind (push_if hasAggregator room (ip_bytes (agg_ip (aggregator a))) buf) (\<lambda>buf.
      rbind (push_if (communities a \<noteq> []) room
               ([BGP_ATTR_FLAG_OPTIONAL OR BGP_ATTR_FLAG_TRANSITIVE OR BGP_ATTR_FLAG_EXTENDED,
                 attr_code BGP_ATTR_COMMUNITIES] @
                wr16 (4 * int (length (communities a))) @
                concat (map (\<lambda>c. wr16 (comm_asn c) @ wr16 (comm_value c)) (communities a))) buf) (\<lambda>buf.
      rbind (push_if (originatorId a \<noteq> 0) room
               ([BGP_ATTR_FLAG_OPTIONAL, attr_code BGP_ATTR_ORIGINATOR_ID, 4] @
                wr32n (originatorId a)) buf) (\<lambda>buf.
      rbind (push_if (clusterList a \<noteq> []) room
               ([BGP_ATTR_FLAG_OPTIONAL OR BGP_ATTR_FLAG_EXTENDED, attr_code BGP_ATTR_CLUSTER_LIST] @
                wr16 (4 * int (length (clusterList a))) @
                concat (map wr32n (clusterList a))) buf) (\<lambda>buf.
      push_if (extCommunities a \<noteq> []) room
        ([BGP_ATTR_FLAG_OPTIONAL OR BGP_ATTR_FLAG_TRANSITIVE OR BGP_ATTR_FLAG_EXTENDED,
          attr_code BGP_ATTR_EXTENDED_COMMUNITIES] @
         wr16 (8 * int (length (extCommunities a))) @
         concat (map (\<lambda>c. wr32 (firstWord c) @ wr32 (secondWord c)) (extCommunities a))) buf))))))))))"

text \<open>
  The second result is \<^verbatim>\<open>*outNexthopOffsetInAttrs\<close>, set only when the next hop is written. Two
  bytes are left for the length of the AS path, which is filled in afterwards.
\<close>

definition serializePathAttrs ::
  "nat \<Rightarrow> BgpUpdate2 \<Rightarrow> bool \<Rightarrow> bool \<Rightarrow> bgp_exn + (byte list \<times> nat option)" where
  "serializePathAttrs room update as4 v4 =
     (let a = attrs update in
      rbind (push room []
               ([BGP_ATTR_FLAG_TRANSITIVE, attr_code BGP_ATTR_ORIGIN, 1] @ wr8 (origin_code (origin a))))
       (\<lambda>buf.
      rbind (push room buf
               [BGP_ATTR_FLAG_TRANSITIVE OR BGP_ATTR_FLAG_EXTENDED, attr_code BGP_ATTR_AS_PATH])
       (\<lambda>buf.
      rbind (push room buf [0, 0]) (\<lambda>buf0.
      rbind (serializeAsPath (room - length buf0) as4 [] (asPath a)) (\<lambda>path.
      rbind (throw_if (length path > 0xFFF) (BgpSerializerException EXCEEDED_MAX_SIZE)) (\<lambda>_.
      let buf = buf @ wr16 (int (length path)) @ path in
      rbind (push_if v4 room
               [BGP_ATTR_FLAG_TRANSITIVE, attr_code BGP_ATTR_NEXT_HOP, 4] buf) (\<lambda>buf.
      let off = (if v4 then Some (length buf) else None) in
      rbind (throw_if (v4 \<and> v4Nexthop update = IPEmpty) IPAddressFormatException) (\<lambda>_.
      rbind (push_if v4 room (take 4 (ip_bytes (v4Nexthop update))) buf) (\<lambda>buf.
      rbind (serializeOptionalAttrs room as4 a buf) (\<lambda>buf.
      Inr (buf, off)))))))))))"

subsection \<open>AS path segments survive the round trip\<close>

lemma attr_of_code_code [simp]:
  "(\<And>b. a \<noteq> BGP_ATTR_unnamed b) \<Longrightarrow> attr_of_code (attr_code a) = a"
  by (cases a) (auto simp: attr_of_code_def named_attrs_def)

definition asn_ok :: "bool \<Rightarrow> int \<Rightarrow> bool" where
  "asn_ok as4 x \<longleftrightarrow> 0 \<le> x \<and> x < (if as4 then 2 ^ 32 else 2 ^ 16)"

text \<open>
  A segment the parser can recover: one kind of content, AS numbers of the negotiated width, and
  not more of them than the count byte can say.
\<close>

definition segment_ok :: "bool \<Rightarrow> BgpAttrAsPathSegment \<Rightarrow> bool" where
  "segment_ok as4 seg \<longleftrightarrow>
     numUsedSegmentTypes seg = 1 \<and> finite (asSet seg) \<and> finite (asConfedSet seg) \<and>
     list_all (asn_ok as4) (snd (segment_content seg)) \<and> length (snd (segment_content seg)) < 256"

lemma length_asn_bytes [simp]: "length (asn_bytes as4 x) = (if as4 then 4 else 2)"
  by (simp add: asn_bytes_def)

lemma readAsn_asn_bytes:
  "asn_ok as4 x \<Longrightarrow> readAsn as4 (asn_bytes as4 x @ rest) = Inr (x, rest)"
  by (auto simp: readAsn_def asn_bytes_def asn_ok_def codec_simps split: if_splits)

lemma length_concat_asn_bytes:
  "length (concat (map (asn_bytes as4) xs)) = (if as4 then 4 else 2) * length xs"
  by (induction xs) auto

text \<open>What adding AS numbers one by one amounts to.\<close>

definition add_asns :: "byte \<Rightarrow> int list \<Rightarrow> BgpAttrAsPathSegment \<Rightarrow> BgpAttrAsPathSegment" where
  "add_asns t xs seg =
     (if t = 1 then seg\<lparr>asSet := asSet seg \<union> set xs\<rparr>
      else if t = 2 then seg\<lparr>asSequence := asSequence seg @ xs\<rparr>
      else if t = 3 then seg\<lparr>asConfedSequence := asConfedSequence seg @ xs\<rparr>
      else seg\<lparr>asConfedSet := asConfedSet seg \<union> set xs\<rparr>)"

lemma parseAsns_bytes:
  assumes "list_all (asn_ok as4) xs" "t \<in> {1, 2, 3, 4}"
  shows "parseAsns as4 t (length xs) (concat (map (asn_bytes as4) xs) @ rest) seg =
           Inr (add_asns t xs seg, rest)"
  using assms
proof (induction xs arbitrary: seg)
  case Nil
  then show ?case by (auto simp: add_asns_def)
next
  case (Cons x xs)
  then show ?case
    by (auto simp: readAsn_asn_bytes addAsn_def add_asns_def)
qed

lemma segment_content_add:
  assumes "numUsedSegmentTypes seg = 1" "finite (asSet seg)" "finite (asConfedSet seg)"
    and "segment_content seg = (t, xs)"
  shows "add_asns (word_of_int t) xs empty_segment = seg" "t \<in> {1, 2, 3, 4}"
  using assms
  by (cases seg; auto simp: add_asns_def segment_content_def numUsedSegmentTypes_def empty_segment_def
      split: if_splits)+

lemma parseAsPath_body_segment:
  assumes ok: "segment_ok as4 seg"
  shows "parseAsPath_body as4 a (segment_bytes as4 seg @ rest) path = Inr (path @ [seg], rest)"
proof -
  obtain t xs where c: "segment_content seg = (t, xs)" by (cases "segment_content seg")
  from ok c have l: "length xs < 256" and x: "list_all (asn_ok as4) xs"
    and seg: "add_asns (word_of_int t) xs empty_segment = seg" and t: "t \<in> {1, 2, 3, 4}"
    using segment_content_add [OF _ _ _ c] by (auto simp: segment_ok_def)
  have w: "(word_of_int t :: byte) \<in> {1, 2, 3, 4}" using t by auto
  have n: "unat (word_of_nat (length xs) :: byte) = length xs" using l by (rule unat_cast8)
  show ?thesis
    using parseAsns_bytes [OF x w, of rest empty_segment] seg
    by (simp add: parseAsPath_body_def segment_bytes_def c codec_simps n length_concat_asn_bytes Let_def)
qed

lemma segment_bytes_nonempty [simp]: "segment_bytes as4 seg \<noteq> []"
  by (simp add: segment_bytes_def split: prod.splits)

interpretation aspath: cursor_codec
  "parseAsPath_body as4 a" "segment_bytes as4" "\<lambda>x xs. xs @ [x]" "segment_ok as4" for as4 a
  by unfold_locales (auto simp: parseAsPath_body_segment)

lemma parseAsPathAttr_bytes:
  assumes "list_all (segment_ok (as4byte capa)) path"
  shows "parseAsPathAttr (concat (map (segment_bytes (as4byte capa)) path)) capa a = Inr path"
  using aspath.loop_enc [OF assms, of a "[]"] by (simp add: parseAsPathAttr_def fold_snoc)

subsection \<open>List-valued attributes survive the round trip\<close>

definition u16_ok :: "int \<Rightarrow> bool" where "u16_ok x \<longleftrightarrow> 0 \<le> x \<and> x < 2 ^ 16"
definition u32_ok :: "int \<Rightarrow> bool" where "u32_ok x \<longleftrightarrow> 0 \<le> x \<and> x < 2 ^ 32"

interpretation community: cursor_codec
  parseCommunity_body "\<lambda>c. wr16 (comm_asn c) @ wr16 (comm_value c)" "\<lambda>c cs. cs @ [c]"
  "\<lambda>c. u16_ok (comm_asn c) \<and> u16_ok (comm_value c)"
  by unfold_locales (auto simp: parseCommunity_body_def u16_ok_def codec_simps)

interpretation cluster: cursor_codec parseCluster_body wr32n "\<lambda>c cs. cs @ [c]" u32_ok
  by unfold_locales (auto simp: parseCluster_body_def u32_ok_def codec_simps)

interpretation extcomm: cursor_codec
  parseExtCommunity_body "\<lambda>c. wr32 (firstWord c) @ wr32 (secondWord c)" "\<lambda>c cs. cs @ [c]"
  "\<lambda>c. u32_ok (firstWord c) \<and> u32_ok (secondWord c)"
  by unfold_locales (auto simp: parseExtCommunity_body_def u32_ok_def codec_simps)

subsection \<open>What the attribute loop raises\<close>

definition update_exn :: "bgp_exn \<Rightarrow> bool" where
  "update_exn e \<longleftrightarrow> (\<exists>c d. e = BgpUpdateMsgException c d)"

lemma readAsn_lengthD: "readAsn as4 cur = Inr (x, cur') \<Longrightarrow> length cur' < length cur"
  by (auto simp: readAsn_def rbind_eq_Inr dest!: read_lengthD split: if_splits)

lemma parseAsns_length:
  "parseAsns as4 t n cur seg = Inr (seg', cur') \<Longrightarrow> length cur' \<le> length cur"
proof (induction n arbitrary: cur seg)
  case (Suc n)
  then obtain x cur1 seg1 where "readAsn as4 cur = Inr (x, cur1)"
    "parseAsns as4 t n cur1 seg1 = Inr (seg', cur')"
    by (auto simp: rbind_eq_Inr)
  with Suc.IH [of cur1 seg1] readAsn_lengthD [of as4 cur x cur1] show ?case by simp
qed simp

lemma parseAsns_raises:
  assumes "parseAsns as4 t n cur seg = Inl e" "(if as4 then 4 else 2) * n \<le> length cur"
  shows "e = BgpUpdateMsgException BN_UM_MALFORMED_AS_PATH []"
  using assms
proof (induction n arbitrary: cur seg)
  case (Suc n)
  from Suc.prems(2) have "\<exists>x cur1. readAsn as4 cur = Inr (x, cur1) \<and>
      length cur = length cur1 + (if as4 then 4 else 2)"
    by (cases as4) (auto simp: readAsn_def readBE32_def readBE16_def pull_def)
  then obtain x cur1 where r: "readAsn as4 cur = Inr (x, cur1)"
    and l: "length cur = length cur1 + (if as4 then 4 else 2)" by blast
  show ?case
  proof (cases "addAsn t x seg")
    case (Inl e')
    with Suc.prems(1) r show ?thesis by (auto simp: addAsn_def split: if_splits)
  next
    case (Inr seg1)
    with Suc.prems(1) r have "parseAsns as4 t n cur1 seg1 = Inl e" by simp
    then show ?thesis using Suc.IH Suc.prems(2) l by (cases as4) auto
  qed
qed simp

interpretation aspath_body: cursor_body "parseAsPath_body as4 a" update_exn for as4 a
proof
  fix cur cur' :: cursor and s s' :: "BgpAttrAsPathSegment list"
  assume "parseAsPath_body as4 a cur s = Inr (s', cur')" "cur \<noteq> []"
  then show "length cur' < length cur"
    by (auto simp: parseAsPath_body_def rbind_eq_Inr Let_def dest!: parseAsns_length read_lengthD)
next
  fix cur :: cursor and s :: "BgpAttrAsPathSegment list" and e
  assume "parseAsPath_body as4 a cur s = Inl e" "cur \<noteq> []"
  then show "update_exn e"
    by (auto simp: parseAsPath_body_def rbind_eq_Inl exn_simps update_exn_def Let_def not_less
        dest!: read_lengthD parseAsns_raises)
qed

interpretation community_body: cursor_body parseCommunity_body "\<lambda>e. e = OutOfRange"
  by unfold_locales
     (auto simp: parseCommunity_body_def rbind_eq_Inr rbind_eq_Inl exn_simps dest!: read_lengthD)

interpretation cluster_body: cursor_body parseCluster_body "\<lambda>e. e = OutOfRange"
  by unfold_locales
     (auto simp: parseCluster_body_def rbind_eq_Inr rbind_eq_Inl exn_simps dest!: read_lengthD)

interpretation extcomm_body: cursor_body parseExtCommunity_body "\<lambda>e. e = OutOfRange"
  by unfold_locales
     (auto simp: parseExtCommunity_body_def rbind_eq_Inr rbind_eq_Inl exn_simps dest!: read_lengthD)

interpretation largecomm_body: cursor_body parseLargeCommunity_body "\<lambda>e. e = OutOfRange"
  by unfold_locales
     (auto simp: parseLargeCommunity_body_def rbind_eq_Inr rbind_eq_Inl exn_simps dest!: read_lengthD)

lemmas attr_loop_raises =
  community_body.loop_raises cluster_body.loop_raises extcomm_body.loop_raises
  largecomm_body.loop_raises

lemma nlri_exn_intros [simp]: "nlri_exn OutOfRange" "nlri_exn (BgpUpdateMsgException c d)"
  by (auto simp: nlri_exn_def)

lemma raises_case_afi [raises_intros]:
  "raises_only P a \<Longrightarrow> raises_only P b \<Longrightarrow> raises_only P c \<Longrightarrow> (\<And>n. raises_only P (d n)) \<Longrightarrow>
     raises_only P (case afi of AFI_IPv4 \<Rightarrow> a | AFI_IPv6 \<Rightarrow> b | AFI_LS \<Rightarrow> c | AFI_unnamed n \<Rightarrow> d n)"
  by (cases afi) auto

lemma parseMpNlri_raises_only [raises_intros]:
  "raises_only nlri_exn (parseMpNlri cur afi safi capa a unreach)"
  by (rule raises_onlyI) (rule parseMpNlri_raises)

lemma readV6Nexthop_raises_only [raises_intros]: "raises_only nlri_exn (readV6Nexthop n cur)"
  unfolding readV6Nexthop_def by (intro raises_intros) simp_all

lemma parseMpReach_raises_only [raises_intros]: "raises_only nlri_exn (parseMpReach cur capa a st)"
  unfolding parseMpReach_def by (intro raises_intros) simp_all

lemma parseMpUnreach_raises_only [raises_intros]:
  "raises_only nlri_exn (parseMpUnreach cur capa a st)"
  unfolding parseMpUnreach_def by (intro raises_intros) simp_all

lemma parseAsPathAttr_raises_only [raises_intros]:
  "raises_only nlri_exn (parseAsPathAttr cur capa a)"
  using aspath_body.loop_raises [of "as4byte capa" a cur "[]"]
  by (auto simp: raises_only_def parseAsPathAttr_def update_exn_def)

lemma parseAggregator_raises_only [raises_intros]:
  "raises_only nlri_exn (parseAggregator cur capa a)"
  unfolding parseAggregator_def readAsn_def by (intro raises_intros) simp_all

lemma attr_loop_raises_only [raises_intros]:
  "raises_only nlri_exn (cursor_loop parseCommunity_body cur cs)"
  "raises_only nlri_exn (cursor_loop parseCluster_body cur cl)"
  "raises_only nlri_exn (cursor_loop parseExtCommunity_body cur es)"
  "raises_only nlri_exn (cursor_loop parseLargeCommunity_body cur ls)"
  by (auto simp: raises_only_def dest!: attr_loop_raises)

lemma parseAttrBody_raises_only [raises_intros]:
  "raises_only nlri_exn (parseAttrBody t cur capa a st)"
  unfolding parseAttrBody_def
  by (cases t; simp only: BgpAttrCode.case; (intro raises_intros)?; simp)

lemma checkPathAttributeFlag_raises_only [raises_intros]:
  "(\<And>c d. P (BgpUpdateMsgException c d)) \<Longrightarrow> raises_only P (checkPathAttributeFlag f t a)"
  unfolding checkPathAttributeFlag_def by (intro raises_intros)

lemma parsePathAttr_body_raises_only: "raises_only update_exn (parsePathAttr_body capa cur st)"
proof -
  have n: "nlri_exn = (\<lambda>e. e = OutOfRange \<or> update_exn e)"
    by (auto simp: fun_eq_iff nlri_exn_def update_exn_def)
  show ?thesis
    unfolding parsePathAttr_body_def
    by (rule catch_oor_raises_only, simp add: update_exn_def, fold n, intro raises_intros) simp_all
qed

interpretation attr_body: cursor_body "parsePathAttr_body capa" update_exn for capa
proof
  fix cur cur' :: cursor and s s' :: UpdateMsgParsingState
  assume "parsePathAttr_body capa cur s = Inr (s', cur')" "cur \<noteq> []"
  then show "length cur' < length cur"
    by (auto simp: parsePathAttr_body_def rbind_eq_Inr Let_def dest!: read_lengthD split: if_splits)
next
  fix cur :: cursor and s :: UpdateMsgParsingState and e
  assume "parsePathAttr_body capa cur s = Inl e"
  with parsePathAttr_body_raises_only show "update_exn e" by (rule raises_onlyD)
qed

lemma loop_attr_raises_only [raises_intros]:
  "raises_only update_exn (cursor_loop (parsePathAttr_body capa) cur st)"
  using attr_body.loop_raises by (auto simp: raises_only_def)

lemma update_exn_intro [simp]: "update_exn (BgpUpdateMsgException c d)"
  by (simp add: update_exn_def)

lemma parseNlri_raises_only [raises_intros]: "raises_only update_exn (parseNlri cur afi safi capa)"
  by (rule raises_onlyI) (drule parseNlri_raises, simp)

lemma parsePathAttributes_raises_only [raises_intros]:
  "raises_only update_exn (parsePathAttributes cur capa st)"
  by (auto simp: raises_only_def parsePathAttributes_def rbind_eq_Inl exn_simps Let_def
      dest: attr_body.loop_raises split: if_splits)

lemma parseV4Withdrawn_raises_only [raises_intros]:
  "raises_only update_exn (parseV4Withdrawn cur capa st)"
  by (auto simp: raises_only_def parseV4Withdrawn_def rbind_eq_Inl exn_simps catch_oor_eq_Inl
      Let_def dest: parseNlri_raises split: if_splits)

lemma parseV4Announced_raises_only [raises_intros]:
  "raises_only update_exn (parseV4Announced cur capa st)"
  unfolding parseV4Announced_def by (intro raises_intros)

lemma doSanityChecks_raises_only [raises_intros]: "raises_only update_exn (doSanityChecks st)"
  unfolding doSanityChecks_def by (intro raises_intros) simp_all

end
