(* ===== verification/Attr_Roundtrip.thy ===== *)
theory Attr_Roundtrip
  imports Attr_Codec
begin

text \<open>
  The path attributes \<^verbatim>\<open>serializePathAttrs\<close> writes are the ones \<^verbatim>\<open>parsePathAttributes\<close> reads.
  A reference encoding gives each attribute its own frame; the serialiser is shown equal to it, and
  each frame is one step of the attribute loop.
\<close>

subsection \<open>What the serialiser writes\<close>

definition opt_bytes :: "bool \<Rightarrow> byte list \<Rightarrow> byte list" where
  "opt_bytes c bs = (if c then bs else [])"

text \<open>An attribute with a length of one byte, and one with an extended length.\<close>

definition attr_short :: "byte \<Rightarrow> BgpAttrCode \<Rightarrow> byte list \<Rightarrow> byte list" where
  "attr_short flags t body = [flags, attr_code t] @ wr8 (int (length body)) @ body"

definition attr_ext :: "byte \<Rightarrow> BgpAttrCode \<Rightarrow> byte list \<Rightarrow> byte list" where
  "attr_ext flags t body = [flags, attr_code t] @ wr16 (int (length body)) @ body"

definition has_aggregator :: "BgpAttributes \<Rightarrow> bool" where
  "has_aggregator a \<longleftrightarrow> agg_asn (aggregator a) \<noteq> 0 \<and> agg_ip (aggregator a) \<noteq> IPEmpty"

definition as_path_bytes :: "bool \<Rightarrow> BgpAttributes \<Rightarrow> byte list" where
  "as_path_bytes as4 a = concat (map (segment_bytes as4) (asPath a))"

text \<open>The reference encoding: the attributes one after the other, each in its own frame.\<close>

definition optional_attr_bytes :: "bool \<Rightarrow> BgpAttributes \<Rightarrow> byte list" where
  "optional_attr_bytes as4 a =
     opt_bytes (isMedSet a) (attr_short 0x80 BGP_ATTR_MED (wr32 (med a))) @
     opt_bytes (localPref a \<noteq> None) (attr_short 0x40 BGP_ATTR_LOCAL_PREF (wr32 (the (localPref a)))) @
     opt_bytes (atomicAggregate a) (attr_short 0x40 BGP_ATTR_ATOMIC_AGGREGATE []) @
     opt_bytes (has_aggregator a) (attr_short 0xc0 BGP_ATTR_AGGREGATOR
       (asn_bytes as4 (agg_asn (aggregator a)) @ ip_bytes (agg_ip (aggregator a)))) @
     opt_bytes (communities a \<noteq> []) (attr_ext 0xd0 BGP_ATTR_COMMUNITIES
       (concat (map (\<lambda>c. wr16 (comm_asn c) @ wr16 (comm_value c)) (communities a)))) @
     opt_bytes (originatorId a \<noteq> 0) (attr_short 0x80 BGP_ATTR_ORIGINATOR_ID (wr32n (originatorId a))) @
     opt_bytes (clusterList a \<noteq> []) (attr_ext 0x90 BGP_ATTR_CLUSTER_LIST
       (concat (map wr32n (clusterList a)))) @
     opt_bytes (extCommunities a \<noteq> []) (attr_ext 0xd0 BGP_ATTR_EXTENDED_COMMUNITIES
       (concat (map (\<lambda>c. wr32 (firstWord c) @ wr32 (secondWord c)) (extCommunities a))))"

definition path_attr_bytes :: "BgpUpdate2 \<Rightarrow> bool \<Rightarrow> bool \<Rightarrow> byte list" where
  "path_attr_bytes u as4 v4 =
     attr_short 0x40 BGP_ATTR_ORIGIN (wr8 (origin_code (origin (attrs u)))) @
     attr_ext 0x50 BGP_ATTR_AS_PATH (as_path_bytes as4 (attrs u)) @
     opt_bytes v4 (attr_short 0x40 BGP_ATTR_NEXT_HOP (take 4 (ip_bytes (v4Nexthop u)))) @
     optional_attr_bytes as4 (attrs u)"

lemma push_eq_Inr: "push room buf bs = Inr buf' \<longleftrightarrow> buf' = buf @ bs \<and> length buf' \<le> room"
  by (auto simp: push_def)

lemma push_if_eq_Inr:
  "push_if c room bs buf = Inr buf' \<longleftrightarrow>
     buf' = buf @ opt_bytes c bs \<and> (c \<longrightarrow> length buf' \<le> room)"
  by (auto simp: push_if_def push_def opt_bytes_def)

lemma serializeAsPath_eq_Inr:
  "serializeAsPath room as4 buf segs = Inr buf' \<longleftrightarrow>
     buf' = buf @ concat (map (segment_bytes as4) segs) \<and> (segs \<noteq> [] \<longrightarrow> length buf' \<le> room) \<and>
     list_all (\<lambda>seg. numUsedSegmentTypes seg = 1) segs"
proof (induction segs arbitrary: buf)
  case (Cons seg segs)
  have "serializeAsPath room as4 buf (seg # segs) = Inr buf' \<longleftrightarrow> numUsedSegmentTypes seg = 1 \<and>
      length (buf @ segment_bytes as4 seg) \<le> room \<and>
      serializeAsPath room as4 (buf @ segment_bytes as4 seg) segs = Inr buf'"
    by (simp add: rbind_eq_Inr push_eq_Inr)
  then show ?case unfolding Cons.IH by (cases segs) auto
qed auto

lemma length_list_attr:
  "length (concat (map (\<lambda>c. wr16 (comm_asn c) @ wr16 (comm_value c)) cs)) = 4 * length cs"
  "length (concat (map wr32n cl)) = 4 * length cl"
  "length (concat (map (\<lambda>c. wr32 (firstWord c) @ wr32 (secondWord c)) es)) = 8 * length es"
proof -
  show "length (concat (map (\<lambda>c. wr16 (comm_asn c) @ wr16 (comm_value c)) cs)) = 4 * length cs"
    by (induction cs) auto
  show "length (concat (map wr32n cl)) = 4 * length cl" by (induction cl) auto
  show "length (concat (map (\<lambda>c. wr32 (firstWord c) @ wr32 (secondWord c)) es)) = 8 * length es"
    by (induction es) auto
qed

text \<open>
  \<open>writes room F bs\<close>: whatever fits in the buffer so far, \<open>F\<close> appends \<open>bs\<close> to it, or raises
  when the result would not fit.
\<close>

definition writes :: "nat \<Rightarrow> (byte list \<Rightarrow> bgp_exn + byte list) \<Rightarrow> byte list \<Rightarrow> bool" where
  "writes room F bs \<longleftrightarrow>
     (\<forall>buf. length buf \<le> room \<longrightarrow>
        F buf = (if length buf + length bs \<le> room then Inr (buf @ bs) else Inl OutOfRange))"

lemma writes_push_if: "writes room (push_if c room bs) (opt_bytes c bs)"
  by (simp add: writes_def push_if_def push_def opt_bytes_def)

lemma writes_bind:
  assumes "writes room F bs" "writes room G cs"
  shows "writes room (\<lambda>buf. rbind (F buf) G) (bs @ cs)"
  using assms by (auto simp: writes_def)

lemma writes_cong: "writes room F bs \<Longrightarrow> bs = bs' \<Longrightarrow> writes room F bs'"
  by simp

lemma writes_throw_if:
  "\<not> b \<Longrightarrow> writes room F bs \<Longrightarrow> writes room (\<lambda>buf. rbind (throw_if b e) (\<lambda>_. F buf)) bs"
  by (simp add: writes_def)

lemma serializeOptionalAttrs_writes:
  assumes agg: "has_aggregator a \<longrightarrow> isV4 (agg_ip (aggregator a))"
  shows "writes room (serializeOptionalAttrs room as4 a) (optional_attr_bytes as4 a)"
proof -
  have g: "has_aggregator a \<Longrightarrow> length (ip_bytes (agg_ip (aggregator a))) = 4"
    using agg by (cases "agg_ip (aggregator a)") auto
  have agg_bytes: "opt_bytes (has_aggregator a) (attr_short 0xc0 BGP_ATTR_AGGREGATOR
       (asn_bytes as4 (agg_asn (aggregator a)) @ ip_bytes (agg_ip (aggregator a)))) =
     opt_bytes (has_aggregator a) ([0xc0, attr_code BGP_ATTR_AGGREGATOR] @
       wr8 (4 + (if as4 then 4 else 2)) @ asn_bytes as4 (agg_asn (aggregator a))) @
     opt_bytes (has_aggregator a) (ip_bytes (agg_ip (aggregator a)))"
    by (cases "has_aggregator a") (auto simp: opt_bytes_def attr_short_def g)
  show ?thesis
    unfolding serializeOptionalAttrs_def [abs_def] Let_def has_aggregator_def [symmetric]
  proof (rule writes_cong, (rule writes_throw_if, use agg in blast | rule writes_bind writes_push_if)+)
  qed (simp add: optional_attr_bytes_def agg_bytes, simp add: attr_short_def attr_ext_def length_list_attr wr8_def)
qed

lemma serializeAsPath_writes:
  assumes "list_all (\<lambda>seg. numUsedSegmentTypes seg = 1) segs"
  shows "writes room (\<lambda>buf. serializeAsPath room as4 buf segs) (concat (map (segment_bytes as4) segs))"
  using assms
proof (induction segs)
  case Nil
  then show ?case by (simp add: writes_def)
next
  case (Cons seg segs)
  then have "writes room (\<lambda>buf. serializeAsPath room as4 buf segs) (concat (map (segment_bytes as4) segs))"
    by simp
  with Cons.prems show ?case by (auto simp: writes_def push_def)
qed

lemma serializePathAttrs_eq:
  assumes nh: "v4 \<longrightarrow> v4Nexthop u \<noteq> IPEmpty"
    and agg: "has_aggregator (attrs u) \<longrightarrow> isV4 (agg_ip (aggregator (attrs u)))"
    and seg: "list_all (\<lambda>seg. numUsedSegmentTypes seg = 1) (asPath (attrs u))"
    and len: "length (as_path_bytes as4 (attrs u)) \<le> 0xFFF"
  shows "serializePathAttrs room u as4 v4 =
     (if length (path_attr_bytes u as4 v4) \<le> room
      then Inr (path_attr_bytes u as4 v4,
                if v4 then Some (length (as_path_bytes as4 (attrs u)) + 11) else None)
      else Inl OutOfRange)"
proof -
  have l: "v4 \<Longrightarrow> length (take 4 (ip_bytes (v4Nexthop u))) = 4"
    using nh by (cases "v4Nexthop u") auto
  have o: "length buf \<le> room \<Longrightarrow> serializeOptionalAttrs room as4 (attrs u) buf =
      (if length buf + length (optional_attr_bytes as4 (attrs u)) \<le> room
       then Inr (buf @ optional_attr_bytes as4 (attrs u)) else Inl OutOfRange)" for buf
    using serializeOptionalAttrs_writes [OF agg, of room as4] by (simp add: writes_def)
  have p: "serializeAsPath r as4 [] (asPath (attrs u)) =
      (if length (as_path_bytes as4 (attrs u)) \<le> r
       then Inr (as_path_bytes as4 (attrs u)) else Inl OutOfRange)" for r
    using serializeAsPath_writes [OF seg, of r as4] by (simp add: writes_def as_path_bytes_def)
  have "serializePathAttrs room u as4 v4 =
     (if length (path_attr_bytes u as4 v4) \<le> room
      then Inr (path_attr_bytes u as4 v4,
                if v4 then Some (length (as_path_bytes as4 (attrs u)) + 11) else None)
      else Inl OutOfRange)" if v4
    using that nh len l
    by (auto simp: serializePathAttrs_def path_attr_bytes_def attr_short_def attr_ext_def opt_bytes_def
      push_def push_if_def p o Let_def wr8_def)
  moreover have "serializePathAttrs room u as4 v4 =
     (if length (path_attr_bytes u as4 v4) \<le> room
      then Inr (path_attr_bytes u as4 v4,
                if v4 then Some (length (as_path_bytes as4 (attrs u)) + 11) else None)
      else Inl OutOfRange)" if "\<not> v4"
    using that len
    by (auto simp: serializePathAttrs_def path_attr_bytes_def attr_short_def attr_ext_def opt_bytes_def
      push_def push_if_def p o Let_def wr8_def)
  ultimately show ?thesis by blast
qed

lemma serializePathAttrs_InrD:
  assumes "serializePathAttrs room u as4 v4 = Inr r"
  shows "length (as_path_bytes as4 (attrs u)) \<le> 0xFFF"
    "list_all (\<lambda>seg. numUsedSegmentTypes seg = 1) (asPath (attrs u))"
    "v4 \<longrightarrow> v4Nexthop u \<noteq> IPEmpty"
  using assms
  by (auto simp: serializePathAttrs_def rbind_eq_Inr serializeAsPath_eq_Inr as_path_bytes_def Let_def)

subsection \<open>Each frame is one step of the attribute loop\<close>

abbreviation attr_loop :: "BgpCapabilities \<Rightarrow> cursor \<Rightarrow> UpdateMsgParsingState \<Rightarrow> bgp_exn + UpdateMsgParsingState"
  where "attr_loop capa \<equiv> cursor_loop (parsePathAttr_body capa)"

definition flags_ok :: "byte \<Rightarrow> BgpAttrCode \<Rightarrow> bool" where
  "flags_ok f t \<longleftrightarrow>
     kBgpAttr_Codes_TO_FLAGS t = Some (f AND 0xc0) \<and> attr_of_code (attr_code t) = t \<and>
     \<not> (f AND BGP_ATTR_FLAG_OPTIONAL = 0 \<and> f AND BGP_ATTR_FLAG_TRANSITIVE = 0) \<and>
     f AND BGP_ATTR_FLAG_PARTIAL = 0"

lemma attr_short_step:
  assumes "flags_ok f t" "f AND BGP_ATTR_FLAG_EXTENDED = 0" "length body < 256"
    and "\<And>a. parseAttrBody t body capa a st = Inr st'"
  shows "attr_loop capa (attr_short f t body @ rest) st = attr_loop capa rest st'"
proof (rule cursor_loop_step)
  have n: "unat (word_of_nat (length body) :: byte) = length body" using assms(3) by (rule unat_cast8)
  show "parsePathAttr_body capa (attr_short f t body @ rest) st = Inr (st', rest)"
    using assms
    by (auto simp: parsePathAttr_body_def attr_short_def flags_ok_def checkPathAttributeFlag_def
        codec_simps n Let_def)
qed (simp add: attr_short_def)

lemma attr_ext_step:
  assumes "flags_ok f t" "f AND BGP_ATTR_FLAG_EXTENDED \<noteq> 0" "length body < 65536"
    and "\<And>a. parseAttrBody t body capa a st = Inr st'"
  shows "attr_loop capa (attr_ext f t body @ rest) st = attr_loop capa rest st'"
proof (rule cursor_loop_step)
  have n: "unat (word_of_nat (length body) :: u16) = length body" using assms(3) by (rule unat_cast16)
  show "parsePathAttr_body capa (attr_ext f t body @ rest) st = Inr (st', rest)"
    using assms
    by (auto simp: parsePathAttr_body_def attr_ext_def flags_ok_def checkPathAttributeFlag_def
        codec_simps n Let_def)
qed (simp add: attr_ext_def)

named_theorems attr_steps \<open>one frame is one step of the attribute loop\<close>

lemma origin_step [attr_steps]:
  "attr_loop capa (attr_short 0x40 BGP_ATTR_ORIGIN (wr8 (origin_code x)) @ rest) st =
   attr_loop capa rest ((upd_attrs (origin_update (\<lambda>_. x)) st)\<lparr>hasOriginAttr := True\<rparr>)"
  by (rule attr_short_step; cases x)
     (simp_all add: flags_ok_def parseAttrBody_def wr8_def attr_of_code_def named_attrs_def)

lemma as_path_step [attr_steps]:
  assumes "list_all (segment_ok (as4byte capa)) (asPath a)"
    and "length (as_path_bytes (as4byte capa) a) < 65536"
  shows "attr_loop capa (attr_ext 0x50 BGP_ATTR_AS_PATH (as_path_bytes (as4byte capa) a) @ rest) st =
    attr_loop capa rest ((upd_attrs (asPath_update (\<lambda>_. asPath a)) st)\<lparr>hasAsPathAttr := True\<rparr>)"
  using assms parseAsPathAttr_bytes [OF assms(1)]
  by (intro attr_ext_step)
     (simp_all add: flags_ok_def parseAttrBody_def as_path_bytes_def attr_of_code_def named_attrs_def)

lemma nexthop_step [attr_steps]:
  assumes "c \<longrightarrow> isV4 nh"
  shows "attr_loop capa (opt_bytes c (attr_short 0x40 BGP_ATTR_NEXT_HOP (take 4 (ip_bytes nh))) @ rest) st =
    attr_loop capa rest
      ((upd_attrs (\<lambda>a. a\<lparr>nexthop := if c then nh else nexthop a\<rparr>) st)
         \<lparr>ps_v4Nexthop := if c then nh else ps_v4Nexthop st\<rparr>)"
proof (cases c)
  case True
  with assms obtain w where nh: "nh = IPv4 w" by (cases nh) auto
  show ?thesis
    unfolding opt_bytes_def using True
    by (simp, intro attr_short_step)
       (simp_all add: nh flags_ok_def parseAttrBody_def attr_of_code_def named_attrs_def readBE32_def
          pull_def)
qed (simp add: opt_bytes_def)

lemmas attr_frame_simps = flags_ok_def parseAttrBody_def attr_of_code_def named_attrs_def

lemma u32_cast: "u32_ok x \<Longrightarrow> uint (word_of_int x :: u32) = x"
  by (simp add: u32_ok_def codec_simps)

lemma readBE32_wr32_Nil: "readBE32 (wr32 x) = Inr (word_of_int x, [])"
  using readBE32_wr32 [of x "[]"] by simp

lemma read32n_wr32n_Nil: "read32n (wr32n x) = Inr (word_of_int x, [])"
  using read32n_wr32n [of x "[]"] by simp

lemma med_step [attr_steps]:
  assumes "c \<longrightarrow> u32_ok m"
  shows "attr_loop capa (opt_bytes c (attr_short 0x80 BGP_ATTR_MED (wr32 m)) @ rest) st =
    attr_loop capa rest
      (upd_attrs (\<lambda>a. a\<lparr>med := if c then m else med a, isMedSet := c \<or> isMedSet a\<rparr>) st)"
proof (cases c)
  case True
  with assms show ?thesis
    unfolding opt_bytes_def
    by (simp, intro attr_short_step) (simp_all add: attr_frame_simps readBE32_wr32_Nil u32_cast)
qed (simp add: opt_bytes_def)

lemma localPref_step [attr_steps]:
  assumes "\<forall>x. lp = Some x \<longrightarrow> u32_ok x"
  shows "attr_loop capa (opt_bytes (lp \<noteq> None) (attr_short 0x40 BGP_ATTR_LOCAL_PREF (wr32 (the lp))) @ rest) st =
    attr_loop capa rest
      (upd_attrs (\<lambda>a. a\<lparr>localPref := if lp = None then localPref a else lp\<rparr>) st)"
proof (cases lp)
  case (Some x)
  with assms show ?thesis
    unfolding opt_bytes_def
    by (simp, intro attr_short_step) (simp_all add: attr_frame_simps readBE32_wr32_Nil u32_cast)
qed (simp add: opt_bytes_def)

lemma atomic_step [attr_steps]:
  "attr_loop capa (opt_bytes c (attr_short 0x40 BGP_ATTR_ATOMIC_AGGREGATE []) @ rest) st =
    attr_loop capa rest (upd_attrs (\<lambda>a. a\<lparr>atomicAggregate := c \<or> atomicAggregate a\<rparr>) st)"
proof (cases c)
  case True
  then show ?thesis
    unfolding opt_bytes_def by (simp, intro attr_short_step) (simp_all add: attr_frame_simps)
qed (simp add: opt_bytes_def)

lemma aggregator_step [attr_steps]:
  assumes "c \<longrightarrow> asn_ok (as4byte capa) (agg_asn g) \<and> isV4 (agg_ip g)"
  shows "attr_loop capa (opt_bytes c (attr_short 0xc0 BGP_ATTR_AGGREGATOR
       (asn_bytes (as4byte capa) (agg_asn g) @ ip_bytes (agg_ip g))) @ rest) st =
    attr_loop capa rest (upd_attrs (\<lambda>a. a\<lparr>aggregator := if c then g else aggregator a\<rparr>) st)"
proof (cases c)
  case True
  with assms obtain w where w: "agg_ip g = IPv4 w" by (cases "agg_ip g") auto
  have "parseAggregator (asn_bytes (as4byte capa) (agg_asn g) @ ip_bytes (agg_ip g)) capa a = Inr g" for a
    using assms True w by (cases g) (simp add: parseAggregator_def readAsn_asn_bytes readBE32_def pull_def)
  with True w show ?thesis
    unfolding opt_bytes_def by (simp, intro attr_short_step) (simp_all add: attr_frame_simps)
qed (simp add: opt_bytes_def)

lemma communities_step [attr_steps]:
  assumes "list_all (\<lambda>c. u16_ok (comm_asn c) \<and> u16_ok (comm_value c)) cs" "4 * length cs < 65536"
  shows "attr_loop capa (opt_bytes (cs \<noteq> []) (attr_ext 0xd0 BGP_ATTR_COMMUNITIES
       (concat (map (\<lambda>c. wr16 (comm_asn c) @ wr16 (comm_value c)) cs))) @ rest) st =
    attr_loop capa rest (upd_attrs (\<lambda>a. a\<lparr>communities := communities a @ cs\<rparr>) st)"
proof (cases "cs = []")
  case False
  with assms community.loop_enc [OF assms(1)] show ?thesis
    unfolding opt_bytes_def
    by (simp, intro attr_ext_step) (simp_all add: attr_frame_simps length_list_attr fold_snoc)
qed (simp add: opt_bytes_def)

lemma originator_step [attr_steps]:
  assumes "u32_ok x"
  shows "attr_loop capa (opt_bytes (x \<noteq> 0) (attr_short 0x80 BGP_ATTR_ORIGINATOR_ID (wr32n x)) @ rest) st =
    attr_loop capa rest
      (upd_attrs (\<lambda>a. a\<lparr>originatorId := if x = 0 then originatorId a else x\<rparr>) st)"
proof (cases "x = 0")
  case False
  with assms show ?thesis
    unfolding opt_bytes_def
    by (simp, intro attr_short_step) (simp_all add: attr_frame_simps read32n_wr32n_Nil u32_cast)
qed (simp add: opt_bytes_def)

lemma clusterList_step [attr_steps]:
  assumes "list_all u32_ok cl" "4 * length cl < 65536"
  shows "attr_loop capa (opt_bytes (cl \<noteq> []) (attr_ext 0x90 BGP_ATTR_CLUSTER_LIST
       (concat (map wr32n cl))) @ rest) st =
    attr_loop capa rest (upd_attrs (\<lambda>a. a\<lparr>clusterList := clusterList a @ cl\<rparr>) st)"
proof (cases "cl = []")
  case False
  with assms cluster.loop_enc [OF assms(1)] show ?thesis
    unfolding opt_bytes_def
    by (simp, intro attr_ext_step) (simp_all add: attr_frame_simps length_list_attr fold_snoc)
qed (simp add: opt_bytes_def)

lemma extCommunities_step [attr_steps]:
  assumes "list_all (\<lambda>c. u32_ok (firstWord c) \<and> u32_ok (secondWord c)) es" "8 * length es < 65536"
  shows "attr_loop capa (opt_bytes (es \<noteq> []) (attr_ext 0xd0 BGP_ATTR_EXTENDED_COMMUNITIES
       (concat (map (\<lambda>c. wr32 (firstWord c) @ wr32 (secondWord c)) es))) @ rest) st =
    attr_loop capa rest (upd_attrs (\<lambda>a. a\<lparr>extCommunities := extCommunities a @ es\<rparr>) st)"
proof (cases "es = []")
  case False
  with assms extcomm.loop_enc [OF assms(1)] show ?thesis
    unfolding opt_bytes_def
    by (simp, intro attr_ext_step) (simp_all add: attr_frame_simps length_list_attr fold_snoc)
qed (simp add: opt_bytes_def)

subsection \<open>Properties\<close>

text \<open>The attributes fit the widths of the wire format.\<close>

definition attrs_ok :: "bool \<Rightarrow> BgpAttributes \<Rightarrow> bool" where
  "attrs_ok as4 a \<longleftrightarrow>
     list_all (segment_ok as4) (asPath a) \<and> (isMedSet a \<longrightarrow> u32_ok (med a)) \<and>
     (case localPref a of None \<Rightarrow> True | Some x \<Rightarrow> u32_ok x) \<and>
     (has_aggregator a \<longrightarrow> asn_ok as4 (agg_asn (aggregator a)) \<and> isV4 (agg_ip (aggregator a))) \<and>
     list_all (\<lambda>c. u16_ok (comm_asn c) \<and> u16_ok (comm_value c)) (communities a) \<and>
     u32_ok (originatorId a) \<and> list_all u32_ok (clusterList a) \<and>
     list_all (\<lambda>c. u32_ok (firstWord c) \<and> u32_ok (secondWord c)) (extCommunities a)"

text \<open>
  What of the attributes is on the wire: the next hop only for classical IPv4 announcements, the
  MED only when it is set, the aggregator only when both of its parts are, and neither
  large communities nor the local weight.
\<close>

definition wire_attrs :: "bool \<Rightarrow> ipaddr \<Rightarrow> BgpAttributes \<Rightarrow> BgpAttributes" where
  "wire_attrs v4 nh a =
     a\<lparr>nexthop := if v4 then nh else IPEmpty, med := if isMedSet a then med a else 0,
       aggregator := if has_aggregator a then aggregator a else aggregator default_attrs,
       largeCommunities := [], weight := 0\<rparr>"

lemma length_opt_bytes: "c \<Longrightarrow> length (opt_bytes c bs) = length bs"
  by (simp add: opt_bytes_def)

lemma path_attr_bytes_lengths:
  assumes "length (path_attr_bytes u as4 v4) < 65536"
  shows "length (as_path_bytes as4 (attrs u)) < 65536"
    "4 * length (communities (attrs u)) < 65536"
    "4 * length (clusterList (attrs u)) < 65536"
    "8 * length (extCommunities (attrs u)) < 65536"
proof -
  let ?a = "attrs u"
  show "length (as_path_bytes as4 ?a) < 65536"
    using assms by (simp add: path_attr_bytes_def attr_ext_def)
  have o: "length (optional_attr_bytes as4 ?a) < 65536"
    using assms by (simp add: path_attr_bytes_def)
  show "4 * length (communities ?a) < 65536"
    using o by (cases "communities ?a = []")
      (simp_all add: optional_attr_bytes_def length_opt_bytes attr_ext_def length_list_attr)
  show "4 * length (clusterList ?a) < 65536"
    using o by (cases "clusterList ?a = []")
      (simp_all add: optional_attr_bytes_def length_opt_bytes attr_ext_def length_list_attr)
  show "8 * length (extCommunities ?a) < 65536"
    using o by (cases "extCommunities ?a = []")
      (simp_all add: optional_attr_bytes_def length_opt_bytes attr_ext_def length_list_attr)
qed

lemma path_attr_bytes_loop:
  assumes ok: "attrs_ok (as4byte capa) (attrs u)" and nh: "v4 \<longrightarrow> isV4 (v4Nexthop u)"
    and len: "length (path_attr_bytes u (as4byte capa) v4) < 65536"
    and st: "ps_attrs st = default_attrs" "ps_v4Nexthop st = IPEmpty"
  shows "attr_loop capa (path_attr_bytes u (as4byte capa) v4 @ rest) st =
    attr_loop capa rest
      (st\<lparr>ps_attrs := wire_attrs v4 (v4Nexthop u) (attrs u),
          ps_v4Nexthop := if v4 then v4Nexthop u else IPEmpty,
          hasOriginAttr := True, hasAsPathAttr := True\<rparr>)"
proof -
  have lp: "\<forall>x. localPref (attrs u) = Some x \<longrightarrow> u32_ok x"
    using ok by (auto simp: attrs_ok_def)
  show ?thesis
    using ok nh lp path_attr_bytes_lengths [OF len] st
    by (cases st, cases "attrs u")
       (simp add: attrs_ok_def path_attr_bytes_def optional_attr_bytes_def attr_steps wire_attrs_def
          default_attrs_def del: not_None_eq)
qed

text \<open>A frame with a body of four bytes, its length byte written out.\<close>

lemma attr_short_numeral:
  "length body = 4 \<Longrightarrow> attr_short f t body = [f, attr_code t, 4] @ body"
  by (simp add: attr_short_def wr8_def)

lemma attrs_okD:
  assumes "attrs_ok as4 a"
  shows "list_all (\<lambda>seg. numUsedSegmentTypes seg = 1) (asPath a)"
    "has_aggregator a \<longrightarrow> isV4 (agg_ip (aggregator a))"
  using assms by (auto simp: attrs_ok_def segment_ok_def list_all_iff)

lemma parsePathAttributes_step:
  assumes "0 < length bs" "length bs < 65536"
    and "attr_loop capa bs
           ((upd_attrs (isMedSet_update (\<lambda>_. False)) st)\<lparr>paLen := length bs\<rparr>) = Inr st'"
  shows "parsePathAttributes (wr16 (int (length bs)) @ bs @ rest) capa st = Inr (st', rest)"
proof -
  have "unat (word_of_nat (length bs) :: u16) = length bs" using assms(2) by (rule unat_cast16)
  with assms show ?thesis by (simp add: parsePathAttributes_def codec_simps Let_def)
qed

lemma nexthop_offset:
  assumes "isV4 (v4Nexthop u)"
  shows "take 4 (drop (length (as_path_bytes as4 (attrs u)) + 11) (path_attr_bytes u as4 True)) =
    ip_bytes (v4Nexthop u)"
proof -
  let ?pre = "attr_short 0x40 BGP_ATTR_ORIGIN (wr8 (origin_code (origin (attrs u)))) @
     attr_ext 0x50 BGP_ATTR_AS_PATH (as_path_bytes as4 (attrs u)) @ [0x40, 3, 4]"
  from assms have "path_attr_bytes u as4 True =
      ?pre @ ip_bytes (v4Nexthop u) @ optional_attr_bytes as4 (attrs u)"
    "length (ip_bytes (v4Nexthop u)) = 4"
    by (cases "v4Nexthop u"; simp add: path_attr_bytes_def opt_bytes_def attr_short_numeral)+
  moreover have "length ?pre = length (as_path_bytes as4 (attrs u)) + 11"
    by (simp add: attr_short_def attr_ext_def)
  ultimately show ?thesis by (metis append_eq_conv_conj append_take_drop_id)
qed


definition sample_update :: BgpUpdate2 where
  "sample_update =
     \<lparr>attrs = default_attrs
        \<lparr>asPath := [empty_segment\<lparr>asSequence := [65001, 70000]\<rparr>, empty_segment\<lparr>asSet := {3, 1}\<rparr>],
         med := 5, isMedSet := True, localPref := Some 100,
         communities := [\<lparr>comm_asn = 65530, comm_value = 12\<rparr>],
         largeCommunities := [\<lparr>lc_asn = 1, localData1 = 2, localData2 = 3\<rparr>]\<rparr>,
      mpAnnounced = \<lparr>nlri_afi = AFI_IPv6, nlri_safi = SAFI_UNICAST, prefixes = [], nlri_nexthop = IPEmpty\<rparr>,
      mpWithdrawn = \<lparr>nlri_afi = AFI_IPv6, nlri_safi = SAFI_UNICAST, prefixes = [], nlri_nexthop = IPEmpty\<rparr>,
      v4Announced = [], v4Withdrawn = [], v4Nexthop = IPv4 0x0A000001,
      v4Announced2 = [\<lparr>prefix = (IPv4 0x0A010000, 16), labels = [], pathId = None\<rparr>],
      v4Withdrawn2 = []\<rparr>"


lemma ensures_case_afi [ensures_intros]:
  "ensures Q a \<Longrightarrow> ensures Q b \<Longrightarrow> ensures Q c \<Longrightarrow> (\<And>n. ensures Q (d n)) \<Longrightarrow>
     ensures Q (case afi of AFI_IPv4 \<Rightarrow> a | AFI_IPv6 \<Rightarrow> b | AFI_LS \<Rightarrow> c | AFI_unnamed n \<Rightarrow> d n)"
  by (cases afi) auto

text \<open>What the attribute loop leaves alone.\<close>

definition msg_frame ::
  "UpdateMsgParsingState \<Rightarrow> nat \<times> nat \<times> RiggedIPPrefix list \<times> RiggedIPPrefix list" where
  "msg_frame st = (paLen st, v4WithdrawnLen st, ps_v4Withdrawn st, ps_v4Announced st)"

lemma parseMpReach_frame: "ensures (\<lambda>st'. msg_frame st' = msg_frame st) (parseMpReach cur capa a st)"
  unfolding parseMpReach_def msg_frame_def by (intro ensures_intros) simp_all

lemma parseMpUnreach_frame: "ensures (\<lambda>st'. msg_frame st' = msg_frame st) (parseMpUnreach cur capa a st)"
  unfolding parseMpUnreach_def msg_frame_def by (intro ensures_intros) simp_all

lemma parseAttrBody_frame: "ensures (\<lambda>st'. msg_frame st' = msg_frame st) (parseAttrBody t cur capa a st)"
  unfolding parseAttrBody_def
  by (cases t; simp only: BgpAttrCode.case;
      intro ensures_intros parseMpReach_frame parseMpUnreach_frame; simp add: msg_frame_def)

interpretation attr_frame: cursor_invariant "parsePathAttr_body capa" "\<lambda>st. msg_frame st = f" for capa f
  by unfold_locales
     (auto simp: parsePathAttr_body_def rbind_eq_Inr Let_def
        dest!: ensuresD [OF parseAttrBody_frame] split: if_splits)

lemma attr_loop_frame: "attr_loop capa cur st = Inr st' \<Longrightarrow> msg_frame st' = msg_frame st"
  using attr_frame.loop_keeps [of capa cur st st' "msg_frame st"] by simp


end
