(* ===== verification/Header_Codec.thy ===== *)
theory Header_Codec
  imports Attr_Roundtrip
begin

text \<open>
  The common message header (\<^verbatim>\<open>parseBgpMsgHdr\<close>, \<^verbatim>\<open>consumeBgpMsgHdr\<close> of
  \<^verbatim>\<open>lib/BgpMessageParser.cpp\<close>, \<^verbatim>\<open>serializeBgpHeader\<close> of \<^verbatim>\<open>lib/BgpMessageSerializer.cpp\<close>) and the
  messages without variable structure: NOTIFICATION, KEEPALIVE and ROUTE-REFRESH.

  \<^verbatim>\<open>errSubCodeStr\<close> of a notification is display text and is not modelled.
\<close>

subsection \<open>The header\<close>

datatype BgpMessageType =
  BGP_MSG_TYPE_OPEN | BGP_MSG_TYPE_UPDATE | BGP_MSG_TYPE_NOTIFICATION | BGP_MSG_TYPE_KEEPALIVE
  | BGP_MSG_TYPE_ROUTE_REFRESH

fun msg_type_code :: "BgpMessageType \<Rightarrow> byte" where
  "msg_type_code BGP_MSG_TYPE_OPEN = 1"
| "msg_type_code BGP_MSG_TYPE_UPDATE = 2"
| "msg_type_code BGP_MSG_TYPE_NOTIFICATION = 3"
| "msg_type_code BGP_MSG_TYPE_KEEPALIVE = 4"
| "msg_type_code BGP_MSG_TYPE_ROUTE_REFRESH = 5"

record BgpMessageHeader =
  hdr_length :: nat
  hdr_type :: byte

definition parseBgpMsgHdr ::
  "cursor \<Rightarrow> BgpMessageType option \<Rightarrow> bgp_exn + BgpMessageHeader" where
  "parseBgpMsgHdr cursor msgType =
     (let msglen = length cursor in
      rbind (throw_if (msglen < kBgpMsgHeaderLen)
               (BgpHeaderException BN_MH_BAD_MSG_LEN (wr16 (int msglen)))) (\<lambda>_.
      rbind (pull 16 cursor) (\<lambda>(marker, cursor).
      rbind (throw_if (marker \<noteq> kBgpMarker)
               (BgpHeaderException BN_MH_CONNECTION_NOT_SYNCHRONIZED [])) (\<lambda>_.
      rbind (readBE16 cursor) (\<lambda>(len, cursor).
      rbind (read_u8 cursor) (\<lambda>(type, cursor).
      rbind (throw_if (unat len < kBgpMsgHeaderLen \<or> unat len > kMaxBgpMsgLen)
               (BgpHeaderException BN_MH_BAD_MSG_LEN (wr16 (uint len)))) (\<lambda>_.
      rbind (throw_if (case msgType of None \<Rightarrow> False | Some t \<Rightarrow> type \<noteq> msg_type_code t)
               (BgpHeaderException BN_MH_BAD_MSG_TYPE [type])) (\<lambda>_.
      Inr \<lparr>hdr_length = unat len, hdr_type = type\<rparr>))))))))"

definition consumeBgpMsgHdr ::
  "cursor \<Rightarrow> BgpMessageType option \<Rightarrow> bgp_exn + (BgpMessageHeader \<times> cursor)" where
  "consumeBgpMsgHdr cursor msgType =
     (let readable = length cursor in
      rbind (parseBgpMsgHdr cursor msgType) (\<lambda>hdr.
      rbind (skip kBgpMsgHeaderLen cursor) (\<lambda>cursor.
      rbind (throw_if (hdr_length hdr > readable)
               (BgpHeaderException BN_MH_BAD_MSG_LEN (wr16 (int (hdr_length hdr))))) (\<lambda>_.
      Inr (hdr, cursor)))))"

text \<open>
  \<open>body\<close> is what stands between the header and the tail cursor; the length is a
  \<^verbatim>\<open>uint16_t\<close>.
\<close>

definition serializeBgpHeader :: "BgpMessageType \<Rightarrow> byte list \<Rightarrow> bgp_exn + byte list" where
  "serializeBgpHeader msgType body =
     (let msgLen = (kBgpMsgHeaderLen + length body) mod 2 ^ 16 in
      rbind (throw_if (msgLen > kMaxBgpMsgLen) (BgpSerializerException EXCEEDED_MAX_SIZE)) (\<lambda>_.
      Inr (kBgpMarker @ wr16 (int msgLen) @ [msg_type_code msgType] @ body)))"

text \<open>A message buffer has \<open>kMaxBgpMsgLen\<close> bytes; writing a body that does not fit raises.\<close>

definition serializeBgpMsg :: "BgpMessageType \<Rightarrow> byte list \<Rightarrow> bgp_exn + byte list" where
  "serializeBgpMsg msgType body =
     rbind (push (kMaxBgpMsgLen - kBgpMsgHeaderLen) [] body) (serializeBgpHeader msgType)"

subsection \<open>NOTIFICATION\<close>

definition notif_of_code :: "byte \<Rightarrow> BgpNotifErrCode option" where
  "notif_of_code b =
     (if b = 1 then Some BN_MSG_HDR_ERR else if b = 2 then Some BN_OPEN_MSG_ERR
      else if b = 3 then Some BN_UPDATE_MSG_ERR else if b = 4 then Some BN_HOLD_TIMER_EXPIRED
      else if b = 5 then Some BN_FSM_ERROR else if b = 6 then Some BN_CEASE
      else if b = 7 then Some BN_ROUTE_REFRESH_MSG_ERR else None)"

text \<open>The largest subcode accepted for an error code; every subcode for two of the codes.\<close>

fun max_subcode :: "BgpNotifErrCode \<Rightarrow> nat" where
  "max_subcode BN_MSG_HDR_ERR = 3"
| "max_subcode BN_OPEN_MSG_ERR = 7"
| "max_subcode BN_UPDATE_MSG_ERR = 11"
| "max_subcode BN_HOLD_TIMER_EXPIRED = 255"
| "max_subcode BN_FSM_ERROR = 255"
| "max_subcode BN_CEASE = 9"
| "max_subcode BN_ROUTE_REFRESH_MSG_ERR = 0"

definition consumeBgpNotificationBody :: "cursor \<Rightarrow> bgp_exn + BgpNotification" where
  "consumeBgpNotificationBody cursor =
     rbind (read_u8 cursor) (\<lambda>(code, cursor).
     rbind (read_u8 cursor) (\<lambda>(subCode, cursor).
     case notif_of_code code of
       None \<Rightarrow> Inl BgpException
     | Some c \<Rightarrow>
         rbind (throw_if (unat subCode > max_subcode c) BgpException) (\<lambda>_.
         Inr \<lparr>errCode = c, errSubCode = uint subCode, notif_data = cursor\<rparr>)))"

definition parseBgpNotificationRaw :: "cursor \<Rightarrow> bgp_exn + BgpNotification" where
  "parseBgpNotificationRaw buf =
     rbind (consumeBgpMsgHdr buf (Some BGP_MSG_TYPE_NOTIFICATION)) (\<lambda>(hdr, cursor).
     rbind (throw_if (hdr_length hdr < kBgpMsgHeaderLen + 2)
              (BgpHeaderException BN_MH_BAD_MSG_LEN (wr16 (int (hdr_length hdr))))) (\<lambda>_.
     consumeBgpNotificationBody cursor))"

definition serializeBgpNotificationBody :: "BgpNotification \<Rightarrow> byte list" where
  "serializeBgpNotificationBody notif =
     wr8 (notif_code (errCode notif)) @ wr8 (errSubCode notif) @ notif_data notif"

definition serializeBgpNotification :: "BgpNotification \<Rightarrow> bgp_exn + byte list" where
  "serializeBgpNotification notif =
     serializeBgpMsg BGP_MSG_TYPE_NOTIFICATION (serializeBgpNotificationBody notif)"

subsection \<open>KEEPALIVE and ROUTE-REFRESH\<close>

definition parseBgpKeepAliveRaw :: "cursor \<Rightarrow> bgp_exn + unit" where
  "parseBgpKeepAliveRaw buf =
     rbind (consumeBgpMsgHdr buf (Some BGP_MSG_TYPE_KEEPALIVE)) (\<lambda>(hdr, cursor).
     throw_if (hdr_length hdr \<noteq> kBgpMsgHeaderLen)
       (BgpHeaderException BN_MH_BAD_MSG_LEN (wr16 (int (hdr_length hdr)))))"

definition serializeBgpKeepAlive :: "bgp_exn + byte list" where
  "serializeBgpKeepAlive = serializeBgpMsg BGP_MSG_TYPE_KEEPALIVE []"

definition parseBgpRouteRefreshRaw :: "cursor \<Rightarrow> bgp_exn + BgpRouteRefresh" where
  "parseBgpRouteRefreshRaw buf =
     rbind (consumeBgpMsgHdr buf (Some BGP_MSG_TYPE_ROUTE_REFRESH)) (\<lambda>(hdr, cursor).
     rbind (readBE16 cursor) (\<lambda>(afi, cursor).
     rbind (read_u8 cursor) (\<lambda>(msgSubType, cursor).
     rbind (read_u8 cursor) (\<lambda>(safi, cursor).
     rbind (throw_if (hdr_length hdr \<noteq> kBgpMsgHeaderLen + 4 \<and> (msgSubType = 1 \<or> msgSubType = 2))
              (BgpRouteRefreshMsgException (wr16 (int (hdr_length hdr))))) (\<lambda>_.
     Inr \<lparr>rr_afi = afi_of_code (uint afi), rr_subtype = rr_subtype_of_code (uint msgSubType),
          rr_safi = safi_of_code (uint safi)\<rparr>)))))"

definition serializeBgpRouteRefresh :: "BgpRouteRefresh \<Rightarrow> bgp_exn + byte list" where
  "serializeBgpRouteRefresh rr =
     serializeBgpMsg BGP_MSG_TYPE_ROUTE_REFRESH
       (wr16 (afi_code (rr_afi rr)) @ wr8 (rr_subtype_code (rr_subtype rr)) @
        wr8 (safi_code (rr_safi rr)))"

subsection \<open>Rules for the header\<close>

lemma msg_type_code_inject [simp]: "msg_type_code t = msg_type_code t' \<longleftrightarrow> t = t'"
  by (cases t; cases t') auto

definition msg_bytes :: "BgpMessageType \<Rightarrow> byte list \<Rightarrow> byte list" where
  "msg_bytes t body =
     kBgpMarker @ wr16 (int (kBgpMsgHeaderLen + length body)) @ [msg_type_code t] @ body"

lemma length_msg_bytes: "length (msg_bytes t body) = kBgpMsgHeaderLen + length body"
  by (simp add: msg_bytes_def kBgpMarker_def kBgpMsgHeaderLen_def)

lemma serializeBgpMsg_eq:
  "serializeBgpMsg t body =
     (if length body \<le> kMaxBgpMsgLen - kBgpMsgHeaderLen then Inr (msg_bytes t body)
      else Inl OutOfRange)"
  by (simp add: serializeBgpMsg_def push_def serializeBgpHeader_def msg_bytes_def bgp_consts)

lemma parseBgpMsgHdr_msg_bytes:
  assumes "length body \<le> kMaxBgpMsgLen - kBgpMsgHeaderLen"
  shows "parseBgpMsgHdr (msg_bytes t body @ rest) mt =
     (if mt = None \<or> mt = Some t
      then Inr \<lparr>hdr_length = kBgpMsgHeaderLen + length body, hdr_type = msg_type_code t\<rparr>
      else Inl (BgpHeaderException BN_MH_BAD_MSG_TYPE [msg_type_code t]))"
proof -
  have m: "pull 16 (kBgpMarker @ r) = Inr (kBgpMarker, r)" for r
    by (rule pull_append) (simp add: kBgpMarker_def)
  have n: "unat (word_of_nat (19 + length body) :: u16) = 19 + length body"
    using assms by (intro unat_cast16) (simp add: bgp_consts)
  have "length kBgpMarker = 16" by (simp add: kBgpMarker_def)
  with assms show ?thesis
    using n by (auto simp: parseBgpMsgHdr_def msg_bytes_def m codec_simps bgp_consts Let_def
        split: option.splits)
qed

lemma consumeBgpMsgHdr_msg_bytes:
  assumes "length body \<le> kMaxBgpMsgLen - kBgpMsgHeaderLen"
  shows "consumeBgpMsgHdr (msg_bytes t body @ rest) (Some t) =
     Inr (\<lparr>hdr_length = kBgpMsgHeaderLen + length body, hdr_type = msg_type_code t\<rparr>, body @ rest)"
proof -
  have "skip kBgpMsgHeaderLen (msg_bytes t body @ rest) = Inr (body @ rest)"
    using skip_append [of "kBgpMarker @ wr16 (int (kBgpMsgHeaderLen + length body)) @ [msg_type_code t]"
        kBgpMsgHeaderLen "body @ rest"]
    by (simp add: msg_bytes_def kBgpMarker_def kBgpMsgHeaderLen_def)
  with assms show ?thesis
    by (simp add: consumeBgpMsgHdr_def parseBgpMsgHdr_msg_bytes length_msg_bytes Let_def)
qed

text \<open>A header is returned only for the marker and a length between 19 and 4096.\<close>

lemma parseBgpMsgHdr_InrD:
  assumes "parseBgpMsgHdr cursor mt = Inr hdr"
  shows "kBgpMsgHeaderLen \<le> length cursor" "take 16 cursor = kBgpMarker"
    "hdr_type hdr = cursor ! 18" "kBgpMsgHeaderLen \<le> hdr_length hdr" "hdr_length hdr \<le> kMaxBgpMsgLen"
    "mt = Some t \<Longrightarrow> hdr_type hdr = msg_type_code t"
  using assms
  by (auto simp: parseBgpMsgHdr_def rbind_eq_Inr Let_def readBE16_def pull_def read_u8_def
      numeral_eq_Suc nth_via_drop split: if_splits list.splits)

definition header_exn :: "bgp_exn \<Rightarrow> bool" where
  "header_exn e \<longleftrightarrow> (\<exists>c d. e = BgpHeaderException c d)"

lemma header_exn_intro [simp]: "header_exn (BgpHeaderException c d)"
  by (simp add: header_exn_def)

lemma parseBgpMsgHdr_raises_only [raises_intros]: "raises_only header_exn (parseBgpMsgHdr cursor mt)"
  by (auto simp: raises_only_def parseBgpMsgHdr_def rbind_eq_Inl exn_simps Let_def
      kBgpMsgHeaderLen_def dest!: read_lengthD)

lemma consumeBgpMsgHdr_InrD:
  assumes "consumeBgpMsgHdr cursor mt = Inr (hdr, cursor')"
  shows "parseBgpMsgHdr cursor mt = Inr hdr" "cursor' = drop kBgpMsgHeaderLen cursor"
    "hdr_length hdr \<le> length cursor"
  using assms by (auto simp: consumeBgpMsgHdr_def rbind_eq_Inr Let_def dest!: skip_InrD)

lemma consumeBgpMsgHdr_raises_only [raises_intros]:
  "raises_only header_exn (consumeBgpMsgHdr cursor mt)"
proof (rule raises_onlyI)
  fix e assume "consumeBgpMsgHdr cursor mt = Inl e"
  then show "header_exn e"
    by (auto simp: consumeBgpMsgHdr_def rbind_eq_Inl exn_simps Let_def
        dest: raises_onlyD [OF parseBgpMsgHdr_raises_only] parseBgpMsgHdr_InrD(1))
qed

subsection \<open>The fixed messages survive the round trip\<close>

lemma notif_of_code_code [simp]: "notif_of_code (word_of_int (notif_code c)) = Some c"
  by (cases c) (auto simp: notif_of_code_def)

definition notification_ok :: "BgpNotification \<Rightarrow> bool" where
  "notification_ok n \<longleftrightarrow>
     0 \<le> errSubCode n \<and> errSubCode n \<le> int (max_subcode (errCode n)) \<and>
     length (notif_data n) \<le> kMaxBgpMsgLen - kBgpMsgHeaderLen - 2"

lemma max_subcode_le: "max_subcode c \<le> 255"
  by (cases c) auto

lemma notification_roundtrip:
  assumes "notification_ok n"
  shows "\<exists>bs. serializeBgpNotification n = Inr bs \<and> bs = msg_bytes BGP_MSG_TYPE_NOTIFICATION
             (serializeBgpNotificationBody n) \<and> parseBgpNotificationRaw bs = Inr n"
proof -
  let ?body = "serializeBgpNotificationBody n"
  have l: "length ?body \<le> kMaxBgpMsgLen - kBgpMsgHeaderLen"
    using assms by (simp add: notification_ok_def serializeBgpNotificationBody_def bgp_consts)
  have s: "uint (word_of_int (errSubCode n) :: byte) = errSubCode n"
    using assms max_subcode_le [of "errCode n"] by (intro uint_cast) (auto simp: notification_ok_def)
  then have "unat (word_of_int (errSubCode n) :: byte) \<le> max_subcode (errCode n)"
    using assms by (simp add: notification_ok_def unat_eq_nat_uint nat_le_iff)
  then have "consumeBgpNotificationBody ?body = Inr n"
    using s by (cases n)
      (auto simp: consumeBgpNotificationBody_def serializeBgpNotificationBody_def codec_simps)
  with l consumeBgpMsgHdr_msg_bytes [OF l, of BGP_MSG_TYPE_NOTIFICATION "[]"] show ?thesis
    by (simp add: serializeBgpNotification_def serializeBgpMsg_eq parseBgpNotificationRaw_def
        serializeBgpNotificationBody_def)
qed

lemma keepalive_roundtrip:
  "\<exists>bs. serializeBgpKeepAlive = Inr bs \<and> bs = msg_bytes BGP_MSG_TYPE_KEEPALIVE [] \<and>
        parseBgpKeepAliveRaw bs = Inr ()"
  using consumeBgpMsgHdr_msg_bytes [of "[]" BGP_MSG_TYPE_KEEPALIVE "[]"]
  by (simp add: serializeBgpKeepAlive_def serializeBgpMsg_eq parseBgpKeepAliveRaw_def)

definition route_refresh_ok :: "BgpRouteRefresh \<Rightarrow> bool" where
  "route_refresh_ok rr \<longleftrightarrow>
     afi_named (rr_afi rr) \<and> safi_named (rr_safi rr) \<and>
     rr_subtype rr \<in> {ROUTE_REFRESH_REQUEST, BEGINNING_OF_ROUTE_REFRESH, END_OF_ROUTE_REFRESH}"

lemma afi_cast: "afi_named a \<Longrightarrow> uint (word_of_int (afi_code a) :: u16) = afi_code a"
  using afi_named_bounds [of a] by (intro uint_cast) auto

lemma safi_cast:
  "safi_named a \<Longrightarrow> uint (word_of_int (safi_code a) :: byte) = safi_code a"
  using safi_named_bounds [of a] by (intro uint_cast) auto

lemma route_refresh_roundtrip:
  assumes "route_refresh_ok rr"
  shows "\<exists>bs body. serializeBgpRouteRefresh rr = Inr bs \<and> length body = 4 \<and>
           bs = msg_bytes BGP_MSG_TYPE_ROUTE_REFRESH body \<and> parseBgpRouteRefreshRaw bs = Inr rr"
proof -
  let ?body = "wr16 (afi_code (rr_afi rr)) @ wr8 (rr_subtype_code (rr_subtype rr)) @
        wr8 (safi_code (rr_safi rr))"
  have l: "length ?body = 4" by simp
  then have l': "length ?body \<le> kMaxBgpMsgLen - kBgpMsgHeaderLen" by (simp add: bgp_consts)
  have st: "rr_subtype_of_code (uint (word_of_int (rr_subtype_code (rr_subtype rr)) :: byte)) = rr_subtype rr"
    using assms by (auto simp: route_refresh_ok_def rr_subtype_of_code_def)
  have "parseBgpRouteRefreshRaw (msg_bytes BGP_MSG_TYPE_ROUTE_REFRESH ?body) = Inr rr"
    using consumeBgpMsgHdr_msg_bytes [OF l', of BGP_MSG_TYPE_ROUTE_REFRESH "[]"] assms st
      read_u8_wr8 [of _ "[]"]
    by (cases rr) (simp add: parseBgpRouteRefreshRaw_def codec_simps route_refresh_ok_def afi_cast safi_cast)
  with l l' show ?thesis
    by (intro exI [of _ "msg_bytes BGP_MSG_TYPE_ROUTE_REFRESH ?body"] exI [of _ ?body])
       (simp add: serializeBgpRouteRefresh_def serializeBgpMsg_eq)
qed

end
