(* ===== verification/Open_Codec.thy ===== *)
theory Open_Codec
  imports Header_Codec
begin

text \<open>
  OPEN messages and capabilities: \<^verbatim>\<open>parseBgpCapabilities\<close> of
  \<^verbatim>\<open>lib/detail/BgpMessageParserUtils.cpp\<close>, \<^verbatim>\<open>parseBgpOpenMsgRaw\<close> of \<^verbatim>\<open>lib/BgpMessageParser.cpp\<close>
  and \<^verbatim>\<open>serializeBgpOpenMsg\<close> of \<^verbatim>\<open>lib/BgpMessageSerializer.cpp\<close>.
\<close>

unbundle bit_operations_syntax

abbreviation CAPA_MP_EXT :: byte where "CAPA_MP_EXT \<equiv> 1"
abbreviation CAPA_ROUTE_REFRESH :: byte where "CAPA_ROUTE_REFRESH \<equiv> 2"
abbreviation CAPA_EXT_NH_ENCODING :: byte where "CAPA_EXT_NH_ENCODING \<equiv> 5"
abbreviation CAPA_GR :: byte where "CAPA_GR \<equiv> 64"
abbreviation CAPA_AS4_BYTE :: byte where "CAPA_AS4_BYTE \<equiv> 65"
abbreviation CAPA_ADD_PATH :: byte where "CAPA_ADD_PATH \<equiv> 69"
abbreviation CAPA_ENHANCED_ROUTE_REFRESH :: byte where "CAPA_ENHANCED_ROUTE_REFRESH \<equiv> 70"

abbreviation kGrRestartStateBit :: u16 where "kGrRestartStateBit \<equiv> 0x8000"
abbreviation kGrNotificationBit :: u16 where "kGrNotificationBit \<equiv> 0x4000"
abbreviation kGrRestartTimeMask :: u16 where "kGrRestartTimeMask \<equiv> 0x0fff"

abbreviation open_unspecific :: bgp_exn where
  "open_unspecific \<equiv> BgpOpenMsgException BN_OM_UNSPECIFIC []"

subsection \<open>Parsing capabilities\<close>

definition parseMpExt :: "nat \<Rightarrow> cursor \<Rightarrow> BgpCapabilities \<Rightarrow> bgp_exn + BgpCapabilities" where
  "parseMpExt cLen cursor capa =
     rbind (throw_if (cLen \<noteq> 4) open_unspecific) (\<lambda>_.
     rbind (readBE16 cursor) (\<lambda>(afi, cursor).
     rbind (skip 1 cursor) (\<lambda>cursor.
     rbind (read_u8 cursor) (\<lambda>(safi, cursor).
     rbind (if uint afi = afi_code AFI_IPv4
            then (if uint safi = safi_code SAFI_UNICAST then Inr (capa\<lparr>mpExtV4Unicast := True\<rparr>)
                  else if uint safi = safi_code SAFI_LABELED_UNICAST then Inr (capa\<lparr>mpExtV4LU := True\<rparr>)
                  else Inl open_unspecific)
            else if uint afi = afi_code AFI_IPv6
            then (if uint safi = safi_code SAFI_UNICAST then Inr (capa\<lparr>mpExtV6Unicast := True\<rparr>)
                  else if uint safi = safi_code SAFI_LABELED_UNICAST then Inr (capa\<lparr>mpExtV6LU := True\<rparr>)
                  else Inl open_unspecific)
            else Inl open_unspecific) (\<lambda>capa.
     Inr (capa\<lparr>mpExtExist := True\<rparr>))))))"

definition parseGr_body ::
  "cursor \<Rightarrow> BgpGrCapability list \<Rightarrow> bgp_exn + (BgpGrCapability list \<times> cursor)" where
  "parseGr_body cursor gs =
     rbind (readBE16 cursor) (\<lambda>(afi, cursor).
     rbind (read_u8 cursor) (\<lambda>(safi, cursor).
     let a = afi_of_code (uint afi); s = safi_of_code (uint safi) in
     rbind (throw_if (\<not> afi_named a \<or> \<not> safi_named s) open_unspecific) (\<lambda>_.
     rbind (read_u8 cursor) (\<lambda>(f, cursor).
     Inr (gs @ [\<lparr>gr_afi = a, gr_safi = s, forwardingState = (drop_bit 7 f \<noteq> 0)\<rparr>], cursor)))))"

definition parseGr :: "nat \<Rightarrow> cursor \<Rightarrow> BgpCapabilities \<Rightarrow> bgp_exn + BgpCapabilities" where
  "parseGr cLen cursor capa =
     rbind (throw_if (cLen mod 4 < 2) open_unspecific) (\<lambda>_.
     rbind (readBE16 cursor) (\<lambda>(val, cursor).
     rbind (cursor_loop parseGr_body cursor []) (\<lambda>gs.
     Inr (capa\<lparr>gracefulRestart := True, isRestarting := (val AND kGrRestartStateBit \<noteq> 0),
               grNotification := (val AND kGrNotificationBit \<noteq> 0),
               restartTime := uint (val AND kGrRestartTimeMask), grCapabilities := gs\<rparr>))))"

definition parseAddPath_body ::
  "cursor \<Rightarrow> BgpAddPathCapability list \<Rightarrow> bgp_exn + (BgpAddPathCapability list \<times> cursor)" where
  "parseAddPath_body cursor ps =
     rbind (readBE16 cursor) (\<lambda>(afi, cursor).
     rbind (read_u8 cursor) (\<lambda>(safi, cursor).
     rbind (read_u8 cursor) (\<lambda>(s8, cursor).
     let a = afi_of_code (uint afi); s = safi_of_code (uint safi) in
     case sor_of_code (uint s8) of
       None \<Rightarrow> Inr (ps, cursor)
     | Some x \<Rightarrow>
         rbind (throw_if (\<not> afi_named a \<or> \<not> safi_named s) open_unspecific) (\<lambda>_.
         Inr (ps @ [\<lparr>ap_afi = a, ap_safi = s, sor = x\<rparr>], cursor)))))"

definition parseExtNH_body ::
  "cursor \<Rightarrow> BgpExtNHEncodingCapability list
     \<Rightarrow> bgp_exn + (BgpExtNHEncodingCapability list \<times> cursor)" where
  "parseExtNH_body cursor es =
     rbind (readBE16 cursor) (\<lambda>(na, cursor).
     rbind (readBE16 cursor) (\<lambda>(ns, cursor).
     rbind (readBE16 cursor) (\<lambda>(nh, cursor).
     let a = afi_of_code (uint na); s = safi_of_code (uint ns); h = afi_of_code (uint nh) in
     if a \<noteq> AFI_IPv4 \<or> \<not> safi_named s \<or> h \<noteq> AFI_IPv6 then Inr (es, cursor)
     else Inr (es @ [\<lparr>nlriAfi = a, nlriSafi = s, nhAfi = h\<rparr>], cursor))))"

text \<open>The \<^verbatim>\<open>switch (cCode)\<close> on one capability.\<close>

definition parseCapa :: "byte \<Rightarrow> nat \<Rightarrow> cursor \<Rightarrow> BgpCapabilities \<Rightarrow> bgp_exn + BgpCapabilities" where
  "parseCapa cCode cLen cursor capa =
     (if cCode = CAPA_MP_EXT then parseMpExt cLen cursor capa
      else if cCode = CAPA_AS4_BYTE then
        rbind (throw_if (cLen \<noteq> 4) open_unspecific) (\<lambda>_.
        rbind (readBE32 cursor) (\<lambda>(w, cursor). Inr (capa\<lparr>as4byte := True, capa_asn := uint w\<rparr>)))
      else if cCode = CAPA_GR then parseGr cLen cursor capa
      else if cCode = CAPA_ADD_PATH then
        rbind (throw_if (cLen mod 4 \<noteq> 0) open_unspecific) (\<lambda>_.
        rbind (cursor_loop parseAddPath_body cursor []) (\<lambda>ps.
        Inr (capa\<lparr>addPathCapabilities := ps\<rparr>)))
      else if cCode = CAPA_EXT_NH_ENCODING then
        rbind (throw_if (cLen mod 6 \<noteq> 0) open_unspecific) (\<lambda>_.
        rbind (cursor_loop parseExtNH_body cursor []) (\<lambda>es.
        Inr (capa\<lparr>extNHEncodingCapabilities := es\<rparr>)))
      else if cCode = CAPA_ROUTE_REFRESH then
        rbind (throw_if (cLen \<noteq> 0) open_unspecific) (\<lambda>_. Inr (capa\<lparr>routeRefresh := True\<rparr>))
      else if cCode = CAPA_ENHANCED_ROUTE_REFRESH then
        rbind (throw_if (cLen \<noteq> 0) open_unspecific) (\<lambda>_. Inr (capa\<lparr>enhancedRouteRefresh := True\<rparr>))
      else Inr capa)"

definition parseCapa_body ::
  "cursor \<Rightarrow> BgpCapabilities \<Rightarrow> bgp_exn + (BgpCapabilities \<times> cursor)" where
  "parseCapa_body cursor capa =
     catch_oor open_unspecific
      (rbind (read_u8 cursor) (\<lambda>(cCode, cursor).
       rbind (read_u8 cursor) (\<lambda>(l, cursor).
       let cLen = unat l in
       rbind (throw_if (cLen > length cursor) open_unspecific) (\<lambda>_.
       rbind (parseCapa cCode cLen (take cLen cursor) capa) (\<lambda>capa.
       Inr (capa, drop cLen cursor))))))"

definition parseBgpCapabilities :: "cursor \<Rightarrow> BgpCapabilities \<Rightarrow> bgp_exn + BgpCapabilities" where
  "parseBgpCapabilities cursor capa = cursor_loop parseCapa_body cursor capa"

subsection \<open>Parsing OPEN\<close>

definition parseOpenParam_body ::
  "cursor \<Rightarrow> BgpCapabilities \<Rightarrow> bgp_exn + (BgpCapabilities \<times> cursor)" where
  "parseOpenParam_body cursor capa =
     rbind (throw_if (length cursor < 2) open_unspecific) (\<lambda>_.
     rbind (read_u8 cursor) (\<lambda>(pType, cursor).
     rbind (read_u8 cursor) (\<lambda>(l, cursor).
     let pLen = unat l in
     rbind (throw_if (pLen > length cursor) open_unspecific) (\<lambda>_.
     catch_oor (BgpUpdateMsgException BN_UM_MALFORMED_ATTRIBUTE_LIST [])
      (rbind (skip pLen cursor) (\<lambda>cursor'.
       if pType = 2
       then rbind (parseBgpCapabilities (take pLen cursor) capa) (\<lambda>capa. Inr (capa, cursor'))
       else Inl (BgpOpenMsgException BN_OM_UNSUPPORTED_OPTIONAL_PARAM [pType])))))))"

definition parseBgpOpenMsgRaw :: "cursor \<Rightarrow> bgp_exn + BgpOpenMsg" where
  "parseBgpOpenMsgRaw buf =
     rbind (consumeBgpMsgHdr buf (Some BGP_MSG_TYPE_OPEN)) (\<lambda>(hdr, cursor).
     rbind (throw_if (hdr_length hdr < kBgpMsgHeaderLen + 10)
              (BgpHeaderException BN_MH_BAD_MSG_LEN (wr16 (int (hdr_length hdr))))) (\<lambda>_.
     rbind (read_u8 cursor) (\<lambda>(v, cursor).
     rbind (throw_if (v \<noteq> kBgpVersion)
              (BgpOpenMsgException BN_OM_UNSUPPORTED_VERSION_NUMBER [kBgpVersion])) (\<lambda>_.
     rbind (readBE16 cursor) (\<lambda>(asn, cursor).
     rbind (readBE16 cursor) (\<lambda>(ht, cursor).
     rbind (throw_if (ht \<noteq> 0 \<and> unat ht < 3)
              (BgpOpenMsgException BN_OM_UNACCEPTABLE_HOLD_TIME [])) (\<lambda>_.
     rbind (readBE32 cursor) (\<lambda>(rid, cursor).
     rbind (read_u8 cursor) (\<lambda>(paramsLen, cursor).
     rbind (throw_if (unat paramsLen > length cursor) open_unspecific) (\<lambda>_.
     rbind (cursor_loop parseOpenParam_body (take (unat paramsLen) cursor) default_capabilities) (\<lambda>capa.
     Inr \<lparr>version = sint v, open_asn = uint asn, holdTime = uint ht, bgpID = uint rid,
          capabilities = capa\<rparr>)))))))))))"

subsection \<open>Serialising OPEN\<close>

definition mpCaps :: "BgpCapabilities \<Rightarrow> (BgpUpdateAfi \<times> BgpUpdateSafi) list" where
  "mpCaps capa =
     (if mpExtV4Unicast capa then [(AFI_IPv4, SAFI_UNICAST)] else []) @
     (if mpExtV6Unicast capa then [(AFI_IPv6, SAFI_UNICAST)] else []) @
     (if mpExtV4LU capa then [(AFI_IPv4, SAFI_LABELED_UNICAST)] else []) @
     (if mpExtV6LU capa then [(AFI_IPv6, SAFI_LABELED_UNICAST)] else []) @
     (if mpExtLs capa then [(AFI_LS, SAFI_LS)] else [])"

definition mp_bytes :: "BgpUpdateAfi \<times> BgpUpdateSafi \<Rightarrow> byte list" where
  "mp_bytes = (\<lambda>(afi, safi). [CAPA_MP_EXT, 4] @ wr16 (afi_code afi) @ [0] @ wr8 (safi_code safi))"

definition grValue :: "BgpCapabilities \<Rightarrow> u16" where
  "grValue capa =
     (word_of_int (restartTime capa) AND kGrRestartTimeMask) OR
     (if isRestarting capa then kGrRestartStateBit else 0) OR
     (if grNotification capa then kGrNotificationBit else 0)"

definition gr_bytes :: "BgpGrCapability \<Rightarrow> byte list" where
  "gr_bytes g = wr16 (afi_code (gr_afi g)) @ wr8 (safi_code (gr_safi g)) @
     wr8 (if forwardingState g then 128 else 0)"

definition add_path_bytes :: "BgpAddPathCapability \<Rightarrow> byte list" where
  "add_path_bytes p = wr16 (afi_code (ap_afi p)) @ wr8 (safi_code (ap_safi p)) @ wr8 (sor_code (sor p))"

definition ext_nh_bytes :: "BgpExtNHEncodingCapability \<Rightarrow> byte list" where
  "ext_nh_bytes e = wr16 (afi_code (nlriAfi e)) @ wr16 (safi_code (nlriSafi e)) @ wr16 (afi_code (nhAfi e))"

text \<open>The capabilities, in the order they are written.\<close>

definition capa_bytes :: "BgpCapabilities \<Rightarrow> byte list" where
  "capa_bytes capa =
     concat (map mp_bytes (mpCaps capa)) @
     opt_bytes (as4byte capa) ([CAPA_AS4_BYTE, 4] @ wr32 (capa_asn capa)) @
     opt_bytes (gracefulRestart capa)
       ([CAPA_GR] @ wr8 (2 + 4 * int (length (grCapabilities capa))) @
        bytes_of_word 2 (grValue capa) @ concat (map gr_bytes (grCapabilities capa))) @
     opt_bytes (addPathCapabilities capa \<noteq> [])
       ([CAPA_ADD_PATH] @ wr8 (4 * int (length (addPathCapabilities capa))) @
        concat (map add_path_bytes (addPathCapabilities capa))) @
     opt_bytes (extNHEncodingCapabilities capa \<noteq> [])
       ([CAPA_EXT_NH_ENCODING] @ wr8 (6 * int (length (extNHEncodingCapabilities capa))) @
        concat (map ext_nh_bytes (extNHEncodingCapabilities capa))) @
     opt_bytes (routeRefresh capa) [CAPA_ROUTE_REFRESH, 0] @
     opt_bytes (enhancedRouteRefresh capa) [CAPA_ENHANCED_ROUTE_REFRESH, 0]"

definition serializeBgpOpenMsg :: "BgpOpenMsg \<Rightarrow> bgp_exn + byte list" where
  "serializeBgpOpenMsg msg =
     (let cb = capa_bytes (capabilities msg) in
      serializeBgpMsg BGP_MSG_TYPE_OPEN
        (wr8 (version msg) @ wr16 (open_asn msg) @ wr16 (holdTime msg) @ wr32 (bgpID msg) @
         wr8 (2 + int (length cb)) @ [2] @ wr8 (int (length cb)) @ cb))"

subsection \<open>Each capability is one step of the capability loop\<close>

interpretation gr: cursor_codec parseGr_body gr_bytes "\<lambda>x xs. xs @ [x]"
  "\<lambda>g. afi_named (gr_afi g) \<and> safi_named (gr_safi g)"
  by unfold_locales
     (auto simp: gr_bytes_def parseGr_body_def codec_simps afi_cast safi_cast Let_def)

interpretation addpath: cursor_codec parseAddPath_body add_path_bytes "\<lambda>x xs. xs @ [x]"
  "\<lambda>p. afi_named (ap_afi p) \<and> safi_named (ap_safi p)"
proof unfold_locales
  fix p :: BgpAddPathCapability and rest :: cursor and s
  have "0 \<le> sor_code (sor p)" "sor_code (sor p) < 256" by (cases "sor p"; simp)+
  then have "uint (word_of_int (sor_code (sor p)) :: byte) = sor_code (sor p)" by (rule uint_cast)
  moreover assume "afi_named (ap_afi p) \<and> safi_named (ap_safi p)"
  ultimately show "parseAddPath_body (add_path_bytes p @ rest) s = Inr (s @ [p], rest)"
    by (simp add: add_path_bytes_def parseAddPath_body_def codec_simps afi_cast safi_cast Let_def)
qed (simp add: add_path_bytes_def)

lemma safi_cast16: "safi_named a \<Longrightarrow> uint (word_of_int (safi_code a) :: u16) = safi_code a"
  using safi_named_bounds [of a] by (intro uint_cast) auto

interpretation extnh: cursor_codec parseExtNH_body ext_nh_bytes "\<lambda>x xs. xs @ [x]"
  "\<lambda>e. nlriAfi e = AFI_IPv4 \<and> safi_named (nlriSafi e) \<and> nhAfi e = AFI_IPv6"
proof unfold_locales
  fix e :: BgpExtNHEncodingCapability and rest :: cursor and s
  assume "nlriAfi e = AFI_IPv4 \<and> safi_named (nlriSafi e) \<and> nhAfi e = AFI_IPv6"
  then show "parseExtNH_body (ext_nh_bytes e @ rest) s = Inr (s @ [e], rest)"
    by (cases e) (simp add: ext_nh_bytes_def parseExtNH_body_def codec_simps safi_cast16
        afi_of_code_def Let_def)
qed (simp add: ext_nh_bytes_def)

abbreviation capa_loop :: "cursor \<Rightarrow> BgpCapabilities \<Rightarrow> bgp_exn + BgpCapabilities" where
  "capa_loop \<equiv> cursor_loop parseCapa_body"

lemma parseCapa_body_frame:
  assumes "length body < 256" "parseCapa code (length body) body capa = Inr capa'"
  shows "parseCapa_body (code # wr8 (int (length body)) @ body @ rest) capa = Inr (capa', rest)"
proof -
  have "unat (word_of_nat (length body) :: byte) = length body" using assms(1) by (rule unat_cast8)
  with assms(2) show ?thesis by (simp add: parseCapa_body_def codec_simps Let_def)
qed

lemma capa_step:
  assumes "length body < 256" "parseCapa code (length body) body capa = Inr capa'"
  shows "capa_loop (code # wr8 (int (length body)) @ body @ rest) capa = capa_loop rest capa'"
proof (rule cursor_loop_step)
  show "parseCapa_body (code # wr8 (int (length body)) @ body @ rest) capa = Inr (capa', rest)"
    using assms by (rule parseCapa_body_frame)
qed simp

definition set_mp :: "BgpUpdateAfi \<times> BgpUpdateSafi \<Rightarrow> BgpCapabilities \<Rightarrow> BgpCapabilities" where
  "set_mp p c =
     (if p = (AFI_IPv4, SAFI_UNICAST) then c\<lparr>mpExtV4Unicast := True, mpExtExist := True\<rparr>
      else if p = (AFI_IPv6, SAFI_UNICAST) then c\<lparr>mpExtV6Unicast := True, mpExtExist := True\<rparr>
      else if p = (AFI_IPv4, SAFI_LABELED_UNICAST) then c\<lparr>mpExtV4LU := True, mpExtExist := True\<rparr>
      else c\<lparr>mpExtV6LU := True, mpExtExist := True\<rparr>)"

interpretation mpext: cursor_codec parseCapa_body mp_bytes set_mp
  "\<lambda>p. fst p \<in> {AFI_IPv4, AFI_IPv6} \<and> snd p \<in> {SAFI_UNICAST, SAFI_LABELED_UNICAST}"
proof unfold_locales
  fix p :: "BgpUpdateAfi \<times> BgpUpdateSafi" and rest :: cursor and s
  assume p: "fst p \<in> {AFI_IPv4, AFI_IPv6} \<and> snd p \<in> {SAFI_UNICAST, SAFI_LABELED_UNICAST}"
  let ?body = "wr16 (afi_code (fst p)) @ [0] @ wr8 (safi_code (snd p))"
  have "parseCapa CAPA_MP_EXT (length ?body) ?body s = Inr (set_mp p s)"
    using p read_u8_wr8 [of _ "[]"]
    by (cases p) (auto simp: parseCapa_def parseMpExt_def codec_simps skip_def set_mp_def)
  then show "parseCapa_body (mp_bytes p @ rest) s = Inr (set_mp p s, rest)"
    using parseCapa_body_frame [of ?body CAPA_MP_EXT s "set_mp p s" rest]
    by (cases p) (simp add: mp_bytes_def wr8_def)
qed (simp add: mp_bytes_def split: prod.splits)

lemma as4_step:
  assumes "c \<longrightarrow> u32_ok x"
  shows "capa_loop (opt_bytes c ([CAPA_AS4_BYTE, 4] @ wr32 x) @ rest) capa =
    capa_loop rest (capa\<lparr>as4byte := c \<or> as4byte capa, capa_asn := if c then x else capa_asn capa\<rparr>)"
proof (cases c)
  case True
  have "parseCapa CAPA_AS4_BYTE 4 (wr32 x) capa = Inr (capa\<lparr>as4byte := True, capa_asn := x\<rparr>)"
    using assms True by (simp add: parseCapa_def readBE32_wr32_Nil u32_cast)
  from capa_step [of "wr32 x" CAPA_AS4_BYTE capa _ rest] this True show ?thesis
    by (simp add: opt_bytes_def wr8_def)
qed (simp add: opt_bytes_def)

lemma refresh_steps:
  "capa_loop (opt_bytes c [CAPA_ROUTE_REFRESH, 0] @ rest) capa =
   capa_loop rest (capa\<lparr>routeRefresh := c \<or> routeRefresh capa\<rparr>)"
  "capa_loop (opt_bytes c [CAPA_ENHANCED_ROUTE_REFRESH, 0] @ rest) capa =
   capa_loop rest (capa\<lparr>enhancedRouteRefresh := c \<or> enhancedRouteRefresh capa\<rparr>)"
proof -
  have "parseCapa CAPA_ROUTE_REFRESH 0 [] capa = Inr (capa\<lparr>routeRefresh := True\<rparr>)"
    by (simp add: parseCapa_def)
  from capa_step [of "[]" CAPA_ROUTE_REFRESH capa _ rest, simplified, OF this]
  show "capa_loop (opt_bytes c [CAPA_ROUTE_REFRESH, 0] @ rest) capa =
      capa_loop rest (capa\<lparr>routeRefresh := c \<or> routeRefresh capa\<rparr>)"
    by (cases c) (simp_all add: opt_bytes_def wr8_def)
  have "parseCapa CAPA_ENHANCED_ROUTE_REFRESH 0 [] capa = Inr (capa\<lparr>enhancedRouteRefresh := True\<rparr>)"
    by (simp add: parseCapa_def)
  from capa_step [of "[]" CAPA_ENHANCED_ROUTE_REFRESH capa _ rest, simplified, OF this]
  show "capa_loop (opt_bytes c [CAPA_ENHANCED_ROUTE_REFRESH, 0] @ rest) capa =
      capa_loop rest (capa\<lparr>enhancedRouteRefresh := c \<or> enhancedRouteRefresh capa\<rparr>)"
    by (cases c) (simp_all add: opt_bytes_def wr8_def)
qed

lemma readBE16_bytes_of_word: "readBE16 (bytes_of_word 2 w @ rest) = Inr (w, rest)"
  by (simp add: readBE16_def pull_append)

text \<open>The flags and the restart time share one 16-bit field.\<close>

lemma grValue_fields:
  assumes "0 \<le> restartTime capa" "restartTime capa < 4096"
  shows "grValue capa AND kGrRestartStateBit \<noteq> 0 \<longleftrightarrow> isRestarting capa"
    "grValue capa AND kGrNotificationBit \<noteq> 0 \<longleftrightarrow> grNotification capa"
    "uint (grValue capa AND kGrRestartTimeMask) = restartTime capa"
proof -
  show "grValue capa AND kGrRestartStateBit \<noteq> 0 \<longleftrightarrow> isRestarting capa"
    "grValue capa AND kGrNotificationBit \<noteq> 0 \<longleftrightarrow> grNotification capa"
    by (simp_all add: grValue_def bit.conj_disj_distrib2 and.assoc)
  have "grValue capa AND kGrRestartTimeMask = word_of_int (restartTime capa) AND kGrRestartTimeMask"
    by (simp add: grValue_def bit.conj_disj_distrib2 and.assoc)
  moreover have "restartTime capa AND 4095 = restartTime capa"
    using assms take_bit_eq_mask [of 12 "restartTime capa"]
      take_bit_int_eq_self [of "restartTime capa" 12]
    by (simp add: mask_eq_exp_minus_1)
  ultimately show "uint (grValue capa AND kGrRestartTimeMask) = restartTime capa"
    using assms by (simp add: unsigned_and_eq uint_cast)
qed

lemma length_capa_lists:
  "length (concat (map gr_bytes gs)) = 4 * length gs"
  "length (concat (map add_path_bytes ps)) = 4 * length ps"
  "length (concat (map ext_nh_bytes es)) = 6 * length es"
proof -
  show "length (concat (map gr_bytes gs)) = 4 * length gs"
    by (induction gs) (auto simp: gr_bytes_def)
  show "length (concat (map add_path_bytes ps)) = 4 * length ps"
    by (induction ps) (auto simp: add_path_bytes_def)
  show "length (concat (map ext_nh_bytes es)) = 6 * length es"
    by (induction es) (auto simp: ext_nh_bytes_def)
qed

lemma gr_step:
  assumes "gracefulRestart c \<longrightarrow> 0 \<le> restartTime c \<and> restartTime c < 4096 \<and>
      list_all (\<lambda>g. afi_named (gr_afi g) \<and> safi_named (gr_safi g)) (grCapabilities c) \<and>
      2 + 4 * length (grCapabilities c) < 256"
  shows "capa_loop (opt_bytes (gracefulRestart c)
       ([CAPA_GR] @ wr8 (2 + 4 * int (length (grCapabilities c))) @
        bytes_of_word 2 (grValue c) @ concat (map gr_bytes (grCapabilities c))) @ rest) capa =
    capa_loop rest (if gracefulRestart c
      then capa\<lparr>gracefulRestart := True, isRestarting := isRestarting c,
                grNotification := grNotification c, restartTime := restartTime c,
                grCapabilities := grCapabilities c\<rparr> else capa)"
proof (cases "gracefulRestart c")
  case True
  let ?body = "bytes_of_word 2 (grValue c) @ concat (map gr_bytes (grCapabilities c))"
  have l: "length ?body = 2 + 4 * length (grCapabilities c)" by (simp add: length_capa_lists)
  have m: "Suc (Suc (4 * length (grCapabilities c))) mod 4 = 2" by presburger
  have "parseCapa CAPA_GR (length ?body) ?body capa =
     Inr (capa\<lparr>gracefulRestart := True, isRestarting := isRestarting c,
                grNotification := grNotification c, restartTime := restartTime c,
                grCapabilities := grCapabilities c\<rparr>)"
    using assms True gr.loop_enc [of "grCapabilities c" "[]"] grValue_fields [of c]
    by (simp only: l, simp add: parseCapa_def parseGr_def readBE16_bytes_of_word fold_snoc m)
  from capa_step [OF _ this, of rest] assms True l show ?thesis
    by (simp add: opt_bytes_def algebra_simps)
qed (simp add: opt_bytes_def)

lemma add_path_step:
  assumes "list_all (\<lambda>p. afi_named (ap_afi p) \<and> safi_named (ap_safi p)) ps" "4 * length ps < 256"
  shows "capa_loop (opt_bytes (ps \<noteq> []) ([CAPA_ADD_PATH] @ wr8 (4 * int (length ps)) @
        concat (map add_path_bytes ps)) @ rest) capa =
    capa_loop rest (capa\<lparr>addPathCapabilities := if ps = [] then addPathCapabilities capa else ps\<rparr>)"
proof (cases "ps = []")
  case False
  have "parseCapa CAPA_ADD_PATH (4 * length ps) (concat (map add_path_bytes ps)) capa =
     Inr (capa\<lparr>addPathCapabilities := ps\<rparr>)"
    using addpath.loop_enc [OF assms(1), of "[]"] by (simp add: parseCapa_def fold_snoc)
  from capa_step [of "concat (map add_path_bytes ps)" CAPA_ADD_PATH capa _ rest,
      unfolded length_capa_lists, OF assms(2) this] False
  show ?thesis by (simp add: opt_bytes_def)
qed (simp add: opt_bytes_def)

lemma ext_nh_step:
  assumes "list_all (\<lambda>e. nlriAfi e = AFI_IPv4 \<and> safi_named (nlriSafi e) \<and> nhAfi e = AFI_IPv6) es"
    "6 * length es < 256"
  shows "capa_loop (opt_bytes (es \<noteq> []) ([CAPA_EXT_NH_ENCODING] @ wr8 (6 * int (length es)) @
        concat (map ext_nh_bytes es)) @ rest) capa =
    capa_loop rest
      (capa\<lparr>extNHEncodingCapabilities := if es = [] then extNHEncodingCapabilities capa else es\<rparr>)"
proof (cases "es = []")
  case False
  have "parseCapa CAPA_EXT_NH_ENCODING (6 * length es) (concat (map ext_nh_bytes es)) capa =
     Inr (capa\<lparr>extNHEncodingCapabilities := es\<rparr>)"
    using extnh.loop_enc [OF assms(1), of "[]"] by (simp add: parseCapa_def fold_snoc)
  from capa_step [of "concat (map ext_nh_bytes es)" CAPA_EXT_NH_ENCODING capa _ rest,
      unfolded length_capa_lists, OF assms(2) this] False
  show ?thesis by (simp add: opt_bytes_def)
qed (simp add: opt_bytes_def)

text \<open>
  What of the capabilities is on the wire: the four-byte AS number and the graceful-restart fields
  only with their flags; \<^verbatim>\<open>mpExtExist\<close> is set by the parser.
\<close>

definition wire_capa :: "BgpCapabilities \<Rightarrow> BgpCapabilities" where
  "wire_capa c =
     c\<lparr>capa_asn := if as4byte c then capa_asn c else 0,
       isRestarting := gracefulRestart c \<and> isRestarting c,
       grNotification := gracefulRestart c \<and> grNotification c,
       restartTime := if gracefulRestart c then restartTime c else 0,
       grCapabilities := if gracefulRestart c then grCapabilities c else [],
       mpExtExist := (mpCaps c \<noteq> [])\<rparr>"

definition capa_ok :: "BgpCapabilities \<Rightarrow> bool" where
  "capa_ok c \<longleftrightarrow>
     \<not> mpExtLs c \<and> (as4byte c \<longrightarrow> u32_ok (capa_asn c)) \<and>
     (gracefulRestart c \<longrightarrow> 0 \<le> restartTime c \<and> restartTime c < 4096 \<and>
        list_all (\<lambda>g. afi_named (gr_afi g) \<and> safi_named (gr_safi g)) (grCapabilities c)) \<and>
     list_all (\<lambda>p. afi_named (ap_afi p) \<and> safi_named (ap_safi p)) (addPathCapabilities c) \<and>
     list_all (\<lambda>e. nlriAfi e = AFI_IPv4 \<and> safi_named (nlriSafi e) \<and> nhAfi e = AFI_IPv6)
       (extNHEncodingCapabilities c) \<and>
     length (capa_bytes c) < 254"

lemma capa_bytes_lengths:
  assumes "length (capa_bytes c) < 256"
  shows "gracefulRestart c \<longrightarrow> 2 + 4 * length (grCapabilities c) < 256"
    "4 * length (addPathCapabilities c) < 256" "6 * length (extNHEncodingCapabilities c) < 256"
proof -
  show "gracefulRestart c \<longrightarrow> 2 + 4 * length (grCapabilities c) < 256"
    using assms by (auto simp: capa_bytes_def length_opt_bytes length_capa_lists)
  show "4 * length (addPathCapabilities c) < 256"
    using assms by (cases "addPathCapabilities c = []")
      (simp_all add: capa_bytes_def length_opt_bytes length_capa_lists)
  show "6 * length (extNHEncodingCapabilities c) < 256"
    using assms by (cases "extNHEncodingCapabilities c = []")
      (simp_all add: capa_bytes_def length_opt_bytes length_capa_lists)
qed

lemma fold_set_mp:
  assumes "\<not> mpExtLs c"
  shows "fold set_mp (mpCaps c) default_capabilities =
    default_capabilities\<lparr>mpExtV4Unicast := mpExtV4Unicast c, mpExtV6Unicast := mpExtV6Unicast c,
      mpExtV4LU := mpExtV4LU c, mpExtV6LU := mpExtV6LU c, mpExtExist := (mpCaps c \<noteq> [])\<rparr>"
  using assms by (simp add: mpCaps_def set_mp_def default_capabilities_def)

lemmas capa_steps =
  as4_step [unfolded append.simps] gr_step [unfolded append.simps]
  add_path_step [unfolded append.simps] ext_nh_step [unfolded append.simps] refresh_steps

lemma parseBgpCapabilities_bytes:
  assumes ok: "capa_ok c"
  shows "parseBgpCapabilities (capa_bytes c) default_capabilities = Inr (wire_capa c)"
proof -
  have l: "length (capa_bytes c) < 256" using ok by (simp add: capa_ok_def)
  have mp: "list_all (\<lambda>p. fst p \<in> {AFI_IPv4, AFI_IPv6} \<and> snd p \<in> {SAFI_UNICAST, SAFI_LABELED_UNICAST})
      (mpCaps c)"
    using ok by (auto simp: mpCaps_def capa_ok_def)
  have e: "capa_loop (opt_bytes b [CAPA_ENHANCED_ROUTE_REFRESH, 0]) s =
      Inr (s\<lparr>enhancedRouteRefresh := b \<or> enhancedRouteRefresh s\<rparr>)" for b s
    using refresh_steps(2) [of b "[]" s] by simp
  show ?thesis
    unfolding parseBgpCapabilities_def capa_bytes_def
    using ok capa_bytes_lengths [OF l]
    by (simp add: mpext.loop_enc_append [OF mp] fold_set_mp capa_ok_def capa_steps e, cases c, simp add: wire_capa_def default_capabilities_def)
qed

subsection \<open>What the OPEN parser raises\<close>

definition open_exn :: "bgp_exn \<Rightarrow> bool" where
  "open_exn e \<longleftrightarrow> (\<exists>c d. e = BgpOpenMsgException c d)"

definition open_oor_exn :: "bgp_exn \<Rightarrow> bool" where
  "open_oor_exn e \<longleftrightarrow> e = OutOfRange \<or> open_exn e"

lemma open_exn_intros [simp]:
  "open_exn (BgpOpenMsgException c d)" "open_oor_exn (BgpOpenMsgException c d)"
  "open_oor_exn OutOfRange" "\<not> open_exn OutOfRange"
  by (simp_all add: open_exn_def open_oor_exn_def)

interpretation gr_loop: cursor_body parseGr_body open_oor_exn
  by unfold_locales
     (auto simp: parseGr_body_def rbind_eq_Inr rbind_eq_Inl exn_simps Let_def dest!: read_lengthD)

interpretation addpath_loop: cursor_body parseAddPath_body open_oor_exn
  by unfold_locales
     (auto simp: parseAddPath_body_def rbind_eq_Inr rbind_eq_Inl exn_simps Let_def
        dest!: read_lengthD split: option.splits)

interpretation extnh_loop: cursor_body parseExtNH_body open_oor_exn
  by unfold_locales
     (auto simp: parseExtNH_body_def rbind_eq_Inr rbind_eq_Inl exn_simps Let_def
        dest!: read_lengthD split: if_splits)

lemma capa_list_raises_only [raises_intros]:
  "raises_only open_oor_exn (cursor_loop parseGr_body cur gs)"
  "raises_only open_oor_exn (cursor_loop parseAddPath_body cur ps)"
  "raises_only open_oor_exn (cursor_loop parseExtNH_body cur es)"
  by (auto simp: raises_only_def dest!: gr_loop.loop_raises addpath_loop.loop_raises
      extnh_loop.loop_raises)

lemma parseCapa_raises_only: "raises_only open_oor_exn (parseCapa code n cur capa)"
  unfolding parseCapa_def parseMpExt_def parseGr_def by (intro raises_intros) simp_all

interpretation capa_body: cursor_body parseCapa_body open_exn
proof
  fix cur cur' :: cursor and s s' :: BgpCapabilities
  assume "parseCapa_body cur s = Inr (s', cur')"
  then show "length cur' < length cur"
    by (auto simp: parseCapa_body_def rbind_eq_Inr Let_def dest!: read_lengthD)
next
  fix cur :: cursor and s :: BgpCapabilities and e
  have "raises_only open_oor_exn (rbind (read_u8 cur) (\<lambda>(cCode, cursor).
       rbind (read_u8 cursor) (\<lambda>(l, cursor).
       let cLen = unat l in
       rbind (throw_if (cLen > length cursor) open_unspecific) (\<lambda>_.
       rbind (parseCapa cCode cLen (take cLen cursor) s) (\<lambda>capa.
       Inr (capa, drop cLen cursor))))))"
    by (intro raises_intros parseCapa_raises_only) simp_all
  moreover assume "parseCapa_body cur s = Inl e"
  ultimately show "open_exn e"
    by (auto simp: parseCapa_body_def catch_oor_eq_Inl open_oor_exn_def dest: raises_onlyD)
qed

lemma parseBgpCapabilities_raises_only [raises_intros]:
  "raises_only open_exn (parseBgpCapabilities cur capa)"
  by (auto simp: raises_only_def parseBgpCapabilities_def dest: capa_body.loop_raises)

lemma parseBgpCapabilities_not_oor [simp]: "parseBgpCapabilities cur capa \<noteq> Inl OutOfRange"
  using raises_onlyD [OF parseBgpCapabilities_raises_only, of cur capa OutOfRange] by auto

interpretation param_body: cursor_body parseOpenParam_body open_exn
proof
  fix cur cur' :: cursor and s s' :: BgpCapabilities
  assume "parseOpenParam_body cur s = Inr (s', cur')"
  then show "length cur' < length cur"
    by (auto simp: parseOpenParam_body_def rbind_eq_Inr Let_def dest!: read_lengthD split: if_splits)
next
  fix cur :: cursor and s :: BgpCapabilities and e
  assume "parseOpenParam_body cur s = Inl e"
  then show "open_exn e"
    by (auto simp: parseOpenParam_body_def rbind_eq_Inl exn_simps catch_oor_eq_Inl Let_def
        dest!: read_lengthD dest: raises_onlyD [OF parseBgpCapabilities_raises_only] split: if_splits)
qed

lemma consumeBgpMsgHdr_lengthD:
  assumes "consumeBgpMsgHdr cursor mt = Inr (hdr, cursor')"
  shows "hdr_length hdr \<le> length cursor' + kBgpMsgHeaderLen"
  using consumeBgpMsgHdr_InrD [OF assms] by simp

lemma parseBgpOpenMsgRaw_raises_only:
  "raises_only (\<lambda>e. header_exn e \<or> open_exn e) (parseBgpOpenMsgRaw buf)"
proof (rule raises_onlyI)
  fix e assume "parseBgpOpenMsgRaw buf = Inl e"
  then show "header_exn e \<or> open_exn e"
    by (auto simp: parseBgpOpenMsgRaw_def rbind_eq_Inl exn_simps kBgpMsgHeaderLen_def not_less
        dest!: read_lengthD consumeBgpMsgHdr_lengthD
        dest: raises_onlyD [OF consumeBgpMsgHdr_raises_only] param_body.loop_raises)
qed

subsection \<open>OPEN messages survive the round trip\<close>

definition open_ok :: "BgpOpenMsg \<Rightarrow> bool" where
  "open_ok m \<longleftrightarrow>
     version m = 4 \<and> u16_ok (open_asn m) \<and> u16_ok (holdTime m) \<and> (holdTime m = 0 \<or> 3 \<le> holdTime m) \<and>
     u32_ok (bgpID m)"

definition open_body :: "BgpOpenMsg \<Rightarrow> byte list" where
  "open_body m =
     (let cb = capa_bytes (capabilities m) in
      wr8 (version m) @ wr16 (open_asn m) @ wr16 (holdTime m) @ wr32 (bgpID m) @
      wr8 (2 + int (length cb)) @ [2] @ wr8 (int (length cb)) @ cb)"

lemma serializeBgpOpenMsg_eq:
  assumes "length (capa_bytes (capabilities m)) < 254"
  shows "serializeBgpOpenMsg m = Inr (msg_bytes BGP_MSG_TYPE_OPEN (open_body m))"
    "length (open_body m) \<le> kMaxBgpMsgLen - kBgpMsgHeaderLen"
  using assms by (simp_all add: serializeBgpOpenMsg_def serializeBgpMsg_eq open_body_def bgp_consts Let_def)

text \<open>What the parser makes of the serialised message is what it makes of its capabilities.\<close>

lemma parseBgpOpenMsgRaw_open_body:
  assumes ok: "open_ok m" and l: "length (capa_bytes (capabilities m)) < 254"
  shows "parseBgpOpenMsgRaw (msg_bytes BGP_MSG_TYPE_OPEN (open_body m)) =
    rbind (parseBgpCapabilities (capa_bytes (capabilities m)) default_capabilities) (\<lambda>capa.
      Inr (m\<lparr>capabilities := capa\<rparr>))"
proof -
  let ?cb = "capa_bytes (capabilities m)"
  have n: "unat (word_of_nat (length ?cb) :: byte) = length ?cb"
    using l by (intro unat_cast8) simp
  have n2: "unat (word_of_int (2 + int (length ?cb)) :: byte) = 2 + length ?cb"
    using l unat_cast8 [of "2 + length ?cb"] by simp
  have "parseOpenParam_body (2 # wr8 (int (length ?cb)) @ ?cb) default_capabilities =
      rbind (parseBgpCapabilities ?cb default_capabilities) (\<lambda>capa. Inr (capa, []))"
    using n by (auto simp: parseOpenParam_body_def codec_simps skip_def catch_oor_def rbind_eq_Inl Let_def)
  then have p: "cursor_loop parseOpenParam_body (2 # wr8 (int (length ?cb)) @ ?cb) default_capabilities =
      parseBgpCapabilities ?cb default_capabilities"
    by (cases "parseBgpCapabilities ?cb default_capabilities"; subst cursor_loop.simps) auto
  have v: "unat (word_of_int (holdTime m) :: u16) = nat (holdTime m)"
    using ok by (simp add: open_ok_def u16_ok_def unat_eq_nat_uint uint_cast)
  have h: "(word_of_int (holdTime m) :: u16) = 0 \<longleftrightarrow> holdTime m = 0"
    using v ok by (auto simp: open_ok_def u16_ok_def simp flip: unat_eq_zero)
  have m: "m\<lparr>capabilities := capa\<rparr> = \<lparr>version = 4, open_asn = open_asn m, holdTime = holdTime m,
      bgpID = bgpID m, capabilities = capa\<rparr>" for capa
    using ok by (cases m) (simp add: open_ok_def)
  have c: "uint (word_of_int (open_asn m) :: u16) = open_asn m"
    "uint (word_of_int (holdTime m) :: u16) = holdTime m"
    "uint (word_of_int (bgpID m) :: u32) = bgpID m" "version m = 4"
    "(holdTime m \<noteq> 0 \<and> nat (holdTime m) < 3) = False"
    using ok by (auto simp: open_ok_def u16_ok_def u32_ok_def uint_cast)
  have hdr: "consumeBgpMsgHdr (msg_bytes BGP_MSG_TYPE_OPEN (open_body m)) (Some BGP_MSG_TYPE_OPEN) =
      Inr (\<lparr>hdr_length = kBgpMsgHeaderLen + length (open_body m), hdr_type = 1\<rparr>, open_body m)"
    using consumeBgpMsgHdr_msg_bytes [OF serializeBgpOpenMsg_eq(2) [OF l], of BGP_MSG_TYPE_OPEN "[]"]
    by simp
  have b: "open_body m = wr8 4 @ wr16 (open_asn m) @ wr16 (holdTime m) @ wr32 (bgpID m) @
      wr8 (2 + int (length ?cb)) @ 2 # wr8 (int (length ?cb)) @ ?cb"
    by (simp add: open_body_def c Let_def)
  show ?thesis
    unfolding m parseBgpOpenMsgRaw_def hdr unfolding b
    by (simp add: codec_simps kBgpVersion_def n2 [simplified] p v h c(1-4), simp only: c(5), simp)
qed


definition sample_open :: BgpOpenMsg where
  "sample_open = \<lparr>version = 4, open_asn = 23456, holdTime = 30, bgpID = 0x0A000001,
     capabilities = default_capabilities\<lparr>mpExtV4Unicast := True, mpExtV6Unicast := True,
       as4byte := True, capa_asn := 4200000000, gracefulRestart := True, restartTime := 120,
       grCapabilities := [\<lparr>gr_afi = AFI_IPv6, gr_safi = SAFI_UNICAST, forwardingState = True\<rparr>],
       addPathCapabilities := [\<lparr>ap_afi = AFI_IPv6, ap_safi = SAFI_UNICAST, sor = BOTH\<rparr>]\<rparr>\<rparr>"


lemma parseCapa_body_ls:
  "parseCapa_body (mp_bytes (AFI_LS, SAFI_LS) @ rest) s = Inl open_unspecific"
proof -
  let ?body = "wr16 (afi_code AFI_LS) @ [0] @ wr8 (safi_code SAFI_LS)"
  have "parseCapa CAPA_MP_EXT 4 ?body s = Inl open_unspecific"
    using read_u8_wr8 [of _ "[]"] by (simp add: parseCapa_def parseMpExt_def codec_simps skip_def)
  moreover have "take 4 (?body @ rest) = ?body" by simp
  moreover have "mp_bytes (AFI_LS, SAFI_LS) @ rest = CAPA_MP_EXT # 4 # (?body @ rest)"
    by (simp add: mp_bytes_def)
  moreover have "\<not> length (?body @ rest) < 4" by simp
  ultimately show ?thesis
    by (simp only: parseCapa_body_def read_u8_Cons rbind_Inr prod.case Let_def)
       (simp add: catch_oor_def)
qed

lemma parseBgpCapabilities_ls:
  assumes "mpExtLs c"
  shows "parseBgpCapabilities (capa_bytes c) capa = Inl open_unspecific"
proof -
  obtain ps where ps: "mpCaps c = ps @ [(AFI_LS, SAFI_LS)]"
    and ok: "list_all (\<lambda>p. fst p \<in> {AFI_IPv4, AFI_IPv6} \<and> snd p \<in> {SAFI_UNICAST, SAFI_LABELED_UNICAST}) ps"
    using assms by (auto simp: mpCaps_def)
  obtain rest where b: "capa_bytes c = concat (map mp_bytes ps) @ mp_bytes (AFI_LS, SAFI_LS) @ rest"
    by (simp add: capa_bytes_def ps)
  have "capa_loop (mp_bytes (AFI_LS, SAFI_LS) @ rest) s = Inl open_unspecific" for s
    by (intro cursor_loop_raise parseCapa_body_ls) (simp add: mp_bytes_def)
  then show ?thesis
    unfolding parseBgpCapabilities_def b mpext.loop_enc_append [OF ok] .
qed

text \<open>
  C32. A session that offers BGP-LS cannot come up with a peer running this code: the serialiser
  emits the multiprotocol capability for the link-state family, and the parser rejects every OPEN
  that has it.
\<close>

theorem open_ls_rejected:
  assumes "open_ok m" "mpExtLs (capabilities m)" "length (capa_bytes (capabilities m)) < 254"
  shows "\<exists>bs. serializeBgpOpenMsg m = Inr bs \<and> parseBgpOpenMsgRaw bs = Inl open_unspecific"
  using serializeBgpOpenMsg_eq(1) [OF assms(3)] parseBgpOpenMsgRaw_open_body [OF assms(1,3)]
    parseBgpCapabilities_ls [OF assms(2)]
  by simp

theorem open_ls_rejected_witness:
  "\<exists>bs. serializeBgpOpenMsg (sample_open\<lparr>capabilities := (capabilities sample_open)\<lparr>mpExtLs := True\<rparr>\<rparr>) = Inr bs \<and>
     parseBgpOpenMsgRaw bs = Inl open_unspecific"
  by (rule open_ls_rejected; code_simp)

end
