(* ===== verification/Message_Codec.thy ===== *)
theory Message_Codec
  imports Open_Codec
begin

text \<open>
  UPDATE messages and the dispatch over all message types: \<^verbatim>\<open>parseBgpUpdateRaw\<close> and
  \<^verbatim>\<open>parseBgpMessage\<close> of \<^verbatim>\<open>lib/BgpMessageParser.cpp\<close>, \<^verbatim>\<open>serializeBgpEndOfRib\<close> of
  \<^verbatim>\<open>lib/BgpMessageSerializer.cpp\<close>.

  \<^verbatim>\<open>parseBgpMessage\<close> reports through callbacks and catches the exceptions of the library. Here it
  returns the one callback it makes, or the exception that escapes from it.
\<close>

subsection \<open>UPDATE\<close>

datatype parsed_update = UpdateMsg BgpUpdate2 | EorMsg BgpEndOfRib

definition addPathCap :: "BgpCapabilities \<Rightarrow> bool" where
  "addPathCap capa \<longleftrightarrow>
     list_ex (\<lambda>c. ap_afi c = AFI_IPv4 \<and> (sor c = RECEIVE \<or> sor c = BOTH)) (addPathCapabilities capa)"

definition buildUpdate :: "UpdateMsgParsingState \<Rightarrow> BgpCapabilities \<Rightarrow> BgpUpdate2" where
  "buildUpdate st capa =
     (let rig = (\<lambda>p. \<lparr>prefix = prefix p, labels = [], pathId = (if addPathCap capa then pathId p else None)\<rparr>)
      in \<lparr>attrs = ps_attrs st,
          mpAnnounced = \<lparr>nlri_afi = mpAnnouncedAfi st, nlri_safi = mpAnnouncedSafi st,
                         prefixes = ps_mpAnnounced st, nlri_nexthop = ps_mpNexthop st\<rparr>,
          mpWithdrawn = \<lparr>nlri_afi = mpWithdrawnAfi st, nlri_safi = mpWithdrawnSafi st,
                         prefixes = ps_mpWithdrawn st, nlri_nexthop = IPEmpty\<rparr>,
          v4Announced = (if addPathCap capa then [] else map prefix (ps_v4Announced st)),
          v4Withdrawn = (if addPathCap capa then [] else map prefix (ps_v4Withdrawn st)),
          v4Nexthop = ps_v4Nexthop st,
          v4Announced2 = map rig (ps_v4Announced st),
          v4Withdrawn2 = map rig (ps_v4Withdrawn st)\<rparr>)"

definition parseBgpUpdateRaw :: "cursor \<Rightarrow> BgpCapabilities \<Rightarrow> bgp_exn + parsed_update" where
  "parseBgpUpdateRaw buf capa =
     rbind (consumeBgpMsgHdr buf (Some BGP_MSG_TYPE_UPDATE)) (\<lambda>(hdr, cursor).
     let cursor = take (hdr_length hdr - kBgpMsgHeaderLen) cursor in
     rbind (throw_if (hdr_length hdr < kBgpMsgHeaderLen + 4)
              (BgpHeaderException BN_MH_BAD_MSG_LEN (wr16 (int (hdr_length hdr))))) (\<lambda>_.
     rbind (parseV4Withdrawn cursor capa init_state) (\<lambda>(st, cursor).
     rbind (parsePathAttributes cursor capa st) (\<lambda>(st, cursor).
     if v4WithdrawnLen st = 0 \<and> paLen st = 0
     then rbind (throw_if (cursor \<noteq> []) (BgpUpdateMsgException BN_UM_MALFORMED_ATTRIBUTE_LIST [])) (\<lambda>_.
          Inr (EorMsg \<lparr>isMpEor = False, eor_afi = AFI_IPv4, eor_safi = SAFI_UNICAST\<rparr>))
     else
       rbind (parseV4Announced cursor capa st) (\<lambda>(st, cursor).
       rbind (doSanityChecks st) (\<lambda>_.
       case ps_eor st of
         Some eor \<Rightarrow> Inr (EorMsg eor)
       | None \<Rightarrow> Inr (UpdateMsg (buildUpdate st capa))))))))"

definition eor_body :: "BgpUpdateAfi \<Rightarrow> BgpUpdateSafi \<Rightarrow> byte list" where
  "eor_body afi safi =
     wr16 0 @
     (if afi = AFI_IPv4 \<and> safi = SAFI_UNICAST then wr16 0
      else wr16 7 @ [0x90, attr_code BGP_ATTR_MP_UNREACH_NLRI] @ wr16 3 @ wr16 (afi_code afi) @
           wr8 (safi_code safi))"

definition serializeBgpEndOfRib :: "BgpUpdateAfi \<Rightarrow> BgpUpdateSafi \<Rightarrow> bgp_exn + byte list" where
  "serializeBgpEndOfRib afi safi = serializeBgpMsg BGP_MSG_TYPE_UPDATE (eor_body afi safi)"

subsection \<open>Dispatch\<close>

datatype parser_event =
    rcvdBgpOpenMsg BgpOpenMsg
  | rcvdBgpUpdate BgpUpdate2
  | rcvdBgpEndOfRib BgpEndOfRib
  | rcvdBgpNotification BgpNotification
  | rcvdBgpKeepAlive
  | rcvdBgpRouteRefresh BgpRouteRefresh
  | handleBgpOpenMsgException BgpNotifOpenMsgErrSubCode "byte list"
  | handleBgpUpdateMsgException BgpNotifUpdateMsgErrSubCode "byte list"
  | handleBgpFsmException
  | handleBgpHeaderException BgpNotifMsgHdrErrSubCode "byte list"
  | handleBgpException
  | handleBgpRouteRefreshMsgException "byte list"

definition dispatchBgpMessage :: "cursor \<Rightarrow> BgpCapabilities option \<Rightarrow> bgp_exn + parser_event" where
  "dispatchBgpMessage buf capas =
     rbind (parseBgpMsgHdr buf None) (\<lambda>hdr.
     if hdr_type hdr = msg_type_code BGP_MSG_TYPE_OPEN
     then rbind (parseBgpOpenMsgRaw buf) (\<lambda>msg. Inr (rcvdBgpOpenMsg msg))
     else if hdr_type hdr = msg_type_code BGP_MSG_TYPE_UPDATE
     then (case capas of
             None \<Rightarrow> Inl BgpFsmException
           | Some capa \<Rightarrow>
               rbind (parseBgpUpdateRaw buf capa) (\<lambda>msg.
               Inr (case msg of UpdateMsg u \<Rightarrow> rcvdBgpUpdate u | EorMsg eor \<Rightarrow> rcvdBgpEndOfRib eor)))
     else if hdr_type hdr = msg_type_code BGP_MSG_TYPE_NOTIFICATION
     then rbind (parseBgpNotificationRaw buf) (\<lambda>msg. Inr (rcvdBgpNotification msg))
     else if hdr_type hdr = msg_type_code BGP_MSG_TYPE_KEEPALIVE
     then rbind (parseBgpKeepAliveRaw buf) (\<lambda>_. Inr rcvdBgpKeepAlive)
     else if hdr_type hdr = msg_type_code BGP_MSG_TYPE_ROUTE_REFRESH
     then rbind (parseBgpRouteRefreshRaw buf) (\<lambda>msg. Inr (rcvdBgpRouteRefresh msg))
     else Inl BgpException)"

definition parseBgpMessage :: "cursor \<Rightarrow> BgpCapabilities option \<Rightarrow> bgp_exn + parser_event" where
  "parseBgpMessage buf capas =
     (case dispatchBgpMessage buf capas of
        Inr ev \<Rightarrow> Inr ev
      | Inl (BgpOpenMsgException c d) \<Rightarrow> Inr (handleBgpOpenMsgException c d)
      | Inl (BgpUpdateMsgException c d) \<Rightarrow> Inr (handleBgpUpdateMsgException c d)
      | Inl BgpFsmException \<Rightarrow> Inr handleBgpFsmException
      | Inl (BgpHeaderException c d) \<Rightarrow> Inr (handleBgpHeaderException c d)
      | Inl BgpException \<Rightarrow> Inr handleBgpException
      | Inl (BgpRouteRefreshMsgException d) \<Rightarrow> Inr (handleBgpRouteRefreshMsgException d)
      | Inl e \<Rightarrow> Inl e)"

subsection \<open>Which exceptions escape\<close>

definition handled_exn :: "bgp_exn \<Rightarrow> bool" where
  "handled_exn e \<longleftrightarrow> header_exn e \<or> open_exn e \<or> update_exn e \<or> e = BgpFsmException \<or>
     e = BgpException \<or> (\<exists>d. e = BgpRouteRefreshMsgException d)"

lemma parseBgpMessage_Inl:
  "parseBgpMessage buf capas = Inl e \<longleftrightarrow> dispatchBgpMessage buf capas = Inl e \<and> \<not> handled_exn e"
  unfolding parseBgpMessage_def
  by (cases "dispatchBgpMessage buf capas")
     (auto simp: handled_exn_def header_exn_def open_exn_def update_exn_def split: bgp_exn.splits)

lemma raises_case_parsed [raises_intros]:
  "raises_only P r \<Longrightarrow> raises_only P (rbind r (\<lambda>x. Inr (f x)))"
  by (auto simp: raises_only_def rbind_eq_Inl)

lemma handled_mono:
  "raises_only header_exn r \<Longrightarrow> raises_only handled_exn r"
  "raises_only update_exn r \<Longrightarrow> raises_only handled_exn r"
  "raises_only (\<lambda>e. header_exn e \<or> open_exn e) r \<Longrightarrow> raises_only handled_exn r"
  by (auto simp: raises_only_def handled_exn_def)

lemma handled_intros [simp]:
  "handled_exn (BgpUpdateMsgException c d)" "handled_exn (BgpHeaderException h d)"
  "handled_exn BgpFsmException" "handled_exn BgpException" "handled_exn (BgpRouteRefreshMsgException d)"
  by (simp_all add: handled_exn_def)

lemmas handled_parts =
  consumeBgpMsgHdr_raises_only [THEN handled_mono(1)]
  parseBgpMsgHdr_raises_only [THEN handled_mono(1)]
  parseV4Withdrawn_raises_only [THEN handled_mono(2)]
  parsePathAttributes_raises_only [THEN handled_mono(2)]
  parseV4Announced_raises_only [THEN handled_mono(2)]
  doSanityChecks_raises_only [THEN handled_mono(2)]
  parseBgpOpenMsgRaw_raises_only [THEN handled_mono(3)]

lemma parseBgpUpdateRaw_raises_only: "raises_only handled_exn (parseBgpUpdateRaw buf capa)"
  unfolding parseBgpUpdateRaw_def
  by (intro handled_parts raises_only_rbind raises_only_control raises_only_basic) simp_all

lemma parseBgpKeepAliveRaw_raises_only: "raises_only handled_exn (parseBgpKeepAliveRaw buf)"
  unfolding parseBgpKeepAliveRaw_def
  by (intro handled_parts raises_only_rbind raises_only_control raises_only_basic) simp_all

lemma parseBgpNotificationRaw_raises_only: "raises_only handled_exn (parseBgpNotificationRaw buf)"
proof (rule raises_onlyI)
  fix e assume "parseBgpNotificationRaw buf = Inl e"
  then show "handled_exn e"
    by (auto simp: parseBgpNotificationRaw_def consumeBgpNotificationBody_def rbind_eq_Inl exn_simps
        kBgpMsgHeaderLen_def not_less dest!: read_lengthD consumeBgpMsgHdr_lengthD
        dest: raises_onlyD [OF handled_parts(1)] split: option.splits)
qed

lemma parseBgpRouteRefreshRaw_Inl:
  assumes "parseBgpRouteRefreshRaw buf = Inl e" "\<not> handled_exn e"
  shows "e = OutOfRange \<and> length buf < kBgpMsgHeaderLen + 4 \<and>
    (\<exists>hdr. parseBgpMsgHdr buf (Some BGP_MSG_TYPE_ROUTE_REFRESH) = Inr hdr \<and> hdr_length hdr \<le> length buf)"
  using assms
  by (auto simp: parseBgpRouteRefreshRaw_def rbind_eq_Inl exn_simps dest!: read_lengthD
      dest: raises_onlyD [OF handled_parts(1)] consumeBgpMsgHdr_InrD)

lemma parseBgpMsgHdr_type:
  assumes "parseBgpMsgHdr buf None = Inr hdr" "hdr_type hdr = msg_type_code t"
  shows "parseBgpMsgHdr buf (Some t) = Inr hdr"
  using assms by (auto simp: parseBgpMsgHdr_def rbind_eq_Inr Let_def)

lemma short_list:
  "length xs < 4 \<Longrightarrow> xs = [] \<or> (\<exists>a. xs = [a]) \<or> (\<exists>a b. xs = [a, b]) \<or> (\<exists>a b c. xs = [a, b, c])"
  by (cases xs; cases "tl xs"; cases "tl (tl xs)"; cases "tl (tl (tl xs))") auto

lemma route_refresh_short:
  assumes "length buf < kBgpMsgHeaderLen + 4" "hdr_length hdr \<le> length buf"
    and "parseBgpMsgHdr buf (Some BGP_MSG_TYPE_ROUTE_REFRESH) = Inr hdr"
  shows "parseBgpRouteRefreshRaw buf = Inl OutOfRange"
proof -
  obtain c where c: "consumeBgpMsgHdr buf (Some BGP_MSG_TYPE_ROUTE_REFRESH) = Inr (hdr, c)"
    and l: "length c < 4"
    using assms parseBgpMsgHdr_InrD(1) [OF assms(3)]
    by (auto simp: consumeBgpMsgHdr_def skip_def Let_def)
  from short_list [OF l] c show ?thesis
    by (auto simp: parseBgpRouteRefreshRaw_def readBE16_def pull_def)
qed

lemma dispatchBgpMessage_cases:
  assumes "dispatchBgpMessage buf capas = Inl e" "\<not> handled_exn e"
  shows "\<exists>hdr. parseBgpMsgHdr buf None = Inr hdr \<and>
    hdr_type hdr = msg_type_code BGP_MSG_TYPE_ROUTE_REFRESH \<and> parseBgpRouteRefreshRaw buf = Inl e"
  using assms
  by (auto simp: dispatchBgpMessage_def rbind_eq_Inl
      dest: raises_onlyD [OF handled_parts(2)] raises_onlyD [OF handled_parts(7)]
        raises_onlyD [OF parseBgpUpdateRaw_raises_only]
        raises_onlyD [OF parseBgpNotificationRaw_raises_only]
        raises_onlyD [OF parseBgpKeepAliveRaw_raises_only]
      split: if_splits option.splits)


subsection \<open>Messages other than UPDATE\<close>

lemma dispatch_msg_bytes:
  assumes "length body \<le> kMaxBgpMsgLen - kBgpMsgHeaderLen"
  shows "parseBgpMsgHdr (msg_bytes t body) None =
    Inr \<lparr>hdr_length = kBgpMsgHeaderLen + length body, hdr_type = msg_type_code t\<rparr>"
  using parseBgpMsgHdr_msg_bytes [OF assms, of t "[]" None] by simp



subsection \<open>UPDATE messages by their three parts\<close>

definition update_body :: "byte list \<Rightarrow> byte list \<Rightarrow> byte list \<Rightarrow> byte list" where
  "update_body w pa n = wr16 (int (length w)) @ w @ wr16 (int (length pa)) @ pa @ n"

lemma length_update_body: "length (update_body w pa n) = 4 + length w + length pa + length n"
  by (simp add: update_body_def)

lemma parseNlri_Nil [simp]: "parseNlri [] afi safi capa = Inr []"
  by (simp add: parseNlri_def)

lemma parseV4Withdrawn_step:
  assumes "length w < 65536" "parseNlri w AFI_IPv4 SAFI_UNICAST capa = Inr ws"
    and "ps_v4Withdrawn st = []"
  shows "parseV4Withdrawn (wr16 (int (length w)) @ w @ rest) capa st =
    Inr (st\<lparr>v4WithdrawnLen := length w, ps_v4Withdrawn := ws\<rparr>, rest)"
proof -
  have "unat (word_of_nat (length w) :: u16) = length w" using assms(1) by (rule unat_cast16)
  with assms show ?thesis
    by (cases "w = []"; cases st) (auto simp: parseV4Withdrawn_def codec_simps Let_def)
qed

lemma parsePathAttributes_step0:
  assumes "length bs < 65536"
    and "attr_loop capa bs
           ((upd_attrs (isMedSet_update (\<lambda>_. False)) st)\<lparr>paLen := length bs\<rparr>) = Inr st'"
  shows "parsePathAttributes (wr16 (int (length bs)) @ bs @ rest) capa st = Inr (st', rest)"
  using parsePathAttributes_step [OF _ assms, of rest] assms(2)
  by (cases "bs = []") (auto simp: parsePathAttributes_def codec_simps Let_def)

lemma parseV4Announced_step:
  assumes "parseNlri n AFI_IPv4 SAFI_UNICAST capa = Inr ns" "ps_v4Announced st = []"
  shows "parseV4Announced n capa st = Inr (st\<lparr>ps_v4Announced := ns\<rparr>, [])"
  using assms by (cases "n = []"; cases st) (auto simp: parseV4Announced_def)

lemma parseBgpUpdateRaw_body:
  assumes l: "length (update_body w pa n) \<le> kMaxBgpMsgLen - kBgpMsgHeaderLen"
    and w: "parseNlri w AFI_IPv4 SAFI_UNICAST capa = Inr ws"
    and pa: "attr_loop capa pa (init_state\<lparr>v4WithdrawnLen := length w, ps_v4Withdrawn := ws,
               paLen := length pa\<rparr>) = Inr st"
    and ne: "w \<noteq> [] \<or> pa \<noteq> []"
    and n: "parseNlri n AFI_IPv4 SAFI_UNICAST capa = Inr ns"
  shows "parseBgpUpdateRaw (msg_bytes BGP_MSG_TYPE_UPDATE (update_body w pa n)) capa =
    rbind (doSanityChecks (st\<lparr>ps_v4Announced := ns\<rparr>)) (\<lambda>_.
      Inr (case ps_eor st of Some e \<Rightarrow> EorMsg e
           | None \<Rightarrow> UpdateMsg (buildUpdate (st\<lparr>ps_v4Announced := ns\<rparr>) capa)))"
proof -
  have len: "length w < 65536" "length pa < 65536"
    using l by (simp_all add: length_update_body bgp_consts)
  have hdr: "consumeBgpMsgHdr (msg_bytes BGP_MSG_TYPE_UPDATE (update_body w pa n)) (Some BGP_MSG_TYPE_UPDATE) =
      Inr (\<lparr>hdr_length = kBgpMsgHeaderLen + length (update_body w pa n), hdr_type = 2\<rparr>, update_body w pa n)"
    using consumeBgpMsgHdr_msg_bytes [OF l, of BGP_MSG_TYPE_UPDATE "[]"] by simp
  let ?st = "init_state\<lparr>v4WithdrawnLen := length w, ps_v4Withdrawn := ws\<rparr>"
  have s1: "parseV4Withdrawn (update_body w pa n) capa init_state =
      Inr (?st, wr16 (int (length pa)) @ pa @ n)"
    unfolding update_body_def by (rule parseV4Withdrawn_step [OF len(1) w]) (simp add: init_state_def)
  have s2: "parsePathAttributes (wr16 (int (length pa)) @ pa @ n) capa ?st = Inr (st, n)"
    using pa by (intro parsePathAttributes_step0 [OF len(2)]) (simp add: init_state_def default_attrs_def)
  from attr_loop_frame [OF pa] have f: "v4WithdrawnLen st = length w" "paLen st = length pa"
    "ps_v4Announced st = []"
    by (simp_all add: msg_frame_def init_state_def)
  have s3: "parseV4Announced n capa st = Inr (st\<lparr>ps_v4Announced := ns\<rparr>, [])"
    using n f(3) by (rule parseV4Announced_step)
  have "\<not> (v4WithdrawnLen st = 0 \<and> paLen st = 0)" using ne f by auto
  then show ?thesis
    unfolding parseBgpUpdateRaw_def hdr
    by (auto simp: s1 s2 s3 Let_def length_update_body split: option.splits)
qed

lemma mp_unreach_eor_step:
  assumes "afi = AFI_IPv4 \<or> afi = AFI_IPv6" "safi_named safi"
  shows "attr_loop capa (attr_ext 0x90 BGP_ATTR_MP_UNREACH_NLRI (wr16 (afi_code afi) @ wr8 (safi_code safi)) @ rest) st =
    attr_loop capa rest (st\<lparr>mpWithdrawnAfi := afi, mpWithdrawnSafi := safi,
      ps_eor := Some \<lparr>isMpEor = True, eor_afi = afi, eor_safi = safi\<rparr>\<rparr>)"
  using assms read_u8_wr8 [of _ "[]"]
  by (intro attr_ext_step)
     (auto simp: attr_frame_simps parseMpUnreach_def codec_simps afi_cast safi_cast afi_of_code_def Let_def)

lemma parseBgpMessage_update:
  assumes "length body \<le> kMaxBgpMsgLen - kBgpMsgHeaderLen"
    and "parseBgpUpdateRaw (msg_bytes BGP_MSG_TYPE_UPDATE body) capa = Inr u"
  shows "parseBgpMessage (msg_bytes BGP_MSG_TYPE_UPDATE body) (Some capa) =
    Inr (case u of UpdateMsg u \<Rightarrow> rcvdBgpUpdate u | EorMsg e \<Rightarrow> rcvdBgpEndOfRib e)"
  using assms by (simp add: parseBgpMessage_def dispatchBgpMessage_def dispatch_msg_bytes)

text \<open>
  C19. End-of-RIB markers for IPv4 and IPv6 families survive the round trip. The marker for
  IPv4 unicast is the empty UPDATE and is the only one reported as not multiprotocol.
\<close>

theorem end_of_rib_roundtrip:
  assumes afi: "afi = AFI_IPv4 \<or> afi = AFI_IPv6" and safi: "safi_named safi"
  shows "\<exists>bs. serializeBgpEndOfRib afi safi = Inr bs \<and>
    parseBgpMessage bs (Some capa) = Inr (rcvdBgpEndOfRib
      \<lparr>isMpEor = (afi \<noteq> AFI_IPv4 \<or> safi \<noteq> SAFI_UNICAST), eor_afi = afi, eor_safi = safi\<rparr>)"
proof (cases "afi = AFI_IPv4 \<and> safi = SAFI_UNICAST")
  case True
  then have b: "eor_body afi safi = wr16 0 @ wr16 0 @ []" by (simp add: eor_body_def)
  have l: "length (eor_body afi safi) \<le> kMaxBgpMsgLen - kBgpMsgHeaderLen" by (simp add: b bgp_consts)
  have "init_state\<lparr>v4WithdrawnLen := 0, ps_v4Withdrawn := []\<rparr> = init_state"
    "(upd_attrs (isMedSet_update (\<lambda>_. False)) init_state)\<lparr>paLen := 0\<rparr> = init_state"
    "ps_v4Withdrawn init_state = []"
    by (simp_all add: init_state_def default_attrs_def)
  then have s1: "parseV4Withdrawn (wr16 0 @ wr16 0) capa init_state = Inr (init_state, wr16 0)"
    and s2: "parsePathAttributes (wr16 0) capa init_state = Inr (init_state, [])"
    using parseV4Withdrawn_step [of "[]" capa "[]" init_state "wr16 0"]
      parsePathAttributes_step0 [of "[]" capa init_state init_state "[]"]
    by simp_all
  have "parseBgpUpdateRaw (msg_bytes BGP_MSG_TYPE_UPDATE (eor_body afi safi)) capa =
      Inr (EorMsg \<lparr>isMpEor = False, eor_afi = AFI_IPv4, eor_safi = SAFI_UNICAST\<rparr>)"
    using consumeBgpMsgHdr_msg_bytes [OF l, of BGP_MSG_TYPE_UPDATE "[]"] s1 s2
    unfolding b by (simp add: parseBgpUpdateRaw_def Let_def) (simp add: init_state_def)
  from parseBgpMessage_update [OF l this] True l show ?thesis
    by (simp add: serializeBgpEndOfRib_def serializeBgpMsg_eq)
next
  case False
  let ?pa = "attr_ext 0x90 BGP_ATTR_MP_UNREACH_NLRI (wr16 (afi_code afi) @ wr8 (safi_code safi))"
  have b: "eor_body afi safi = update_body [] ?pa []"
    using False by (auto simp: eor_body_def update_body_def attr_ext_def)
  have l: "length (update_body [] ?pa []) \<le> kMaxBgpMsgLen - kBgpMsgHeaderLen"
    by (simp add: length_update_body attr_ext_def bgp_consts)
  have "parseBgpUpdateRaw (msg_bytes BGP_MSG_TYPE_UPDATE (update_body [] ?pa [])) capa =
      Inr (EorMsg \<lparr>isMpEor = True, eor_afi = afi, eor_safi = safi\<rparr>)"
    using mp_unreach_eor_step [OF assms, of capa "[]"]
    by (subst parseBgpUpdateRaw_body [OF l, of capa "[]"])
       (auto simp: doSanityChecks_def init_state_def attr_ext_def)
  from parseBgpMessage_update [OF l this] False l show ?thesis
    by (auto simp: serializeBgpEndOfRib_def serializeBgpMsg_eq b)
qed

theorem end_of_rib_roundtrip_witness:
  "\<exists>bs. serializeBgpEndOfRib AFI_IPv6 SAFI_UNICAST = Inr bs \<and>
    parseBgpMessage bs (Some default_capabilities) = Inr (rcvdBgpEndOfRib
      \<lparr>isMpEor = (AFI_IPv6 \<noteq> AFI_IPv4 \<or> SAFI_UNICAST \<noteq> SAFI_UNICAST), eor_afi = AFI_IPv6,
       eor_safi = SAFI_UNICAST\<rparr>)"
  by (rule end_of_rib_roundtrip) simp_all

end
