(* ===== verification/Update_Serializer.thy ===== *)
theory Update_Serializer
  imports Message_Codec
begin

text \<open>
  \<^verbatim>\<open>serializeBgpUpdate2\<close> of \<^verbatim>\<open>lib/BgpMessageSerializer.cpp\<close>: one \<^verbatim>\<open>BgpUpdate2\<close> becomes a chain of
  UPDATE messages of at most 4096 bytes each, first the IPv4 withdrawals, then the multiprotocol
  withdrawals, the multiprotocol announcements and the IPv4 announcements.

  Each of the four parts is a loop \<^verbatim>\<open>while (curPrefixCnt < ...size())\<close> whose body fills one message
  with as many prefixes as \<open>serializeNlri\<close> takes. The loop ends only if every message takes at
  least one prefix, so it is a \<^theory_text>\<open>partial_function\<close> whose value \<open>None\<close> is not returning. The
  theorems say when the loop returns, that what it returns parses back to the prefixes it was
  given, and that there are attribute lengths for which it does not return.
\<close>

unbundle bit_operations_syntax

subsection \<open>The loop over messages\<close>

text \<open>
  The state of the loops: the messages appended to the \<^verbatim>\<open>IOBufQueue\<close> so far (\<^verbatim>\<open>queueIndex\<close> is
  their number) and \<^verbatim>\<open>*outNexthopOffsets\<close>, a list of message index, offset of the next hop in the
  message, and whether it is an IPv4 address.
\<close>

record update_queue =
  msgs :: "byte list list"
  nexthopOffsets :: "(nat \<times> nat \<times> bool) list"

type_synonym update_step = "nat \<Rightarrow> bgp_exn + (byte list \<times> nat \<times> (nat \<times> bool) option)"

definition append_msg ::
  "bool \<Rightarrow> byte list \<Rightarrow> (nat \<times> bool) option \<Rightarrow> update_queue \<Rightarrow> update_queue" where
  "append_msg track msg off q =
     q\<lparr>msgs := msgs q @ [msg],
       nexthopOffsets := nexthopOffsets q @
         (case off of Some (i, v4) \<Rightarrow> if track then [(length (msgs q), i, v4)] else [] | None \<Rightarrow> [])\<rparr>"

partial_function (option) packLoop ::
  "update_step \<Rightarrow> bool \<Rightarrow> nat \<Rightarrow> nat \<Rightarrow> update_queue \<Rightarrow> (bgp_exn + update_queue) option" where
  "packLoop step track totalCnt curPrefixCnt q =
     (if curPrefixCnt < totalCnt
      then (case step curPrefixCnt of
              Inl e \<Rightarrow> Some (Inl e)
            | Inr (msg, cnt, off) \<Rightarrow> packLoop step track totalCnt cnt (append_msg track msg off q))
      else Some (Inr q))"

declare packLoop.simps [code]

definition then_pack ::
  "(bgp_exn + 'a) option \<Rightarrow> ('a \<Rightarrow> (bgp_exn + 'b) option) \<Rightarrow> (bgp_exn + 'b) option" where
  "then_pack r f =
     (case r of None \<Rightarrow> None | Some (Inl e) \<Rightarrow> Some (Inl e) | Some (Inr x) \<Rightarrow> f x)"

subsection \<open>One message of each kind\<close>

definition kMpAnnouncedAttrLen :: nat where "kMpAnnouncedAttrLen = 25"

definition v4WithdrawnMsg :: "RiggedIPPrefix list \<Rightarrow> nat \<Rightarrow> update_step" where
  "v4WithdrawnMsg ps maxV4PrefixLen cnt =
     (let pos = kBgpMsgHeaderLen + 2 in
      rbind (serializeNlri (kMaxBgpMsgLen - pos) AFI_IPv4 SAFI_UNICAST ps
               (kMaxBgpMsgLen - pos - 2) maxV4PrefixLen cnt) (\<lambda>(nlri, cnt).
      rbind (serializeBgpMsg BGP_MSG_TYPE_UPDATE (wr16 (int (length nlri)) @ nlri @ wr16 0)) (\<lambda>msg.
      Inr (msg, cnt, None))))"

definition mpWithdrawnMsg :: "BgpNlri \<Rightarrow> nat \<Rightarrow> update_step" where
  "mpWithdrawnMsg mp maxV6PrefixLen cnt =
     (let pos = kBgpMsgHeaderLen + 2 + 2 + 4 + 3 in
      rbind (serializeNlri (kMaxBgpMsgLen - pos) (nlri_afi mp) (nlri_safi mp) (prefixes mp)
               (kMaxBgpMsgLen - pos) maxV6PrefixLen cnt) (\<lambda>(nlri, cnt).
      let attr = [BGP_ATTR_FLAG_OPTIONAL OR BGP_ATTR_FLAG_EXTENDED, attr_code BGP_ATTR_MP_UNREACH_NLRI] @
                 wr16 (int (3 + length nlri)) @
                 wr16 (afi_code (nlri_afi mp)) @ wr8 (safi_code (nlri_safi mp)) @ nlri in
      rbind (serializeBgpMsg BGP_MSG_TYPE_UPDATE (wr16 0 @ wr16 (int (length attr)) @ attr)) (\<lambda>msg.
      Inr (msg, cnt, None))))"

text \<open>
  \<open>pa\<close> is the attribute buffer that is shared by all messages. The next hop is four bytes when it
  is an IPv4 address and sixteen otherwise.
\<close>

definition mpAnnouncedMsg :: "BgpNlri \<Rightarrow> byte list \<Rightarrow> nat \<Rightarrow> update_step" where
  "mpAnnouncedMsg mp pa maxV6PrefixLen cnt =
     (let nh = ip_bytes (nlri_nexthop mp);
          nhOffset = kBgpMsgHeaderLen + 2 + 2 + length pa + 4 + 3 + 1;
          pos = nhOffset + length nh + 1 in
      rbind (serializeNlri (kMaxBgpMsgLen - pos) (nlri_afi mp) (nlri_safi mp) (prefixes mp)
               (kMaxBgpMsgLen - pos) maxV6PrefixLen cnt) (\<lambda>(nlri, cnt).
      let attr = [BGP_ATTR_FLAG_OPTIONAL OR BGP_ATTR_FLAG_EXTENDED, attr_code BGP_ATTR_MP_REACH_NLRI] @
                 wr16 (int (3 + 1 + length nh + 1 + length nlri)) @
                 wr16 (afi_code (nlri_afi mp)) @ wr8 (safi_code (nlri_safi mp)) @
                 wr8 (int (length nh)) @ nh @ [0] @ nlri in
      rbind (serializeBgpMsg BGP_MSG_TYPE_UPDATE
               (wr16 0 @ wr16 (int (length pa + length attr)) @ pa @ attr)) (\<lambda>msg.
      Inr (msg, cnt, Some (nhOffset, isV4 (nlri_nexthop mp))))))"

definition v4AnnouncedMsg ::
  "RiggedIPPrefix list \<Rightarrow> byte list \<Rightarrow> nat \<Rightarrow> nat \<Rightarrow> update_step" where
  "v4AnnouncedMsg ps pa nexthopOffsetInAttrs maxV4PrefixLen cnt =
     (let pos = kBgpMsgHeaderLen + 2 + 2 + length pa in
      rbind (serializeNlri (kMaxBgpMsgLen - pos) AFI_IPv4 SAFI_UNICAST ps
               (kMaxBgpMsgLen - pos) maxV4PrefixLen cnt) (\<lambda>(nlri, cnt).
      rbind (serializeBgpMsg BGP_MSG_TYPE_UPDATE (wr16 0 @ wr16 (int (length pa)) @ pa @ nlri)) (\<lambda>msg.
      Inr (msg, cnt, Some (kBgpMsgHeaderLen + 2 + 2 + nexthopOffsetInAttrs, True)))))"

subsection \<open>The whole function\<close>

definition toRigged :: "cidr \<Rightarrow> RiggedIPPrefix" where
  "toRigged pfx = \<lparr>prefix = pfx, labels = [], pathId = None\<rparr>"

text \<open>The prefixes of the current format, or else those of the deprecated one.\<close>

definition allV4Announced :: "BgpUpdate2 \<Rightarrow> RiggedIPPrefix list" where
  "allV4Announced u = (if v4Announced2 u = [] then map toRigged (v4Announced u) else v4Announced2 u)"

definition allV4Withdrawn :: "BgpUpdate2 \<Rightarrow> RiggedIPPrefix list" where
  "allV4Withdrawn u = (if v4Withdrawn2 u = [] then map toRigged (v4Withdrawn u) else v4Withdrawn2 u)"

text \<open>\<^verbatim>\<open>front().pathId().has_value()\<close>: the first prefix stands for all of them.\<close>

definition hasPathId :: "RiggedIPPrefix list \<Rightarrow> bool" where
  "hasPathId ps \<longleftrightarrow> pathId (hd ps) \<noteq> None"

definition checkUpdate2 :: "BgpUpdate2 \<Rightarrow> bool \<Rightarrow> bgp_exn + unit" where
  "checkUpdate2 u extNhEncoding =
     rbind (throw_if (v4Announced2 u \<noteq> [] \<and> v4Announced u \<noteq> [] \<or>
                      v4Withdrawn2 u \<noteq> [] \<and> v4Withdrawn u \<noteq> [])
              (BgpSerializerException VERSION_ERROR)) (\<lambda>_.
     rbind (throw_if (allV4Announced u = [] \<and> allV4Withdrawn u = [] \<and>
                      prefixes (mpAnnounced u) = [] \<and> prefixes (mpWithdrawn u) = [])
              (BgpSerializerException MISSING_NLRI_INFO)) (\<lambda>_.
     if prefixes (mpAnnounced u) = [] then Inr ()
     else let nh = nlri_nexthop (mpAnnounced u) in
          rbind (throw_if (nh = IPEmpty) IPAddressFormatException) (\<lambda>_.
          throw_if (\<not> extNhEncoding \<and> nlri_afi (mpAnnounced u) = AFI_IPv4 \<and> isV6 nh)
            (BgpSerializerException EXT_NH_ENCODING_NOT_SUPPORTTED))))"

definition packV4Withdrawn :: "BgpUpdate2 \<Rightarrow> bool \<Rightarrow> update_queue \<Rightarrow> (bgp_exn + update_queue) option" where
  "packV4Withdrawn u track q =
     (let ps = allV4Withdrawn u in
      if ps = [] then Some (Inr q)
      else packLoop (v4WithdrawnMsg ps (getMaxPrefixLen (hasPathId ps) True)) track (length ps) 0 q)"

definition packMpWithdrawn :: "BgpUpdate2 \<Rightarrow> bool \<Rightarrow> update_queue \<Rightarrow> (bgp_exn + update_queue) option" where
  "packMpWithdrawn u track q =
     (let mp = mpWithdrawn u; ps = prefixes mp in
      if ps = [] then Some (Inr q)
      else packLoop (mpWithdrawnMsg mp (getMaxPrefixLen (hasPathId ps) False)) track (length ps) 0 q)"

definition packMpAnnounced ::
  "BgpUpdate2 \<Rightarrow> bool \<Rightarrow> bool \<Rightarrow> update_queue \<Rightarrow> (bgp_exn + update_queue) option" where
  "packMpAnnounced u as4 track q =
     (let mp = mpAnnounced u; ps = prefixes mp in
      if ps = [] then Some (Inr q)
      else then_pack (Some (serializePathAttrs kMaxBgpUpdateVarLen u as4 False)) (\<lambda>(pa, off).
        let maxV6PrefixLen = getMaxPrefixLen (hasPathId ps) False in
        if length pa + kMpAnnouncedAttrLen + maxV6PrefixLen > kMaxBgpUpdateVarLen
        then Some (Inl (BgpSerializerException EXCEEDED_MAX_SIZE))
        else packLoop (mpAnnouncedMsg mp pa maxV6PrefixLen) track (length ps) 0 q))"

definition packV4Announced ::
  "BgpUpdate2 \<Rightarrow> bool \<Rightarrow> bool \<Rightarrow> update_queue \<Rightarrow> (bgp_exn + update_queue) option" where
  "packV4Announced u as4 track q =
     (let ps = allV4Announced u in
      if ps = [] then Some (Inr q)
      else then_pack (Some (serializePathAttrs kMaxBgpUpdateVarLen u as4 True)) (\<lambda>(pa, off).
        let maxV4PrefixLen = getMaxPrefixLen (hasPathId ps) True in
        if length pa + maxV4PrefixLen > kMaxBgpUpdateVarLen
        then Some (Inl (BgpSerializerException EXCEEDED_MAX_SIZE))
        else packLoop (v4AnnouncedMsg ps pa (case off of Some i \<Rightarrow> i | None \<Rightarrow> 0) maxV4PrefixLen)
               track (length ps) 0 q))"

definition serializeBgpUpdate2 ::
  "BgpUpdate2 \<Rightarrow> bool \<Rightarrow> bool \<Rightarrow> bool \<Rightarrow> (bgp_exn + update_queue) option" where
  "serializeBgpUpdate2 u as4 extNhEncoding track =
     then_pack (Some (checkUpdate2 u extNhEncoding)) (\<lambda>_.
     then_pack (packV4Withdrawn u track \<lparr>msgs = [], nexthopOffsets = []\<rparr>) (\<lambda>q.
     then_pack (packMpWithdrawn u track q) (\<lambda>q.
     then_pack (packMpAnnounced u as4 track q) (\<lambda>q.
     packV4Announced u as4 track q))))"

subsection \<open>When the loop over messages returns\<close>

text \<open>
  \<open>chunks P cnt totalCnt ms\<close>: the messages \<open>ms\<close> take the prefixes from \<open>cnt\<close> up to \<open>totalCnt\<close> in
  order, each at least one, and each with its own range satisfies \<open>P\<close>.
\<close>

fun chunks :: "(nat \<Rightarrow> nat \<Rightarrow> 'm \<Rightarrow> bool) \<Rightarrow> nat \<Rightarrow> nat \<Rightarrow> 'm list \<Rightarrow> bool" where
  "chunks P cnt totalCnt [] \<longleftrightarrow> cnt = totalCnt"
| "chunks P cnt totalCnt (m # ms) \<longleftrightarrow> (\<exists>n>0. P cnt n m \<and> chunks P (cnt + n) totalCnt ms)"

definition append_msgs ::
  "bool \<Rightarrow> (byte list \<times> (nat \<times> bool) option) list \<Rightarrow> update_queue \<Rightarrow> update_queue" where
  "append_msgs track ms q = fold (\<lambda>(msg, off). append_msg track msg off) ms q"

lemma packLoop_returns:
  assumes "\<And>cnt. cnt < totalCnt \<Longrightarrow>
     \<exists>msg n off. step cnt = Inr (msg, cnt + n, off) \<and> 0 < n \<and> cnt + n \<le> totalCnt \<and> P cnt n (msg, off)"
    and "cnt \<le> totalCnt"
  shows "\<exists>ms. packLoop step track totalCnt cnt q = Some (Inr (append_msgs track ms q)) \<and>
              chunks P cnt totalCnt ms"
  using assms(2)
proof (induction "totalCnt - cnt" arbitrary: cnt q rule: less_induct)
  case less
  show ?case
  proof (cases "cnt < totalCnt")
    case True
    from assms(1) [OF this] obtain msg n off where
      s: "step cnt = Inr (msg, cnt + n, off)" "0 < n" "cnt + n \<le> totalCnt" "P cnt n (msg, off)" by blast
    have "totalCnt - (cnt + n) < totalCnt - cnt" using True s(2) by simp
    from less.hyps [OF this s(3), of "append_msg track msg off q"] obtain ms where
      "packLoop step track totalCnt (cnt + n) (append_msg track msg off q) =
         Some (Inr (append_msgs track ms (append_msg track msg off q)))"
      "chunks P (cnt + n) totalCnt ms" by blast
    with True s show ?thesis
      by (intro exI [of _ "(msg, off) # ms"])
         (auto simp: packLoop.simps [of step track totalCnt cnt] append_msgs_def)
  next
    case False
    then have "packLoop step track totalCnt cnt q = Some (Inr q)" by (subst packLoop.simps) simp
    with False less.prems show ?thesis by (intro exI [of _ "[]"]) (simp add: append_msgs_def)
  qed
qed

text \<open>A body that takes no prefix is run again on the same count, and never leaves the loop.\<close>

lemma packLoop_stuck:
  assumes "step cnt = Inr (msg, cnt, off)" "cnt < totalCnt"
  shows "packLoop step track totalCnt cnt q = None"
proof (cases "packLoop step track totalCnt cnt q")
  case (Some r)
  define P where "P step' totalCnt' cnt' \<longleftrightarrow> \<not> (step' = step \<and> totalCnt' = totalCnt \<and> cnt' = cnt)"
    for step' :: update_step and totalCnt' cnt'
  have "P step totalCnt cnt"
    by (rule packLoop.raw_induct [where P = "\<lambda>step track totalCnt cnt q r. P step totalCnt cnt", OF _ Some])
       (use assms in \<open>auto simp: P_def split: if_splits sum.splits prod.splits\<close>)
  then show ?thesis by (simp add: P_def)
qed simp

lemma chunks_concat:
  assumes "chunks (\<lambda>cnt n m. f m = take n (drop cnt ps)) cnt (length ps) ms"
  shows "concat (map f ms) = drop cnt ps"
  using assms
proof (induction ms arbitrary: cnt)
  case (Cons m ms)
  then obtain n where n: "f m = take n (drop cnt ps)" "concat (map f ms) = drop (cnt + n) ps" by auto
  have "drop (cnt + n) ps = drop n (drop cnt ps)" by (simp add: add.commute)
  with n show ?case by (simp del: drop_drop)
qed simp

subsection \<open>The multiprotocol attributes are one step of the attribute loop\<close>

text \<open>A multiprotocol NLRI the peer accepts: unicast, of a negotiated family.\<close>

definition mp_family_ok :: "BgpCapabilities \<Rightarrow> BgpNlri \<Rightarrow> bool" where
  "mp_family_ok capa mp \<longleftrightarrow>
     nlri_safi mp = SAFI_UNICAST \<and>
     (nlri_afi mp = AFI_IPv4 \<and> mpExtV4Unicast capa \<or> nlri_afi mp = AFI_IPv6 \<and> mpExtV6Unicast capa)"

definition mp_ok :: "BgpCapabilities \<Rightarrow> BgpNlri \<Rightarrow> bool" where
  "mp_ok capa mp \<longleftrightarrow> mp_family_ok capa mp \<and>
     list_all (unicast_ok (parsePathIdFlag capa (nlri_afi mp) SAFI_UNICAST) (nlri_afi mp)) (prefixes mp)"

definition nexthop_ok :: "BgpCapabilities \<Rightarrow> BgpNlri \<Rightarrow> bool" where
  "nexthop_ok capa mp \<longleftrightarrow>
     (case nlri_nexthop mp of
        IPEmpty \<Rightarrow> False
      | IPv4 _ \<Rightarrow> nlri_afi mp = AFI_IPv4
      | IPv6 _ \<Rightarrow> nlri_afi mp = AFI_IPv6 \<or> extNHEncodingCapabilities capa \<noteq> [])"

lemma parseMpNlri_unicast:
  assumes "mp_ok capa mp" "set qs \<subseteq> set (prefixes mp)"
  shows "parseMpNlri (concat (map unicast_bytes qs)) (nlri_afi mp) (nlri_safi mp) capa a unreach = Inr qs"
proof -
  have "list_all (unicast_ok (parsePathIdFlag capa (nlri_afi mp) SAFI_UNICAST) (nlri_afi mp)) qs"
    using assms by (auto simp: mp_ok_def list_all_iff)
  from parseNlri_unicast_bytes [OF this] assms(1) show ?thesis
    by (auto simp: mp_ok_def mp_family_ok_def parseMpNlri_def)
qed

lemma mp_unreach_step:
  assumes mp: "mp_family_ok capa mp" and n: "nlri \<noteq> []" "length nlri < 60000"
    and p: "\<And>a. parseMpNlri nlri (nlri_afi mp) (nlri_safi mp) capa a True = Inr ps"
  shows "attr_loop capa (attr_ext 0x90 BGP_ATTR_MP_UNREACH_NLRI
           (wr16 (afi_code (nlri_afi mp)) @ wr8 (safi_code (nlri_safi mp)) @ nlri) @ rest) st =
    attr_loop capa rest (st\<lparr>mpWithdrawnAfi := nlri_afi mp, mpWithdrawnSafi := nlri_safi mp,
      ps_mpWithdrawn := ps\<rparr>)"
  using assms
  by (intro attr_ext_step)
     (auto simp: mp_family_ok_def attr_frame_simps parseMpUnreach_def codec_simps afi_cast safi_cast
        afi_of_code_def safi_of_code_def Let_def)

lemma mp_reach_step:
  assumes mp: "mp_family_ok capa mp" "nexthop_ok capa mp" and n: "length nlri < 60000"
    and p: "\<And>a. parseMpNlri nlri (nlri_afi mp) (nlri_safi mp) capa a False = Inr ps"
  shows "attr_loop capa (attr_ext 0x90 BGP_ATTR_MP_REACH_NLRI
           (wr16 (afi_code (nlri_afi mp)) @ wr8 (safi_code (nlri_safi mp)) @
            wr8 (int (length (ip_bytes (nlri_nexthop mp)))) @ ip_bytes (nlri_nexthop mp) @ [0] @ nlri) @ rest) st =
    attr_loop capa rest (st\<lparr>mpAnnouncedAfi := nlri_afi mp, mpAnnouncedSafi := nlri_safi mp,
      ps_mpNexthop := nlri_nexthop mp, ps_mpAnnounced := ps\<rparr>)"
  using assms
  by (intro attr_ext_step)
     (auto simp: mp_family_ok_def nexthop_ok_def attr_frame_simps parseMpReach_def readV6Nexthop_def
        readBE32_def codec_simps afi_cast safi_cast afi_of_code_def safi_of_code_def Let_def skip_def
        split: ipaddr.splits)

subsection \<open>What the peer receives from one message\<close>

text \<open>
  What an update says about routes, one operation per prefix, withdrawals first. Large communities
  and what else \<open>wire_attrs\<close> leaves out are not sent, so \<open>sent_ops\<close> is what a peer can receive.
\<close>

datatype route_op =
    WithdrawV4 RiggedIPPrefix
  | WithdrawMp BgpUpdateAfi BgpUpdateSafi RiggedIPPrefix
  | AnnounceMp BgpUpdateAfi BgpUpdateSafi ipaddr BgpAttributes RiggedIPPrefix
  | AnnounceV4 ipaddr BgpAttributes RiggedIPPrefix

definition mp_withdraw_ops :: "BgpNlri \<Rightarrow> RiggedIPPrefix list \<Rightarrow> route_op list" where
  "mp_withdraw_ops mp = map (WithdrawMp (nlri_afi mp) (nlri_safi mp))"

definition mp_announce_ops :: "BgpNlri \<Rightarrow> BgpAttributes \<Rightarrow> RiggedIPPrefix list \<Rightarrow> route_op list" where
  "mp_announce_ops mp a = map (AnnounceMp (nlri_afi mp) (nlri_safi mp) (nlri_nexthop mp) a)"

definition route_ops :: "BgpUpdate2 \<Rightarrow> route_op list" where
  "route_ops x =
     map WithdrawV4 (allV4Withdrawn x) @ mp_withdraw_ops (mpWithdrawn x) (prefixes (mpWithdrawn x)) @
     mp_announce_ops (mpAnnounced x) (attrs x) (prefixes (mpAnnounced x)) @
     map (AnnounceV4 (v4Nexthop x) (attrs x)) (allV4Announced x)"

definition sent_ops :: "BgpUpdate2 \<Rightarrow> route_op list" where
  "sent_ops u =
     map WithdrawV4 (allV4Withdrawn u) @ mp_withdraw_ops (mpWithdrawn u) (prefixes (mpWithdrawn u)) @
     mp_announce_ops (mpAnnounced u) (wire_attrs False (v4Nexthop u) (attrs u)) (prefixes (mpAnnounced u)) @
     map (AnnounceV4 (v4Nexthop u) (wire_attrs True (v4Nexthop u) (attrs u))) (allV4Announced u)"

definition delivers :: "BgpCapabilities \<Rightarrow> route_op list \<Rightarrow> byte list \<Rightarrow> bool" where
  "delivers capa ops msg \<longleftrightarrow> length msg \<le> kMaxBgpMsgLen \<and>
     (\<exists>x. parseBgpMessage msg (Some capa) = Inr (rcvdBgpUpdate x) \<and> route_ops x = ops)"

lemma delivers_update:
  assumes l: "length (update_body w pa n) \<le> kMaxBgpMsgLen - kBgpMsgHeaderLen"
    and w: "parseNlri w AFI_IPv4 SAFI_UNICAST capa = Inr ws"
    and pa: "attr_loop capa pa (init_state\<lparr>v4WithdrawnLen := length w, ps_v4Withdrawn := ws,
               paLen := length pa\<rparr>) = Inr st"
    and ne: "w \<noteq> [] \<or> pa \<noteq> []"
    and n: "parseNlri n AFI_IPv4 SAFI_UNICAST capa = Inr ns"
    and s: "doSanityChecks (st\<lparr>ps_v4Announced := ns\<rparr>) = Inr ()" "ps_eor st = None"
    and Q: "route_ops (buildUpdate (st\<lparr>ps_v4Announced := ns\<rparr>) capa) = ops"
  shows "delivers capa ops (msg_bytes BGP_MSG_TYPE_UPDATE (update_body w pa n))"
proof -
  have "parseBgpUpdateRaw (msg_bytes BGP_MSG_TYPE_UPDATE (update_body w pa n)) capa =
      Inr (UpdateMsg (buildUpdate (st\<lparr>ps_v4Announced := ns\<rparr>) capa))"
    using parseBgpUpdateRaw_body [OF l w pa ne n] s by simp
  from parseBgpMessage_update [OF l this] Q l show ?thesis
    by (simp add: delivers_def length_msg_bytes bgp_consts)
qed

text \<open>
  The path ids of IPv4 prefixes survive \<open>buildUpdate\<close>: it drops them only when no add-path
  capability was received, and then there are none.
\<close>

lemma parsePathIdFlag_addPathCap: "parsePathIdFlag capa AFI_IPv4 SAFI_UNICAST \<Longrightarrow> addPathCap capa"
proof -
  have "fold (\<lambda>cap b. if ap_afi cap = AFI_IPv4 \<and> ap_safi cap = SAFI_UNICAST
             then sor cap = RECEIVE \<or> sor cap = BOTH else b) cs b \<Longrightarrow>
     b \<or> list_ex (\<lambda>c. ap_afi c = AFI_IPv4 \<and> (sor c = RECEIVE \<or> sor c = BOTH)) cs" for cs b
    by (induction cs arbitrary: b) (auto split: if_splits)
  from this [of "addPathCapabilities capa" False] show "parsePathIdFlag capa AFI_IPv4 SAFI_UNICAST \<Longrightarrow> addPathCap capa"
    by (simp add: parsePathIdFlag_def addPathCap_def)
qed

lemma rig_unicast:
  assumes "list_all (unicast_ok (parsePathIdFlag capa AFI_IPv4 SAFI_UNICAST) AFI_IPv4) ps"
  shows "map (\<lambda>p. \<lparr>prefix = prefix p, labels = [], pathId = (if addPathCap capa then pathId p else None)\<rparr>) ps = ps"
proof (rule map_idI)
  fix p assume "p \<in> set ps"
  with assms have "unicast_ok (parsePathIdFlag capa AFI_IPv4 SAFI_UNICAST) AFI_IPv4 p"
    by (simp add: list_all_iff)
  then show "\<lparr>prefix = prefix p, labels = [], pathId = (if addPathCap capa then pathId p else None)\<rparr> = p"
    using parsePathIdFlag_addPathCap [of capa]
    by (cases p) (auto simp: unicast_ok_def path_id_ok_def split: option.splits)
qed

lemma unicast_bytes_not_Nil [simp]: "unicast_bytes p \<noteq> []"
  by (simp add: unicast_bytes_def wr8_def)

lemma bex_set_True [simp]: "(\<exists>x\<in>set xs. True) \<longleftrightarrow> xs \<noteq> []"
  by (cases xs) auto

abbreviation v4_ok :: "BgpCapabilities \<Rightarrow> RiggedIPPrefix list \<Rightarrow> bool" where
  "v4_ok capa \<equiv> list_all (unicast_ok (parsePathIdFlag capa AFI_IPv4 SAFI_UNICAST) AFI_IPv4)"

lemma all_v4_build:
  assumes "v4_ok capa (ps_v4Withdrawn st)" "v4_ok capa (ps_v4Announced st)"
  shows "allV4Withdrawn (buildUpdate st capa) = ps_v4Withdrawn st"
    "allV4Announced (buildUpdate st capa) = ps_v4Announced st"
  using rig_unicast [OF assms(1)] rig_unicast [OF assms(2)]
  by (auto simp: allV4Withdrawn_def allV4Announced_def buildUpdate_def Let_def simp del: map_eq_conv)

lemma route_ops_build:
  assumes "v4_ok capa (ps_v4Withdrawn st)" "v4_ok capa (ps_v4Announced st)"
  shows "route_ops (buildUpdate st capa) =
    map WithdrawV4 (ps_v4Withdrawn st) @
    map (WithdrawMp (mpWithdrawnAfi st) (mpWithdrawnSafi st)) (ps_mpWithdrawn st) @
    map (AnnounceMp (mpAnnouncedAfi st) (mpAnnouncedSafi st) (ps_mpNexthop st) (ps_attrs st)) (ps_mpAnnounced st) @
    map (AnnounceV4 (ps_v4Nexthop st) (ps_attrs st)) (ps_v4Announced st)"
  unfolding route_ops_def all_v4_build [OF assms]
  by (simp add: buildUpdate_def mp_withdraw_ops_def mp_announce_ops_def Let_def)

lemmas build_simps = route_ops_build mp_withdraw_ops_def mp_announce_ops_def

lemma v4_withdrawal_delivered:
  assumes ok: "v4_ok capa qs" and qs: "qs \<noteq> []"
    and l: "length (concat (map unicast_bytes qs)) \<le> kMaxBgpUpdateVarLen"
  shows "delivers capa (map WithdrawV4 qs)
    (msg_bytes BGP_MSG_TYPE_UPDATE (update_body (concat (map unicast_bytes qs)) [] []))"
  using l qs ok
  by (intro delivers_update [where ws = qs and ns = "[]"] parseNlri_unicast_bytes [OF ok])
     (auto simp: length_update_body bgp_consts doSanityChecks_def init_state_def build_simps)

lemma mp_withdrawal_delivered:
  assumes mp: "mp_ok capa (mpWithdrawn u)" "set qs \<subseteq> set (prefixes (mpWithdrawn u))" and qs: "qs \<noteq> []"
    and pa: "pa = attr_ext 0x90 BGP_ATTR_MP_UNREACH_NLRI (wr16 (afi_code (nlri_afi (mpWithdrawn u))) @
           wr8 (safi_code (nlri_safi (mpWithdrawn u))) @ concat (map unicast_bytes qs))"
    and l: "length pa \<le> kMaxBgpUpdateVarLen"
  shows "delivers capa (mp_withdraw_ops (mpWithdrawn u) qs) (msg_bytes BGP_MSG_TYPE_UPDATE (update_body [] pa []))"
proof (rule delivers_update [where ws = "[]" and ns = "[]"])
  let ?st = "init_state\<lparr>v4WithdrawnLen := 0, ps_v4Withdrawn := [], paLen := length pa\<rparr>"
  have "length (concat (map unicast_bytes qs)) < 60000"
    using l by (simp add: pa attr_ext_def bgp_consts)
  from mp_unreach_step [OF _ _ this parseMpNlri_unicast [OF mp], of "[]" ?st] mp qs
  show "attr_loop capa pa (init_state\<lparr>v4WithdrawnLen := length [], ps_v4Withdrawn := [], paLen := length pa\<rparr>) =
      Inr (?st\<lparr>mpWithdrawnAfi := nlri_afi (mpWithdrawn u), mpWithdrawnSafi := nlri_safi (mpWithdrawn u),
             ps_mpWithdrawn := qs\<rparr>)"
    by (simp add: pa mp_ok_def)
qed (use l in \<open>auto simp: length_update_body bgp_consts doSanityChecks_def init_state_def build_simps pa attr_ext_def\<close>)
lemma announced_sane:
  "hasOriginAttr st \<Longrightarrow> hasAsPathAttr st \<Longrightarrow> ps_v4Announced st = [] \<or> ps_v4Nexthop st \<noteq> IPEmpty \<Longrightarrow>
     doSanityChecks st = Inr ()"
  by (auto simp: doSanityChecks_def)

lemma init_attrs [simp]: "ps_attrs init_state = default_attrs" "ps_v4Nexthop init_state = IPEmpty"
  by (simp_all add: init_state_def)

lemma mp_announcement_delivered:
  assumes a: "attrs_ok (as4byte capa) (attrs u)"
    and mp: "mp_ok capa (mpAnnounced u)" "set qs \<subseteq> set (prefixes (mpAnnounced u))"
    and nh: "nexthop_ok capa (mpAnnounced u)"
    and attr: "attr = attr_ext 0x90 BGP_ATTR_MP_REACH_NLRI
           (wr16 (afi_code (nlri_afi (mpAnnounced u))) @ wr8 (safi_code (nlri_safi (mpAnnounced u))) @
            wr8 (int (length (ip_bytes (nlri_nexthop (mpAnnounced u))))) @
            ip_bytes (nlri_nexthop (mpAnnounced u)) @ [0] @ concat (map unicast_bytes qs))"
    and pa: "pa = path_attr_bytes u (as4byte capa) False"
    and l: "length (pa @ attr) \<le> kMaxBgpUpdateVarLen"
  shows "delivers capa (mp_announce_ops (mpAnnounced u) (wire_attrs False (v4Nexthop u) (attrs u)) qs) (msg_bytes BGP_MSG_TYPE_UPDATE (update_body [] (pa @ attr) []))"
proof (rule delivers_update [where ws = "[]" and ns = "[]"])
  let ?st = "init_state\<lparr>v4WithdrawnLen := 0, ps_v4Withdrawn := [], paLen := length (pa @ attr)\<rparr>"
  let ?st1 = "?st\<lparr>ps_attrs := wire_attrs False (v4Nexthop u) (attrs u), ps_v4Nexthop := IPEmpty,
                 hasOriginAttr := True, hasAsPathAttr := True\<rparr>"
  have n: "length (concat (map unicast_bytes qs)) < 60000" "length pa < 65536"
    using l by (simp_all add: attr attr_ext_def bgp_consts)
  have "attr_loop capa (pa @ attr) ?st = attr_loop capa attr ?st1"
    using path_attr_bytes_loop [OF a _ n(2) [unfolded pa], of ?st attr] by (simp add: pa)
  also have "\<dots> = Inr (?st1\<lparr>mpAnnouncedAfi := nlri_afi (mpAnnounced u),
      mpAnnouncedSafi := nlri_safi (mpAnnounced u), ps_mpNexthop := nlri_nexthop (mpAnnounced u),
      ps_mpAnnounced := qs\<rparr>)"
    using mp_reach_step [OF _ nh n(1) parseMpNlri_unicast [OF mp], of "[]" ?st1] mp
    by (simp add: attr mp_ok_def)
  finally show "attr_loop capa (pa @ attr) (init_state\<lparr>v4WithdrawnLen := length [],
      ps_v4Withdrawn := [], paLen := length (pa @ attr)\<rparr>) = \<dots>" by simp
qed (use l in \<open>auto simp: length_update_body bgp_consts announced_sane init_state_def build_simps attr attr_ext_def\<close>)

lemma v4_announcement_delivered:
  assumes a: "attrs_ok (as4byte capa) (attrs u)" and ok: "v4_ok capa qs"
    and nh: "isV4 (v4Nexthop u)" "v4Nexthop u \<noteq> IPEmpty" and pa: "pa = path_attr_bytes u (as4byte capa) True"
    and l: "length (pa @ concat (map unicast_bytes qs)) \<le> kMaxBgpUpdateVarLen"
  shows "delivers capa (map (AnnounceV4 (v4Nexthop u) (wire_attrs True (v4Nexthop u) (attrs u))) qs)
    (msg_bytes BGP_MSG_TYPE_UPDATE (update_body [] pa (concat (map unicast_bytes qs))))"
proof (rule delivers_update [where ws = "[]" and ns = qs])
  let ?st = "init_state\<lparr>v4WithdrawnLen := 0, ps_v4Withdrawn := [], paLen := length pa\<rparr>"
  have n: "length pa < 65536" using l by (simp add: bgp_consts)
  show "attr_loop capa pa (init_state\<lparr>v4WithdrawnLen := length [], ps_v4Withdrawn := [], paLen := length pa\<rparr>) =
      Inr (?st\<lparr>ps_attrs := wire_attrs True (v4Nexthop u) (attrs u), ps_v4Nexthop := v4Nexthop u,
             hasOriginAttr := True, hasAsPathAttr := True\<rparr>)"
    using path_attr_bytes_loop [OF a _ n [unfolded pa], of ?st "[]"] nh by (simp add: pa)
  show "[] \<noteq> [] \<or> pa \<noteq> []" by (simp add: pa path_attr_bytes_def attr_short_def)
  show "parseNlri (concat (map unicast_bytes qs)) AFI_IPv4 SAFI_UNICAST capa = Inr qs"
    by (rule parseNlri_unicast_bytes [OF ok])
qed (use l nh ok in \<open>auto simp: length_update_body bgp_consts announced_sane init_state_def
       build_simps\<close>)
subsection \<open>Every message takes prefixes, or the loop never ends\<close>

lemma hasPathId_unicast:
  "list_all (unicast_ok pid afi) ps \<Longrightarrow> ps \<noteq> [] \<Longrightarrow> hasPathId ps = pid"
  by (cases ps) (auto simp: hasPathId_def unicast_ok_def path_id_ok_def split: option.splits)

lemma getMaxPrefixLen_le: "getMaxPrefixLen pid v4 \<le> 21"
  by (simp add: getMaxPrefixLen_def bgp_consts)

lemma in_set_take_dropD: "x \<in> set (take n (drop cnt ps)) \<Longrightarrow> x \<in> set ps"
  by (meson in_set_dropD in_set_takeD)

lemma list_all_take_drop: "list_all P ps \<Longrightarrow> list_all P (take n (drop cnt ps))"
  by (auto simp: list_all_iff dest: in_set_take_dropD)

text \<open>The bytes of one NLRI field and the prefixes in it.\<close>

lemma serializeNlri_takes:
  assumes ok: "list_all (unicast_ok pid afi) ps" and "bufSize \<le> room" "cnt < length ps"
    and m: "getMaxPrefixLen pid (afi = AFI_IPv4) \<le> m" and fit: "m + 1 < bufSize"
  obtains n qs where "qs = take n (drop cnt ps)" "qs \<noteq> []" "0 < n" "cnt + n \<le> length ps"
    "serializeNlri room afi SAFI_UNICAST ps bufSize m cnt = Inr (concat (map unicast_bytes qs), cnt + n)"
    "length (concat (map unicast_bytes qs)) \<le> bufSize"
proof -
  from serializeNlri_unicast [OF ok assms(2) _ m] assms(3) obtain n where
    n: "let qs = take n (drop cnt ps); out = concat (map unicast_bytes qs) in
      serializeNlri room afi SAFI_UNICAST ps bufSize m cnt = Inr (out, cnt + n) \<and>
      length out \<le> bufSize \<and> cnt + n \<le> length ps \<and>
      (cnt + n < length ps \<longrightarrow> bufSize \<le> length out + m + 1) \<and>
      (0 < n \<longleftrightarrow> cnt < length ps \<and> m + 1 < bufSize)"
    by (metis less_imp_le_nat)
  then show thesis
    using assms(3) fit by (intro that [of "take n (drop cnt ps)" n]) (auto simp: Let_def)
qed

lemma v4WithdrawnMsg_takes:
  assumes ok: "v4_ok capa ps" and cnt: "cnt < length ps"
    and m: "m = getMaxPrefixLen (parsePathIdFlag capa AFI_IPv4 SAFI_UNICAST) True"
  shows "\<exists>msg n off. v4WithdrawnMsg ps m cnt = Inr (msg, cnt + n, off) \<and> 0 < n \<and> cnt + n \<le> length ps \<and>
           delivers capa (map WithdrawV4 (take n (drop cnt ps))) msg"
proof -
  have fit: "m + 1 < kMaxBgpMsgLen - (kBgpMsgHeaderLen + 2) - 2"
    unfolding m using getMaxPrefixLen_le [of "parsePathIdFlag capa AFI_IPv4 SAFI_UNICAST" True]
    by (simp add: bgp_consts)
  obtain n qs where n: "qs = take n (drop cnt ps)" "qs \<noteq> []" "0 < n" "cnt + n \<le> length ps"
    and s: "serializeNlri (kMaxBgpMsgLen - (kBgpMsgHeaderLen + 2)) AFI_IPv4 SAFI_UNICAST ps
      (kMaxBgpMsgLen - (kBgpMsgHeaderLen + 2) - 2) m cnt = Inr (concat (map unicast_bytes qs), cnt + n)"
    and l: "length (concat (map unicast_bytes qs)) \<le> kMaxBgpMsgLen - (kBgpMsgHeaderLen + 2) - 2"
    by (rule serializeNlri_takes [where room = "kMaxBgpMsgLen - (kBgpMsgHeaderLen + 2)", OF ok _ cnt _ fit])
       (auto simp: m bgp_consts)
  let ?b = "update_body (concat (map unicast_bytes qs)) [] []"
  have "v4WithdrawnMsg ps m cnt = Inr (msg_bytes BGP_MSG_TYPE_UPDATE ?b, cnt + n, None)"
    using s l by (simp add: v4WithdrawnMsg_def serializeBgpMsg_eq update_body_def bgp_consts)
  moreover have "delivers capa (map WithdrawV4 qs) (msg_bytes BGP_MSG_TYPE_UPDATE ?b)"
    using l n ok by (intro v4_withdrawal_delivered) (simp_all add: list_all_take_drop bgp_consts)
  ultimately show ?thesis using n by blast
qed

lemma mpWithdrawnMsg_takes:
  assumes ok: "mp_ok capa (mpWithdrawn u)" and cnt: "cnt < length (prefixes (mpWithdrawn u))"
    and m: "m = getMaxPrefixLen (parsePathIdFlag capa (nlri_afi (mpWithdrawn u)) SAFI_UNICAST) False"
  shows "\<exists>msg n off. mpWithdrawnMsg (mpWithdrawn u) m cnt = Inr (msg, cnt + n, off) \<and> 0 < n \<and>
           cnt + n \<le> length (prefixes (mpWithdrawn u)) \<and>
           delivers capa (mp_withdraw_ops (mpWithdrawn u) (take n (drop cnt (prefixes (mpWithdrawn u))))) msg"
proof -
  let ?mp = "mpWithdrawn u" let ?size = "kMaxBgpMsgLen - (kBgpMsgHeaderLen + 2 + 2 + 4 + 3)"
  have fit: "m + 1 < ?size"
    unfolding m using getMaxPrefixLen_le [of "parsePathIdFlag capa (nlri_afi ?mp) SAFI_UNICAST" False]
    by (simp add: bgp_consts)
  have ok': "list_all (unicast_ok (parsePathIdFlag capa (nlri_afi ?mp) SAFI_UNICAST) (nlri_afi ?mp)) (prefixes ?mp)"
    and safi: "nlri_safi ?mp = SAFI_UNICAST"
    using ok by (simp_all add: mp_ok_def mp_family_ok_def)
  obtain n qs where n: "qs = take n (drop cnt (prefixes ?mp))" "qs \<noteq> []" "0 < n" "cnt + n \<le> length (prefixes ?mp)"
    and s: "serializeNlri ?size (nlri_afi ?mp) SAFI_UNICAST (prefixes ?mp) ?size m cnt =
      Inr (concat (map unicast_bytes qs), cnt + n)"
    and l: "length (concat (map unicast_bytes qs)) \<le> ?size"
    by (rule serializeNlri_takes [OF ok' _ cnt _ fit]) (auto simp: m getMaxPrefixLen_def bgp_consts)
  let ?pa = "attr_ext 0x90 BGP_ATTR_MP_UNREACH_NLRI (wr16 (afi_code (nlri_afi ?mp)) @
      wr8 (safi_code (nlri_safi ?mp)) @ concat (map unicast_bytes qs))"
  have "mpWithdrawnMsg ?mp m cnt = Inr (msg_bytes BGP_MSG_TYPE_UPDATE (update_body [] ?pa []), cnt + n, None)"
    using s l by (simp add: mpWithdrawnMsg_def safi serializeBgpMsg_eq update_body_def attr_ext_def bgp_consts Let_def)
  moreover have "delivers capa (mp_withdraw_ops (mpWithdrawn u) qs) (msg_bytes BGP_MSG_TYPE_UPDATE (update_body [] ?pa []))"
    by (rule mp_withdrawal_delivered [OF ok _ n(2) refl])
       (use l n in \<open>auto simp: attr_ext_def bgp_consts dest: in_set_take_dropD\<close>)
  ultimately show ?thesis using n by blast
qed

lemma mpAnnouncedMsg_takes:
  assumes a: "attrs_ok (as4byte capa) (attrs u)" and ok: "mp_ok capa (mpAnnounced u)"
    and nh: "nexthop_ok capa (mpAnnounced u)" and cnt: "cnt < length (prefixes (mpAnnounced u))"
    and m: "m = getMaxPrefixLen (parsePathIdFlag capa (nlri_afi (mpAnnounced u)) SAFI_UNICAST) False"
    and pa: "pa = path_attr_bytes u (as4byte capa) False"
    and l: "length pa + 9 + length (ip_bytes (nlri_nexthop (mpAnnounced u))) + m + 1 < kMaxBgpUpdateVarLen"
  shows "\<exists>msg n off. mpAnnouncedMsg (mpAnnounced u) pa m cnt = Inr (msg, cnt + n, off) \<and> 0 < n \<and>
           cnt + n \<le> length (prefixes (mpAnnounced u)) \<and>
           delivers capa (mp_announce_ops (mpAnnounced u) (wire_attrs False (v4Nexthop u) (attrs u)) (take n (drop cnt (prefixes (mpAnnounced u))))) msg"
proof -
  let ?mp = "mpAnnounced u" let ?nh = "ip_bytes (nlri_nexthop ?mp)"
  let ?size = "kMaxBgpMsgLen - (kBgpMsgHeaderLen + 2 + 2 + length pa + 4 + 3 + 1 + length ?nh + 1)"
  have fit: "m + 1 < ?size" using l by (simp add: bgp_consts)
  have ok': "list_all (unicast_ok (parsePathIdFlag capa (nlri_afi ?mp) SAFI_UNICAST) (nlri_afi ?mp)) (prefixes ?mp)"
    and safi: "nlri_safi ?mp = SAFI_UNICAST"
    using ok by (simp_all add: mp_ok_def mp_family_ok_def)
  obtain n qs where n: "qs = take n (drop cnt (prefixes ?mp))" "qs \<noteq> []" "0 < n" "cnt + n \<le> length (prefixes ?mp)"
    and s: "serializeNlri ?size (nlri_afi ?mp) SAFI_UNICAST (prefixes ?mp) ?size m cnt =
      Inr (concat (map unicast_bytes qs), cnt + n)"
    and len: "length (concat (map unicast_bytes qs)) \<le> ?size"
    by (rule serializeNlri_takes [OF ok' _ cnt _ fit]) (auto simp: m getMaxPrefixLen_def bgp_consts)
  let ?attr = "attr_ext 0x90 BGP_ATTR_MP_REACH_NLRI (wr16 (afi_code (nlri_afi ?mp)) @
      wr8 (safi_code (nlri_safi ?mp)) @ wr8 (int (length ?nh)) @ ?nh @ [0] @ concat (map unicast_bytes qs))"
  have sz: "length (pa @ ?attr) \<le> kMaxBgpUpdateVarLen"
    using len fit by (simp add: attr_ext_def bgp_consts)
  have "\<exists>off. mpAnnouncedMsg ?mp pa m cnt =
      Inr (msg_bytes BGP_MSG_TYPE_UPDATE (update_body [] (pa @ ?attr) []), cnt + n, off)"
    using s sz by (simp add: mpAnnouncedMsg_def safi serializeBgpMsg_eq update_body_def attr_ext_def bgp_consts Let_def
        add_ac)
  moreover have "delivers capa (mp_announce_ops (mpAnnounced u) (wire_attrs False (v4Nexthop u) (attrs u)) qs) (msg_bytes BGP_MSG_TYPE_UPDATE (update_body [] (pa @ ?attr) []))"
    by (rule mp_announcement_delivered [OF a ok _ nh refl pa sz]) (use n in \<open>auto dest: in_set_take_dropD\<close>)
  ultimately show ?thesis using n by blast
qed

lemma v4AnnouncedMsg_takes:
  assumes a: "attrs_ok (as4byte capa) (attrs u)" and ok: "v4_ok capa ps"
    and nh: "isV4 (v4Nexthop u)" and cnt: "cnt < length ps"
    and m: "m = getMaxPrefixLen (parsePathIdFlag capa AFI_IPv4 SAFI_UNICAST) True"
    and pa: "pa = path_attr_bytes u (as4byte capa) True"
    and l: "length pa + m + 1 < kMaxBgpUpdateVarLen"
  shows "\<exists>msg n off'. v4AnnouncedMsg ps pa off m cnt = Inr (msg, cnt + n, off') \<and> 0 < n \<and>
           cnt + n \<le> length ps \<and> delivers capa (map (AnnounceV4 (v4Nexthop u) (wire_attrs True (v4Nexthop u) (attrs u))) (take n (drop cnt ps))) msg"
proof -
  let ?size = "kMaxBgpMsgLen - (kBgpMsgHeaderLen + 2 + 2 + length pa)"
  have fit: "m + 1 < ?size" using l by (simp add: bgp_consts)
  obtain n qs where n: "qs = take n (drop cnt ps)" "qs \<noteq> []" "0 < n" "cnt + n \<le> length ps"
    and s: "serializeNlri ?size AFI_IPv4 SAFI_UNICAST ps ?size m cnt = Inr (concat (map unicast_bytes qs), cnt + n)"
    and len: "length (concat (map unicast_bytes qs)) \<le> ?size"
    by (rule serializeNlri_takes [OF ok _ cnt _ fit]) (auto simp: m)
  have sz: "length (pa @ concat (map unicast_bytes qs)) \<le> kMaxBgpUpdateVarLen"
    using len fit by (simp add: bgp_consts)
  have "v4AnnouncedMsg ps pa off m cnt =
      Inr (msg_bytes BGP_MSG_TYPE_UPDATE (update_body [] pa (concat (map unicast_bytes qs))), cnt + n,
           Some (kBgpMsgHeaderLen + 2 + 2 + off, True))"
    using s sz by (simp add: v4AnnouncedMsg_def serializeBgpMsg_eq update_body_def bgp_consts Let_def)
  moreover have "delivers capa (map (AnnounceV4 (v4Nexthop u) (wire_attrs True (v4Nexthop u) (attrs u))) qs)
      (msg_bytes BGP_MSG_TYPE_UPDATE (update_body [] pa (concat (map unicast_bytes qs))))"
    by (rule v4_announcement_delivered [OF a _ nh _ pa sz]) (use n ok nh in \<open>auto simp: list_all_take_drop\<close>)
  ultimately show ?thesis using n by blast
qed
subsection \<open>The whole chain of messages\<close>

text \<open>The updates \<open>xs\<close> a peer receives from the messages \<open>ms\<close>, one per message.\<close>

definition received :: "BgpCapabilities \<Rightarrow> byte list list \<Rightarrow> BgpUpdate2 list \<Rightarrow> bool" where
  "received capa ms xs \<longleftrightarrow>
     list_all2 (\<lambda>m x. length m \<le> kMaxBgpMsgLen \<and>
       parseBgpMessage m (Some capa) = Inr (rcvdBgpUpdate x)) ms xs"

lemma received_append:
  "received capa ms xs \<Longrightarrow> received capa ms' xs' \<Longrightarrow> received capa (ms @ ms') (xs @ xs')"
  by (simp add: received_def list_all2_appendI)

lemma chunks_received:
  assumes "chunks (\<lambda>cnt n m. delivers capa (map f (take n (drop cnt ps))) (fst m)) cnt (length ps) ms"
  shows "\<exists>xs. received capa (map fst ms) xs \<and> concat (map route_ops xs) = map f (drop cnt ps)"
  using assms
proof (induction ms arbitrary: cnt)
  case Nil
  then show ?case by (auto simp: received_def)
next
  case (Cons m ms)
  then obtain n x where x: "length (fst m) \<le> kMaxBgpMsgLen"
      "parseBgpMessage (fst m) (Some capa) = Inr (rcvdBgpUpdate x)"
      "route_ops x = map f (take n (drop cnt ps))"
    and r: "chunks (\<lambda>cnt n m. delivers capa (map f (take n (drop cnt ps))) (fst m)) (cnt + n) (length ps) ms"
    by (auto simp: delivers_def)
  from Cons.IH [OF r] obtain xs where xs: "received capa (map fst ms) xs"
    "concat (map route_ops xs) = map f (drop (cnt + n) ps)" by blast
  have "drop cnt ps = take n (drop cnt ps) @ drop (cnt + n) ps"
    by (metis add.commute append_take_drop_id drop_drop)
  then have "concat (map route_ops (x # xs)) = map f (drop cnt ps)"
    using x(3) xs(2) by (simp flip: map_append)
  with x xs(1) show ?case by (intro exI [of _ "x # xs"]) (simp add: received_def)
qed

lemma append_msgs_msgs [simp]: "msgs (append_msgs track ms q) = msgs q @ map fst ms"
  by (induction ms arbitrary: q) (auto simp: append_msgs_def append_msg_def)

text \<open>One part of the chain: it returns, and what it appends is received as the operations \<open>ops\<close>.\<close>

definition part_sent ::
  "BgpCapabilities \<Rightarrow> route_op list \<Rightarrow> (update_queue \<Rightarrow> (bgp_exn + update_queue) option) \<Rightarrow> bool" where
  "part_sent capa ops F \<longleftrightarrow>
     (\<forall>q. \<exists>q' ms xs. F q = Some (Inr q') \<and> msgs q' = msgs q @ ms \<and> received capa ms xs \<and>
        concat (map route_ops xs) = ops)"

lemma part_sent_none: "part_sent capa [] (\<lambda>q. Some (Inr q))"
proof -
  have "received capa [] []" by (simp add: received_def)
  then show ?thesis unfolding part_sent_def by force
qed

lemma part_sent_then:
  assumes "part_sent capa ops F" "part_sent capa ops' G"
  shows "part_sent capa (ops @ ops') (\<lambda>q. then_pack (F q) G)"
  unfolding part_sent_def
proof
  fix q
  from assms(1) obtain q1 ms xs where 1: "F q = Some (Inr q1)" "msgs q1 = msgs q @ ms"
    "received capa ms xs" "concat (map route_ops xs) = ops" unfolding part_sent_def by blast
  from assms(2) obtain q2 ms' xs' where 2: "G q1 = Some (Inr q2)" "msgs q2 = msgs q1 @ ms'"
    "received capa ms' xs'" "concat (map route_ops xs') = ops'" unfolding part_sent_def by blast
  show "\<exists>q' ms xs. then_pack (F q) G = Some (Inr q') \<and> msgs q' = msgs q @ ms \<and> received capa ms xs \<and>
      concat (map route_ops xs) = ops @ ops'"
    using 1 2 received_append [OF 1(3) 2(3)]
    by (intro exI [of _ q2] exI [of _ "ms @ ms'"] exI [of _ "xs @ xs'"]) (simp add: then_pack_def)
qed

lemma part_sent_loop:
  assumes "\<And>cnt. cnt < length ps \<Longrightarrow> \<exists>msg n off. step cnt = Inr (msg, cnt + n, off) \<and> 0 < n \<and>
      cnt + n \<le> length ps \<and> delivers capa (map f (take n (drop cnt ps))) msg"
  shows "part_sent capa (map f ps) (packLoop step track (length ps) 0)"
  unfolding part_sent_def
proof
  fix q
  obtain ms where ms: "packLoop step track (length ps) 0 q = Some (Inr (append_msgs track ms q))"
    "chunks (\<lambda>cnt n m. delivers capa (map f (take n (drop cnt ps))) (fst m)) 0 (length ps) ms"
    using packLoop_returns [of "length ps" step
        "\<lambda>cnt n m. delivers capa (map f (take n (drop cnt ps))) (fst m)" 0 track q] assms by auto
  from chunks_received [OF ms(2)] ms(1)
  show "\<exists>q' ms xs. packLoop step track (length ps) 0 q = Some (Inr q') \<and> msgs q' = msgs q @ ms \<and>
      received capa ms xs \<and> concat (map route_ops xs) = map f ps"
    by (metis append_msgs_msgs drop0)
qed

subsection \<open>Updates that can be sent\<close>

text \<open>
  What the callers of \<open>serializeBgpUpdate2\<close> guarantee for a peer with the capabilities \<open>capa\<close>:
  one of the two formats per IPv4 list, something to send, unicast prefixes of negotiated families
  with a path id exactly if add-path was negotiated, a next hop of the right family, and attributes
  within the widths of the wire format.
\<close>

definition update_ok :: "BgpCapabilities \<Rightarrow> BgpUpdate2 \<Rightarrow> bool" where
  "update_ok capa u \<longleftrightarrow>
     (v4Announced2 u = [] \<or> v4Announced u = []) \<and> (v4Withdrawn2 u = [] \<or> v4Withdrawn u = []) \<and>
     (allV4Announced u \<noteq> [] \<or> allV4Withdrawn u \<noteq> [] \<or> prefixes (mpAnnounced u) \<noteq> [] \<or>
      prefixes (mpWithdrawn u) \<noteq> []) \<and>
     v4_ok capa (allV4Announced u) \<and> v4_ok capa (allV4Withdrawn u) \<and>
     (prefixes (mpWithdrawn u) \<noteq> [] \<longrightarrow> mp_ok capa (mpWithdrawn u)) \<and>
     (prefixes (mpAnnounced u) \<noteq> [] \<longrightarrow> mp_ok capa (mpAnnounced u) \<and> nexthop_ok capa (mpAnnounced u)) \<and>
     (allV4Announced u \<noteq> [] \<longrightarrow> isV4 (v4Nexthop u)) \<and> attrs_ok (as4byte capa) (attrs u)"

text \<open>
  The size the code compares with \<open>kMaxBgpUpdateVarLen\<close> before each of the two announcing loops.
\<close>

definition mp_announce_size :: "BgpCapabilities \<Rightarrow> BgpUpdate2 \<Rightarrow> nat" where
  "mp_announce_size capa u =
     length (path_attr_bytes u (as4byte capa) False) + kMpAnnouncedAttrLen +
     getMaxPrefixLen (hasPathId (prefixes (mpAnnounced u))) False"

definition v4_announce_size :: "BgpCapabilities \<Rightarrow> BgpUpdate2 \<Rightarrow> nat" where
  "v4_announce_size capa u =
     length (path_attr_bytes u (as4byte capa) True) + getMaxPrefixLen (hasPathId (allV4Announced u)) True"

lemma serializePathAttrs_ok:
  assumes "attrs_ok as4 (attrs u)" "v4 \<longrightarrow> v4Nexthop u \<noteq> IPEmpty"
    and "length (path_attr_bytes u as4 v4) \<le> kMaxBgpUpdateVarLen"
  shows "serializePathAttrs kMaxBgpUpdateVarLen u as4 v4 =
    Inr (path_attr_bytes u as4 v4, if v4 then Some (length (as_path_bytes as4 (attrs u)) + 11) else None)"
proof -
  have "length (as_path_bytes as4 (attrs u)) \<le> 0xFFF"
    using assms(3) by (simp add: path_attr_bytes_def attr_ext_def bgp_consts)
  with assms(3) serializePathAttrs_eq [OF assms(2) attrs_okD(2,1) [OF assms(1)], of as4 kMaxBgpUpdateVarLen]
  show ?thesis by (simp split: if_splits)
qed

lemma packV4Withdrawn_sent:
  assumes "update_ok capa u"
  shows "part_sent capa (map WithdrawV4 (allV4Withdrawn u)) (packV4Withdrawn u track)"
proof (cases "allV4Withdrawn u = []")
  case True
  then show ?thesis using part_sent_none by (simp add: packV4Withdrawn_def [abs_def])
next
  case False
  have ok: "v4_ok capa (allV4Withdrawn u)" using assms by (simp add: update_ok_def)
  show ?thesis
    using False v4WithdrawnMsg_takes [OF ok] hasPathId_unicast [OF ok False]
    by (simp add: packV4Withdrawn_def [abs_def] Let_def part_sent_loop)
qed

lemma packMpWithdrawn_sent:
  assumes "update_ok capa u"
  shows "part_sent capa (mp_withdraw_ops (mpWithdrawn u) (prefixes (mpWithdrawn u))) (packMpWithdrawn u track)"
proof (cases "prefixes (mpWithdrawn u) = []")
  case True
  then show ?thesis using part_sent_none by (simp add: packMpWithdrawn_def [abs_def] mp_withdraw_ops_def)
next
  case False
  then have ok: "mp_ok capa (mpWithdrawn u)" using assms by (simp add: update_ok_def)
  then have "hasPathId (prefixes (mpWithdrawn u)) =
      parsePathIdFlag capa (nlri_afi (mpWithdrawn u)) SAFI_UNICAST"
    using False by (intro hasPathId_unicast) (auto simp: mp_ok_def)
  with False mpWithdrawnMsg_takes [OF ok] show ?thesis
    unfolding mp_withdraw_ops_def by (simp add: packMpWithdrawn_def [abs_def] Let_def part_sent_loop)
qed

lemma packMpAnnounced_sent:
  assumes ok: "update_ok capa u"
    and room: "prefixes (mpAnnounced u) \<noteq> [] \<longrightarrow> mp_announce_size capa u \<le> kMaxBgpUpdateVarLen \<and>
      (isV6 (nlri_nexthop (mpAnnounced u)) \<longrightarrow> mp_announce_size capa u + 1 < kMaxBgpUpdateVarLen)"
  shows "part_sent capa (mp_announce_ops (mpAnnounced u) (wire_attrs False (v4Nexthop u) (attrs u))
      (prefixes (mpAnnounced u))) (packMpAnnounced u (as4byte capa) track)"
proof (cases "prefixes (mpAnnounced u) = []")
  case True
  then show ?thesis using part_sent_none by (simp add: packMpAnnounced_def [abs_def] mp_announce_ops_def)
next
  case False
  let ?mp = "mpAnnounced u" let ?pa = "path_attr_bytes u (as4byte capa) False"
  let ?m = "getMaxPrefixLen (parsePathIdFlag capa (nlri_afi ?mp) SAFI_UNICAST) False"
  from False ok have mp: "mp_ok capa ?mp" "nexthop_ok capa ?mp" "attrs_ok (as4byte capa) (attrs u)"
    by (simp_all add: update_ok_def)
  have pid: "hasPathId (prefixes ?mp) = parsePathIdFlag capa (nlri_afi ?mp) SAFI_UNICAST"
    using False mp by (intro hasPathId_unicast) (auto simp: mp_ok_def)
  have sz: "length ?pa + kMpAnnouncedAttrLen + ?m \<le> kMaxBgpUpdateVarLen"
    using room False by (simp add: mp_announce_size_def pid)
  have l: "length ?pa + 9 + length (ip_bytes (nlri_nexthop ?mp)) + ?m + 1 < kMaxBgpUpdateVarLen"
    using room False mp(2) by (cases "nlri_nexthop ?mp")
      (auto simp: mp_announce_size_def pid nexthop_ok_def kMpAnnouncedAttrLen_def)
  have "serializePathAttrs kMaxBgpUpdateVarLen u (as4byte capa) False = Inr (?pa, None)"
    using serializePathAttrs_ok [OF mp(3), of False] sz by simp
  with False sz mpAnnouncedMsg_takes [OF mp(3,1,2) _ refl refl l] show ?thesis
    unfolding mp_announce_ops_def
    by (simp add: packMpAnnounced_def [abs_def] Let_def then_pack_def pid part_sent_loop)
qed

lemma packV4Announced_sent:
  assumes ok: "update_ok capa u"
    and room: "allV4Announced u \<noteq> [] \<longrightarrow> v4_announce_size capa u + 1 < kMaxBgpUpdateVarLen"
  shows "part_sent capa (map (AnnounceV4 (v4Nexthop u) (wire_attrs True (v4Nexthop u) (attrs u)))
      (allV4Announced u)) (packV4Announced u (as4byte capa) track)"
proof (cases "allV4Announced u = []")
  case True
  then show ?thesis using part_sent_none by (simp add: packV4Announced_def [abs_def])
next
  case False
  let ?ps = "allV4Announced u" let ?pa = "path_attr_bytes u (as4byte capa) True"
  let ?m = "getMaxPrefixLen (parsePathIdFlag capa AFI_IPv4 SAFI_UNICAST) True"
  from False ok have v4: "v4_ok capa ?ps" "isV4 (v4Nexthop u)" "attrs_ok (as4byte capa) (attrs u)"
    by (simp_all add: update_ok_def)
  note pid = hasPathId_unicast [OF v4(1) False]
  have l: "length ?pa + ?m + 1 < kMaxBgpUpdateVarLen"
    using room False by (simp add: v4_announce_size_def pid)
  have "serializePathAttrs kMaxBgpUpdateVarLen u (as4byte capa) True =
      Inr (?pa, Some (length (as_path_bytes (as4byte capa) (attrs u)) + 11))"
    using serializePathAttrs_ok [OF v4(3), of True] l v4(2) by (cases "v4Nexthop u") auto
  with False l v4AnnouncedMsg_takes [OF v4(3,1,2) _ refl refl l] show ?thesis
    by (simp add: packV4Announced_def [abs_def] Let_def then_pack_def pid part_sent_loop)
qed

text \<open>
  With too little room left no prefix is taken: the loop appends messages without prefixes for ever.
\<close>

lemma serializeNlri_stuck:
  "bufSize \<le> m + 1 \<Longrightarrow> serializeNlri room afi safi ps bufSize m cnt = Inr ([], cnt)"
  by (cases "drop cnt ps") (simp_all add: serializeNlri_def)

definition mp_stalls :: "BgpCapabilities \<Rightarrow> BgpUpdate2 \<Rightarrow> bool" where
  "mp_stalls capa u \<longleftrightarrow> prefixes (mpAnnounced u) \<noteq> [] \<and> isV6 (nlri_nexthop (mpAnnounced u)) \<and>
     mp_announce_size capa u \<in> {kMaxBgpUpdateVarLen - 1, kMaxBgpUpdateVarLen}"

definition v4_stalls :: "BgpCapabilities \<Rightarrow> BgpUpdate2 \<Rightarrow> bool" where
  "v4_stalls capa u \<longleftrightarrow> allV4Announced u \<noteq> [] \<and>
     v4_announce_size capa u \<in> {kMaxBgpUpdateVarLen - 1, kMaxBgpUpdateVarLen}"

lemma packMpAnnounced_stalls:
  assumes ok: "attrs_ok (as4byte capa) (attrs u)" and st: "mp_stalls capa u"
  shows "packMpAnnounced u (as4byte capa) track q = None"
proof -
  let ?mp = "mpAnnounced u" let ?pa = "path_attr_bytes u (as4byte capa) False"
  let ?m = "getMaxPrefixLen (hasPathId (prefixes ?mp)) False"
  from st have ne: "prefixes ?mp \<noteq> []" and nh: "length (ip_bytes (nlri_nexthop ?mp)) = 16"
    and sz: "length ?pa + 25 + ?m = 4072 \<or> length ?pa + 25 + ?m = 4073"
    by (cases "nlri_nexthop ?mp"; auto simp: mp_stalls_def mp_announce_size_def kMpAnnouncedAttrLen_def bgp_consts)+
  have pa: "serializePathAttrs kMaxBgpUpdateVarLen u (as4byte capa) False = Inr (?pa, None)"
    using serializePathAttrs_ok [OF ok, of False] sz by (auto simp: bgp_consts)
  have "\<exists>msg off. mpAnnouncedMsg ?mp ?pa ?m 0 = Inr (msg, 0, off)"
    using sz by (auto simp: mpAnnouncedMsg_def nh serializeNlri_stuck serializeBgpMsg_eq bgp_consts)
  with packLoop_stuck [of "mpAnnouncedMsg ?mp ?pa ?m" 0] ne
  have "packLoop (mpAnnouncedMsg ?mp ?pa ?m) track (length (prefixes ?mp)) 0 q = None" by auto
  with pa ne sz show ?thesis
    by (auto simp: packMpAnnounced_def then_pack_def kMpAnnouncedAttrLen_def bgp_consts Let_def)
qed

lemma packV4Announced_stalls:
  assumes ok: "attrs_ok (as4byte capa) (attrs u)" "isV4 (v4Nexthop u)" and st: "v4_stalls capa u"
  shows "packV4Announced u (as4byte capa) track q = None"
proof -
  let ?ps = "allV4Announced u" let ?pa = "path_attr_bytes u (as4byte capa) True"
  let ?m = "getMaxPrefixLen (hasPathId ?ps) True"
  let ?off = "length (as_path_bytes (as4byte capa) (attrs u)) + 11"
  from st have ne: "?ps \<noteq> []" and sz: "length ?pa + ?m = 4072 \<or> length ?pa + ?m = 4073"
    by (auto simp: v4_stalls_def v4_announce_size_def bgp_consts)
  have pa: "serializePathAttrs kMaxBgpUpdateVarLen u (as4byte capa) True = Inr (?pa, Some ?off)"
    using serializePathAttrs_ok [OF ok(1), of True] sz ok(2) by (cases "v4Nexthop u") (auto simp: bgp_consts)
  have "\<exists>msg off. v4AnnouncedMsg ?ps ?pa ?off ?m 0 = Inr (msg, 0, off)"
    using sz by (auto simp: v4AnnouncedMsg_def serializeNlri_stuck serializeBgpMsg_eq bgp_consts)
  with packLoop_stuck [of "v4AnnouncedMsg ?ps ?pa ?off ?m" 0] ne
  have "packLoop (v4AnnouncedMsg ?ps ?pa ?off ?m) track (length ?ps) 0 q = None" by auto
  with pa ne sz show ?thesis
    by (auto simp: packV4Announced_def then_pack_def bgp_consts Let_def)
qed
lemma checkUpdate2_ok:
  assumes "update_ok capa u"
  shows "checkUpdate2 u (extNHEncodingCapabilities capa \<noteq> []) = Inr ()"
proof (cases "prefixes (mpAnnounced u) = []")
  case True
  with assms show ?thesis by (auto simp: checkUpdate2_def update_ok_def)
next
  case False
  with assms have "nexthop_ok capa (mpAnnounced u)" by (simp add: update_ok_def)
  with False assms show ?thesis
    by (cases "nlri_nexthop (mpAnnounced u)") (auto simp: checkUpdate2_def update_ok_def nexthop_ok_def)
qed

lemma serializePathAttrs_Inr_bytes:
  assumes "attrs_ok as4 (attrs u)" "serializePathAttrs room u as4 v4 = Inr (pa, off)"
  shows "pa = path_attr_bytes u as4 v4"
  using serializePathAttrs_eq [OF serializePathAttrs_InrD(3) [OF assms(2)] attrs_okD(2,1) [OF assms(1)]
      serializePathAttrs_InrD(1) [OF assms(2)], of room] assms(2)
  by (simp split: if_splits)

lemma packMpAnnounced_too_large:
  assumes "attrs_ok (as4byte capa) (attrs u)" "prefixes (mpAnnounced u) \<noteq> []"
    and "kMaxBgpUpdateVarLen < mp_announce_size capa u"
  shows "\<exists>e. packMpAnnounced u (as4byte capa) track q = Some (Inl e)"
  using assms serializePathAttrs_Inr_bytes [OF assms(1)]
  by (cases "serializePathAttrs kMaxBgpUpdateVarLen u (as4byte capa) False")
     (fastforce simp: packMpAnnounced_def then_pack_def mp_announce_size_def Let_def)+

lemma packV4Announced_too_large:
  assumes "attrs_ok (as4byte capa) (attrs u)" "allV4Announced u \<noteq> []"
    and "kMaxBgpUpdateVarLen < v4_announce_size capa u"
  shows "\<exists>e. packV4Announced u (as4byte capa) track q = Some (Inl e)"
  using assms serializePathAttrs_Inr_bytes [OF assms(1)]
  by (cases "serializePathAttrs kMaxBgpUpdateVarLen u (as4byte capa) True")
     (fastforce simp: packV4Announced_def then_pack_def v4_announce_size_def Let_def)+

text \<open>The withdrawing half always returns; the rest depends on the two announcing loops.\<close>

lemma serializeBgpUpdate2_withdrawn:
  assumes "update_ok capa u"
  shows "\<exists>q xs. received capa (msgs q) xs \<and>
     concat (map route_ops xs) = map WithdrawV4 (allV4Withdrawn u) @
       mp_withdraw_ops (mpWithdrawn u) (prefixes (mpWithdrawn u)) \<and>
     serializeBgpUpdate2 u (as4byte capa) (extNHEncodingCapabilities capa \<noteq> []) track =
       then_pack (packMpAnnounced u (as4byte capa) track q) (packV4Announced u (as4byte capa) track)"
proof -
  let ?q0 = "\<lparr>msgs = [], nexthopOffsets = []\<rparr>"
  have "part_sent capa (map WithdrawV4 (allV4Withdrawn u) @
      mp_withdraw_ops (mpWithdrawn u) (prefixes (mpWithdrawn u)))
      (\<lambda>q. then_pack (packV4Withdrawn u track q) (packMpWithdrawn u track))"
    using packV4Withdrawn_sent [OF assms] packMpWithdrawn_sent [OF assms] by (rule part_sent_then)
  then obtain q ms xs where q: "then_pack (packV4Withdrawn u track ?q0) (packMpWithdrawn u track) = Some (Inr q)"
    "msgs q = msgs ?q0 @ ms" "received capa ms xs" "concat (map route_ops xs) = map WithdrawV4 (allV4Withdrawn u) @
       mp_withdraw_ops (mpWithdrawn u) (prefixes (mpWithdrawn u))"
    unfolding part_sent_def by blast
  have "serializeBgpUpdate2 u (as4byte capa) (extNHEncodingCapabilities capa \<noteq> []) track =
      then_pack (packMpAnnounced u (as4byte capa) track q) (packV4Announced u (as4byte capa) track)"
    using q(1) unfolding serializeBgpUpdate2_def checkUpdate2_ok [OF assms]
    by (auto simp: then_pack_def split: option.splits sum.splits)
  with q show ?thesis by auto
qed

lemma serializeBgpUpdate2_chain:
  assumes ok: "update_ok capa u"
    and mp: "prefixes (mpAnnounced u) \<noteq> [] \<longrightarrow> mp_announce_size capa u \<le> kMaxBgpUpdateVarLen"
    and v4: "allV4Announced u \<noteq> [] \<longrightarrow> v4_announce_size capa u \<le> kMaxBgpUpdateVarLen"
    and st: "\<not> mp_stalls capa u" "\<not> v4_stalls capa u"
  shows "\<exists>q xs. serializeBgpUpdate2 u (as4byte capa) (extNHEncodingCapabilities capa \<noteq> []) track = Some (Inr q) \<and>
     received capa (msgs q) xs \<and>
     concat (map route_ops xs) = sent_ops u"
proof -
  obtain q0 xs0 where 0: "received capa (msgs q0) xs0"
    "concat (map route_ops xs0) = map WithdrawV4 (allV4Withdrawn u) @
       mp_withdraw_ops (mpWithdrawn u) (prefixes (mpWithdrawn u))"
    "serializeBgpUpdate2 u (as4byte capa) (extNHEncodingCapabilities capa \<noteq> []) track =
       then_pack (packMpAnnounced u (as4byte capa) track q0) (packV4Announced u (as4byte capa) track)"
    using serializeBgpUpdate2_withdrawn [OF ok, of track] by blast
  have "part_sent capa (mp_announce_ops (mpAnnounced u) (wire_attrs False (v4Nexthop u) (attrs u))
        (prefixes (mpAnnounced u)) @
      map (AnnounceV4 (v4Nexthop u) (wire_attrs True (v4Nexthop u) (attrs u))) (allV4Announced u))
      (\<lambda>q. then_pack (packMpAnnounced u (as4byte capa) track q) (packV4Announced u (as4byte capa) track))"
    using mp v4 st by (intro part_sent_then packMpAnnounced_sent packV4Announced_sent ok)
      (auto simp: mp_stalls_def v4_stalls_def)
  then obtain q ms xs where
    q: "then_pack (packMpAnnounced u (as4byte capa) track q0) (packV4Announced u (as4byte capa) track) = Some (Inr q)"
    "msgs q = msgs q0 @ ms" "received capa ms xs"
    "concat (map route_ops xs) = mp_announce_ops (mpAnnounced u) (wire_attrs False (v4Nexthop u) (attrs u))
        (prefixes (mpAnnounced u)) @
      map (AnnounceV4 (v4Nexthop u) (wire_attrs True (v4Nexthop u) (attrs u))) (allV4Announced u)"
    unfolding part_sent_def by blast
  with 0 received_append [OF 0(1) q(3)] show ?thesis
    by (intro exI [of _ q] exI [of _ "xs0 @ xs"]) (simp add: sent_ops_def)
qed

text \<open>
  C1. UPDATE messages survive the round trip. For an update that fits the peer's capabilities, and
  outside the sizes of the next property, \<open>serializeBgpUpdate2\<close> returns a chain of messages. Each
  has at most 4096 bytes, each is parsed by the peer's \<open>parseBgpMessage\<close> as an UPDATE, and together
  they announce and withdraw exactly the prefixes of the original, each once, in order, with its
  family, path id, next hop and attributes, withdrawals before announcements.
\<close>

theorem serializeBgpUpdate2_roundtrip:
  assumes ok: "update_ok capa u"
    and mp: "prefixes (mpAnnounced u) \<noteq> [] \<longrightarrow> mp_announce_size capa u \<le> kMaxBgpUpdateVarLen"
    and v4: "allV4Announced u \<noteq> [] \<longrightarrow> v4_announce_size capa u \<le> kMaxBgpUpdateVarLen"
    and st: "\<not> mp_stalls capa u" "\<not> v4_stalls capa u"
  shows "\<exists>q xs. serializeBgpUpdate2 u (as4byte capa) (extNHEncodingCapabilities capa \<noteq> []) track = Some (Inr q) \<and>
     list_all2 (\<lambda>m x. length m \<le> kMaxBgpMsgLen \<and>
       parseBgpMessage m (Some capa) = Inr (rcvdBgpUpdate x)) (msgs q) xs \<and>
     concat (map route_ops xs) = sent_ops u"
  using serializeBgpUpdate2_chain [OF assms, of track] unfolding received_def .

text \<open>
  C25. The exact sizes for which \<open>serializeBgpUpdate2\<close> does not return. The check in front of each
  announcing loop admits attributes that leave one maximal prefix without the extra byte the loop
  condition of \<open>serializeNlri\<close> asks for. Then no prefix is taken and messages without prefixes are
  appended for ever: two values of the compared size, for IPv6 next hops and for IPv4 announcements.
\<close>

theorem serializeBgpUpdate2_diverges:
  assumes ok: "update_ok capa u"
  shows "serializeBgpUpdate2 u (as4byte capa) (extNHEncodingCapabilities capa \<noteq> []) track = None \<longleftrightarrow>
     mp_stalls capa u \<or>
     (prefixes (mpAnnounced u) \<noteq> [] \<longrightarrow> mp_announce_size capa u \<le> kMaxBgpUpdateVarLen) \<and> v4_stalls capa u"
proof -
  let ?M = "packMpAnnounced u (as4byte capa) track" let ?V = "packV4Announced u (as4byte capa) track"
  obtain q where s: "serializeBgpUpdate2 u (as4byte capa) (extNHEncodingCapabilities capa \<noteq> []) track =
       then_pack (?M q) ?V"
    using serializeBgpUpdate2_withdrawn [OF ok, of track] by blast
  have a: "attrs_ok (as4byte capa) (attrs u)" using ok by (simp add: update_ok_def)
  have V: "?V q' = None \<longleftrightarrow> v4_stalls capa u" for q'
  proof (cases "v4_stalls capa u")
    case True
    moreover from True have "isV4 (v4Nexthop u)" using ok by (simp add: v4_stalls_def update_ok_def)
    ultimately show ?thesis using packV4Announced_stalls [OF a] by simp
  next
    case False
    then have "allV4Announced u = [] \<or> kMaxBgpUpdateVarLen < v4_announce_size capa u \<or>
        v4_announce_size capa u + 1 < kMaxBgpUpdateVarLen"
      by (auto simp: v4_stalls_def)
    then consider "allV4Announced u \<noteq> []" "kMaxBgpUpdateVarLen < v4_announce_size capa u"
      | "allV4Announced u \<noteq> [] \<longrightarrow> v4_announce_size capa u + 1 < kMaxBgpUpdateVarLen" by blast
    then show ?thesis
      using packV4Announced_too_large [OF a, of track q'] packV4Announced_sent [OF ok, of track] False
      by cases (auto simp: part_sent_def)
  qed
  show ?thesis
  proof (cases "mp_stalls capa u")
    case True
    then show ?thesis using s packMpAnnounced_stalls [OF a] by (simp add: then_pack_def)
  next
    case False
    then have "prefixes (mpAnnounced u) = [] \<or> kMaxBgpUpdateVarLen < mp_announce_size capa u \<or>
        mp_announce_size capa u \<le> kMaxBgpUpdateVarLen \<and>
        (isV6 (nlri_nexthop (mpAnnounced u)) \<longrightarrow> mp_announce_size capa u + 1 < kMaxBgpUpdateVarLen)"
      by (auto simp: mp_stalls_def)
    then consider "prefixes (mpAnnounced u) \<noteq> []" "kMaxBgpUpdateVarLen < mp_announce_size capa u"
      | "prefixes (mpAnnounced u) \<noteq> [] \<longrightarrow> mp_announce_size capa u \<le> kMaxBgpUpdateVarLen \<and>
          (isV6 (nlri_nexthop (mpAnnounced u)) \<longrightarrow> mp_announce_size capa u + 1 < kMaxBgpUpdateVarLen)"
      by blast
    then show ?thesis
    proof cases
      case 1
      with packMpAnnounced_too_large [OF a 1, of track q] s False show ?thesis by (auto simp: then_pack_def)
    next
      case 2
      from packMpAnnounced_sent [OF ok 2, of track] obtain q' where "?M q = Some (Inr q')"
        unfolding part_sent_def by blast
      with s V 2 False show ?thesis by (simp add: then_pack_def)
    qed
  qed
qed
text \<open>An update with announcements and withdrawals of both kinds, and one that does not come back.\<close>

definition sample_capa :: BgpCapabilities where
  "sample_capa = default_capabilities\<lparr>as4byte := True, mpExtV4Unicast := True, mpExtV6Unicast := True\<rparr>"

definition mixed_update :: BgpUpdate2 where
  "mixed_update = sample_update
     \<lparr>mpAnnounced := \<lparr>nlri_afi = AFI_IPv6, nlri_safi = SAFI_UNICAST,
        prefixes = [\<lparr>prefix = (IPv6 0x20010DB8000000000000000000000000, 32), labels = [], pathId = None\<rparr>],
        nlri_nexthop = IPv6 1\<rparr>,
      v4Withdrawn := [(IPv4 0x0A020000, 16)]\<rparr>"

definition stalled_update :: BgpUpdate2 where
  "stalled_update = sample_update
     \<lparr>attrs := default_attrs\<lparr>communities := replicate 1012 \<lparr>comm_asn = 65530, comm_value = 12\<rparr>\<rparr>\<rparr>"

lemmas update_ok_simps = update_ok_def mp_ok_def mp_family_ok_def nexthop_ok_def allV4Announced_def
  allV4Withdrawn_def toRigged_def sample_capa_def default_capabilities_def parsePathIdFlag_def
  unicast_ok_def path_id_ok_def
  attrs_ok_def segment_ok_def segment_content_def asn_ok_def numUsedSegmentTypes_def empty_segment_def
  default_attrs_def u16_ok_def u32_ok_def has_aggregator_def

lemma sample_cidrs:
  "cidr_ok AFI_IPv4 (IPv4 0x0A010000, 16)" "cidr_ok AFI_IPv4 (IPv4 0x0A020000, 16)"
  "cidr_ok AFI_IPv6 (IPv6 0x20010DB8000000000000000000000000, 32)"
  by code_simp+

lemma mixed_update_ok: "update_ok sample_capa mixed_update"
  by (simp add: mixed_update_def sample_update_def update_ok_simps sample_cidrs)

lemma stalled_update_ok: "update_ok sample_capa stalled_update"
  by (simp add: stalled_update_def sample_update_def update_ok_simps sample_cidrs list_all_iff)

lemma mixed_update_sizes:
  "mp_announce_size sample_capa mixed_update < 100" "v4_announce_size sample_capa mixed_update < 100"
  by code_simp+

lemma stalled_update_stalls: "v4_stalls sample_capa stalled_update" "prefixes (mpAnnounced stalled_update) = []"
  by (simp_all add: v4_stalls_def v4_announce_size_def stalled_update_def sample_update_def allV4Announced_def
      path_attr_bytes_def optional_attr_bytes_def as_path_bytes_def opt_bytes_def attr_short_def attr_ext_def
      default_attrs_def has_aggregator_def getMaxPrefixLen_def hasPathId_def bgp_consts length_concat
      sum_list_replicate sample_capa_def)

theorem serializeBgpUpdate2_roundtrip_witness:
  "\<exists>q xs. serializeBgpUpdate2 mixed_update True False True = Some (Inr q) \<and>
     list_all2 (\<lambda>m x. length m \<le> kMaxBgpMsgLen \<and>
       parseBgpMessage m (Some sample_capa) = Inr (rcvdBgpUpdate x)) (msgs q) xs \<and>
     concat (map route_ops xs) = sent_ops mixed_update"
  using serializeBgpUpdate2_roundtrip [OF mixed_update_ok, of True] mixed_update_sizes
  by (simp add: mp_stalls_def v4_stalls_def bgp_consts) (simp add: sample_capa_def default_capabilities_def)

theorem serializeBgpUpdate2_diverges_witness:
  "serializeBgpUpdate2 stalled_update True False True = None"
  using serializeBgpUpdate2_diverges [OF stalled_update_ok, of True] stalled_update_stalls
  by (simp add: sample_capa_def default_capabilities_def)
subsection \<open>Label stacks are not counted\<close>

lemma serializeNlri_loop_overflow:
  assumes "list_all (\<lambda>p. serializeOnePrefix afi safi p = Inr (f p)) (ps @ [p])"
    and "length out + length (concat (map f ps)) + m < bufSize" "bufSize \<le> room"
    and "room < length out + length (concat (map f (ps @ [p])))"
  shows "serializeNlri_loop room afi safi bufSize m out cnt (ps @ p # rest) = Inl OutOfRange"
  using assms
proof (induction ps arbitrary: out cnt)
  case Nil
  then show ?case by (simp add: push_def)
next
  case (Cons a ps)
  have "serializeNlri_loop room afi safi bufSize m (out @ f a) (Suc cnt) (ps @ p # rest) = Inl OutOfRange"
    using Cons.prems by (intro Cons.IH) (simp_all add: add.assoc)
  then show ?case using Cons.prems by (simp add: push_def)
qed

text \<open>
  C30. \<open>getMaxPrefixLen\<close> does not count the label stack. When labeled withdrawals fill a message up
  to less than a maximal unlabeled prefix below its end, and the next prefix with its labels is
  longer than what is left, \<^verbatim>\<open>std::out_of_range\<close> leaves \<open>serializeBgpUpdate2\<close> although every
  prefix is valid and would fit in a message of its own.
\<close>

theorem labeled_withdrawal_overflows:
  assumes u: "allV4Announced u = []" "allV4Withdrawn u = []" "prefixes (mpAnnounced u) = []"
      "v4Announced u = []" "v4Withdrawn u = []"
    and mp: "prefixes (mpWithdrawn u) = ps @ p # rest" "nlri_safi (mpWithdrawn u) = SAFI_LABELED_UNICAST"
    and ok: "list_all (labeled_ok True (nlri_afi (mpWithdrawn u))) (ps @ [p])"
    and fill: "length (concat (map labeled_bytes ps)) + kMaxV6PrefixLen + 1 < 4066"
      "4066 < length (concat (map labeled_bytes (ps @ [p])))"
  shows "serializeBgpUpdate2 u as4 extNhEncoding track = Some (Inl OutOfRange)"
proof -
  let ?afi = "nlri_afi (mpWithdrawn u)"
  have ser: "list_all (\<lambda>p. serializeOnePrefix ?afi SAFI_LABELED_UNICAST p = Inr (labeled_bytes p)) (ps @ [p])"
    using ok serializeOnePrefix_labeled by (auto simp: list_all_iff)
  have pid: "\<not> hasPathId (ps @ p # rest)"
    using ok by (cases ps) (auto simp: hasPathId_def labeled_ok_def)
  have "serializeNlri 4066 ?afi SAFI_LABELED_UNICAST (ps @ p # rest) 4066 kMaxV6PrefixLen 0 = Inl OutOfRange"
    unfolding serializeNlri_def using fill by (simp, intro serializeNlri_loop_overflow [OF ser]) simp_all
  then have "mpWithdrawnMsg (mpWithdrawn u) kMaxV6PrefixLen 0 = Inl OutOfRange"
    by (simp add: mpWithdrawnMsg_def mp bgp_consts)
  then have "packMpWithdrawn u track q = Some (Inl OutOfRange)" for q
    using pid by (simp add: packMpWithdrawn_def mp getMaxPrefixLen_def packLoop.simps [of _ _ _ 0])
  moreover have "v4Announced2 u = []" "v4Withdrawn2 u = []"
    using u by (auto simp: allV4Announced_def allV4Withdrawn_def split: if_splits)
  ultimately show ?thesis
    using u mp by (simp add: serializeBgpUpdate2_def checkUpdate2_def packV4Withdrawn_def then_pack_def)
qed

definition labeled_prefix :: "int list \<Rightarrow> RiggedIPPrefix" where
  "labeled_prefix ls = \<lparr>prefix = (IPv6 0x20010DB8000000000000000000000001, 128), labels = ls, pathId = None\<rparr>"

definition overflowing_update :: BgpUpdate2 where
  "overflowing_update = sample_update
     \<lparr>v4Announced2 := [],
      mpWithdrawn := \<lparr>nlri_afi = AFI_IPv6, nlri_safi = SAFI_LABELED_UNICAST,
        prefixes = replicate 202 (labeled_prefix [100]) @ [labeled_prefix [100, 101, 102, 103]],
        nlri_nexthop = IPEmpty\<rparr>\<rparr>"

theorem labeled_withdrawal_overflows_witness:
  "serializeBgpUpdate2 overflowing_update True False False = Some (Inl OutOfRange)"
proof (rule labeled_withdrawal_overflows)
  have "cidr_ok AFI_IPv6 (IPv6 0x20010DB8000000000000000000000001, 128)" by code_simp
  then show "list_all (labeled_ok True (nlri_afi (mpWithdrawn overflowing_update)))
      (replicate 202 (labeled_prefix [100]) @ [labeled_prefix [100, 101, 102, 103]])"
    by (simp add: overflowing_update_def labeled_prefix_def labeled_ok_def list_all_iff)
qed (simp_all add: overflowing_update_def sample_update_def allV4Announced_def allV4Withdrawn_def
    labeled_prefix_def labeled_bytes_def length_concat sum_list_replicate kMaxV6PrefixLen_def)
end
