(* ===== verification/Zero_Copy.thy ===== *)
theory Zero_Copy
  imports Update_Serializer
begin

text \<open>
  One serialisation for many peers: \<^verbatim>\<open>lib/fibers/BgpSerializer.{h,cpp}\<close> and
  \<^verbatim>\<open>adjrib/AdjRibGroupSerializer.cpp\<close>. An update group serialises an update once, with the
  offsets of the next hops. Each peer of the group gets the same buffers in a descriptor of its own;
  when its I/O fiber takes the descriptor from the queue it overwrites the next hops in place and
  writes the buffers to the socket.

  The clones of an \<^verbatim>\<open>IOBuf\<close> share its data, so buffers live in a store: a chain is a list of
  addresses, cloning copies the list, and writing through one clone is seen through all of them.
\<close>

subsection \<open>Which updates a session accepts for sending\<close>

definition isAddressFamilyAllowed :: "BgpCapabilities \<Rightarrow> BgpUpdateAfi \<Rightarrow> BgpUpdateSafi \<Rightarrow> bool" where
  "isAddressFamilyAllowed capa afi safi =
     (if afi = AFI_IPv4 \<and> safi = SAFI_UNICAST then mpExtV4Unicast capa
      else if afi = AFI_IPv6 \<and> safi = SAFI_UNICAST then mpExtV6Unicast capa
      else if afi = AFI_IPv4 \<and> safi = SAFI_LABELED_UNICAST then mpExtV4LU capa
      else if afi = AFI_IPv6 \<and> safi = SAFI_LABELED_UNICAST then mpExtV6LU capa
      else if afi = AFI_LS \<and> safi = SAFI_LS then mpExtLs capa
      else False)"

definition validateBgpUpdate2 :: "BgpUpdate2 \<Rightarrow> BgpCapabilities \<Rightarrow> bgp_exn + unit" where
  "validateBgpUpdate2 update capa =
     rbind (throw_if (\<not> mpExtV4Unicast capa \<and> (v4Announced update \<noteq> [] \<or> v4Withdrawn update \<noteq> []))
              (BgpSerializerException AFI_MISMATCH)) (\<lambda>_.
     let mpw = mpWithdrawn update; mpa = mpAnnounced update in
     rbind (throw_if (\<not> isAddressFamilyAllowed capa (nlri_afi mpw) (nlri_safi mpw) \<and> prefixes mpw \<noteq> [])
              (BgpSerializerException AFI_MISMATCH)) (\<lambda>_.
     throw_if (\<not> isAddressFamilyAllowed capa (nlri_afi mpa) (nlri_safi mpa) \<and> prefixes mpa \<noteq> [])
       (BgpSerializerException AFI_MISMATCH)))"

text \<open>The call operators of \<^verbatim>\<open>BgpSerializer\<close>, one per alternative of the message variant.\<close>

datatype bgp_message =
    OpenMsg BgpOpenMsg
  | KeepAlive
  | Update2 BgpUpdate2
  | EndOfRib BgpEndOfRib
  | Notification BgpNotification
  | RouteRefresh BgpRouteRefresh

definition single_msg :: "bgp_exn + byte list \<Rightarrow> (bgp_exn + byte list list) option" where
  "single_msg r = Some (rbind r (\<lambda>m. Inr [m]))"

fun serializeMsg :: "BgpCapabilities \<Rightarrow> bgp_message \<Rightarrow> (bgp_exn + byte list list) option" where
  "serializeMsg caps (OpenMsg msg) = single_msg (serializeBgpOpenMsg msg)"
| "serializeMsg caps KeepAlive = single_msg serializeBgpKeepAlive"
| "serializeMsg caps (Update2 msg) =
     then_pack (Some (validateBgpUpdate2 msg caps)) (\<lambda>_.
     then_pack (serializeBgpUpdate2 msg (as4byte caps) (extNHEncodingCapabilities caps \<noteq> []) False)
       (\<lambda>q. Some (Inr (msgs q))))"
| "serializeMsg caps (EndOfRib msg) = single_msg (serializeBgpEndOfRib (eor_afi msg) (eor_safi msg))"
| "serializeMsg caps (Notification msg) = single_msg (serializeBgpNotification msg)"
| "serializeMsg caps (RouteRefresh msg) = single_msg (serializeBgpRouteRefresh msg)"

subsection \<open>Buffers in a store\<close>

record buf_store =
  next_addr :: nat
  mem :: "nat \<Rightarrow> byte list"

definition alloc :: "byte list list \<Rightarrow> buf_store \<Rightarrow> nat list \<times> buf_store" where
  "alloc bufs h =
     (let n = next_addr h in
      ([n ..< n + length bufs],
       h\<lparr>next_addr := n + length bufs,
         mem := \<lambda>a. if n \<le> a \<and> a < n + length bufs then bufs ! (a - n) else mem h a\<rparr>))"

record UpdateDescriptor =
  serializedGroupPDU :: "nat list option"
  d_v4Nexthop :: ipaddr
  d_v6Nexthop :: ipaddr
  d_nexthopOffsets :: "(nat \<times> nat \<times> bool) list"

definition empty_descriptor :: UpdateDescriptor where
  "empty_descriptor = \<lparr>serializedGroupPDU = None, d_v4Nexthop = IPEmpty, d_v6Nexthop = IPEmpty,
     d_nexthopOffsets = []\<rparr>"

text \<open>
  \<^verbatim>\<open>serializeUpdateAndCreateDescriptor\<close> is \<^verbatim>\<open>noexcept\<close>: an exception gives the empty descriptor.
  \<open>None\<close> is not returning, as for \<open>serializeBgpUpdate2\<close>.
\<close>

definition serializeUpdateAndCreateDescriptor ::
  "BgpUpdate2 \<Rightarrow> bool \<Rightarrow> bool \<Rightarrow> buf_store \<Rightarrow> (UpdateDescriptor \<times> buf_store) option" where
  "serializeUpdateAndCreateDescriptor message as4 extNhEncoding h =
     (let nh = (if prefixes (mpAnnounced message) = [] then IPEmpty else nlri_nexthop (mpAnnounced message)) in
      if prefixes (mpAnnounced message) \<noteq> [] \<and> nh = IPEmpty then Some (empty_descriptor, h)
      else case serializeBgpUpdate2 message as4 extNhEncoding True of
             None \<Rightarrow> None
           | Some (Inl e) \<Rightarrow> Some (empty_descriptor, h)
           | Some (Inr q) \<Rightarrow>
               (case alloc (msgs q) h of (chain, h) \<Rightarrow>
                  Some (\<lparr>serializedGroupPDU = Some chain,
                         d_v4Nexthop = (if isV4 nh then nh else IPEmpty),
                         d_v6Nexthop = (if isV6 nh then nh else IPEmpty),
                         d_nexthopOffsets = nexthopOffsets q\<rparr>, h)))"

text \<open>The peer's own next hop, as \<^verbatim>\<open>distributeMessageToInSyncPeers\<close> sets it.\<close>

definition setPeerNexthop :: "ipaddr \<Rightarrow> UpdateDescriptor \<Rightarrow> UpdateDescriptor" where
  "setPeerNexthop nh d = (if isV4 nh then d\<lparr>d_v4Nexthop := nh\<rparr> else d\<lparr>d_v6Nexthop := nh\<rparr>)"

definition overwrite :: "nat \<Rightarrow> byte list \<Rightarrow> byte list \<Rightarrow> byte list" where
  "overwrite off bs buf = take off buf @ bs @ drop (off + length bs) buf"

definition mutateNexthop :: "UpdateDescriptor \<Rightarrow> nat list \<Rightarrow> nat \<times> nat \<times> bool \<Rightarrow> buf_store \<Rightarrow> buf_store" where
  "mutateNexthop desc chain loc h =
     (case loc of (bufferIndex, offset, v4) \<Rightarrow>
        if bufferIndex < length chain
        then let a = chain ! bufferIndex; nh = ip_bytes (if v4 then d_v4Nexthop desc else d_v6Nexthop desc) in
             if offset + length nh \<le> length (mem h a)
             then h\<lparr>mem := (mem h)(a := overwrite offset nh (mem h a))\<rparr>
             else h
        else h)"

text \<open>
  The call operator on a descriptor. The clone has the addresses of the original; without the next
  hops it needs nothing is changed.
\<close>

definition serializeDescriptor :: "UpdateDescriptor \<Rightarrow> buf_store \<Rightarrow> nat list \<times> buf_store" where
  "serializeDescriptor desc h =
     (case serializedGroupPDU desc of
        None \<Rightarrow> ([], h)
      | Some pdu \<Rightarrow>
          let needV4 = list_ex (\<lambda>(_, _, v4). v4) (d_nexthopOffsets desc);
              needV6 = list_ex (\<lambda>(_, _, v4). \<not> v4) (d_nexthopOffsets desc) in
          if d_nexthopOffsets desc = [] then (pdu, h)
          else if needV4 \<and> d_v4Nexthop desc = IPEmpty then (pdu, h)
          else if needV6 \<and> d_v6Nexthop desc = IPEmpty then (pdu, h)
          else (pdu, fold (mutateNexthop desc pdu) (d_nexthopOffsets desc) h))"

definition chain_bytes :: "buf_store \<Rightarrow> nat list \<Rightarrow> byte list list" where
  "chain_bytes h chain = map (mem h) chain"

subsection \<open>Patching as a function on byte lists\<close>

definition patch_msg :: "ipaddr \<Rightarrow> (nat \<times> bool) option \<Rightarrow> byte list \<Rightarrow> byte list" where
  "patch_msg nh off msg =
     (case off of
        None \<Rightarrow> msg
      | Some (i, v4) \<Rightarrow>
          if i + length (ip_bytes nh) \<le> length msg then overwrite i (ip_bytes nh) msg else msg)"

definition patch_at :: "ipaddr \<Rightarrow> nat \<times> nat \<times> bool \<Rightarrow> byte list list \<Rightarrow> byte list list" where
  "patch_at nh loc ms =
     (case loc of (i, off, v4) \<Rightarrow>
        if i < length ms then ms[i := patch_msg nh (Some (off, v4)) (ms ! i)] else ms)"

definition patched :: "ipaddr \<Rightarrow> update_queue \<Rightarrow> byte list list" where
  "patched nh q = fold (patch_at nh) (nexthopOffsets q) (msgs q)"

lemma length_overwrite [simp]: "off + length bs \<le> length buf \<Longrightarrow> length (overwrite off bs buf) = length buf"
  by (simp add: overwrite_def)

lemma overwrite_append:
  "length pre = off \<Longrightarrow> length bs = length bs' \<Longrightarrow> overwrite off bs' (pre @ bs @ post) = pre @ bs' @ post"
  by (simp add: overwrite_def)

lemma length_patch_at [simp]: "length (patch_at nh loc ms) = length ms"
  by (simp add: patch_at_def split: prod.splits)

lemma length_fold_patch [simp]: "length (fold (patch_at nh) offs ms) = length ms"
  by (induction offs arbitrary: ms) simp_all

lemma map_fun_upd_nth:
  assumes "distinct xs" "i < length xs"
  shows "map (f(xs ! i := v)) xs = (map f xs)[i := v]"
  using assms by (intro nth_equalityI) (auto simp: nth_list_update nth_eq_iff_index_eq)

definition uses_nexthop :: "ipaddr \<Rightarrow> UpdateDescriptor \<Rightarrow> nat \<times> nat \<times> bool \<Rightarrow> bool" where
  "uses_nexthop nh desc loc \<longleftrightarrow> (case loc of (_, _, v4) \<Rightarrow> (if v4 then d_v4Nexthop desc else d_v6Nexthop desc) = nh)"

lemma chain_bytes_mutate:
  assumes "distinct chain" "uses_nexthop nh desc loc"
  shows "chain_bytes (mutateNexthop desc chain loc h) chain = patch_at nh loc (chain_bytes h chain)"
  using assms
  by (auto simp: chain_bytes_def mutateNexthop_def patch_at_def patch_msg_def map_fun_upd_nth Let_def uses_nexthop_def
      simp flip: map_update split: prod.splits)

lemma chain_bytes_mutate_all:
  assumes "distinct chain" "list_all (uses_nexthop nh desc) offs"
  shows "chain_bytes (fold (mutateNexthop desc chain) offs h) chain = fold (patch_at nh) offs (chain_bytes h chain)"
  using assms by (induction offs arbitrary: h) (simp_all add: chain_bytes_mutate [of chain nh])

lemma chain_bytes_alloc:
  assumes "alloc bufs h = (chain, h')"
  shows "chain_bytes h' chain = bufs" "distinct chain"
proof -
  show "chain_bytes h' chain = bufs"
    using assms by (intro nth_equalityI) (auto simp: alloc_def chain_bytes_def Let_def)
  show "distinct chain" using assms by (auto simp: alloc_def Let_def)
qed

text \<open>Every recorded location is in a message of the queue and of the family of \<open>nh\<close>.\<close>

definition offsets_in :: "ipaddr \<Rightarrow> update_queue \<Rightarrow> bool" where
  "offsets_in nh q \<longleftrightarrow> list_all (\<lambda>(i, _, v4). i < length (msgs q) \<and> v4 = isV4 nh) (nexthopOffsets q)"

lemma fold_patch_snoc:
  assumes "list_all (\<lambda>(i, _, v4). i < length ms \<and> v4 = f) offs"
  shows "fold (patch_at nh) offs (ms @ [m]) = fold (patch_at nh) offs ms @ [m]"
  using assms
proof (induction offs arbitrary: ms)
  case (Cons loc offs)
  then have "patch_at nh loc (ms @ [m]) = patch_at nh loc ms @ [m]"
    by (auto simp: patch_at_def nth_append list_update_append split: prod.splits)
  with Cons show ?case by simp
qed simp

lemma patched_append_msg:
  assumes "offsets_in nh q" "\<forall>i v4. off = Some (i, v4) \<longrightarrow> v4 = isV4 nh"
  shows "patched nh (append_msg True msg off q) = patched nh q @ [patch_msg nh off msg]"
    "offsets_in nh (append_msg True msg off q)"
proof -
  have "fold (patch_at nh) (nexthopOffsets q) (msgs q @ [msg]) =
      fold (patch_at nh) (nexthopOffsets q) (msgs q) @ [msg]"
    using assms(1) unfolding offsets_in_def by (rule fold_patch_snoc)
  then show "patched nh (append_msg True msg off q) = patched nh q @ [patch_msg nh off msg]"
    unfolding patched_def
    by (cases off) (auto simp: append_msg_def patch_at_def nth_append list_update_append patch_msg_def [of _ None])
  show "offsets_in nh (append_msg True msg off q)"
    using assms by (auto simp: offsets_in_def append_msg_def list_all_iff split: option.splits)
qed

lemma packLoop_patched:
  assumes step: "\<And>cnt msg cnt' off. step cnt = Inr (msg, cnt', off) \<Longrightarrow>
      step' cnt = Inr (patch_msg nh off msg, cnt', off) \<and> (\<forall>i v4. off = Some (i, v4) \<longrightarrow> v4 = isV4 nh)"
    and r: "packLoop step True totalCnt cnt q = Some (Inr r)"
    and q: "offsets_in nh q" "msgs q' = patched nh q" "nexthopOffsets q' = nexthopOffsets q"
  shows "\<exists>r'. packLoop step' True totalCnt cnt q' = Some (Inr r') \<and> offsets_in nh r \<and>
    msgs r' = patched nh r \<and> nexthopOffsets r' = nexthopOffsets r"
proof -
  define P where "P st tr tot cnt q res \<longleftrightarrow> (\<forall>r (q'::update_queue). st = step \<longrightarrow> tr \<longrightarrow> res = Inr r \<longrightarrow> offsets_in nh q \<longrightarrow>
      msgs q' = patched nh q \<longrightarrow> nexthopOffsets q' = nexthopOffsets q \<longrightarrow>
      (\<exists>r'. packLoop step' True tot cnt q' = Some (Inr r') \<and> offsets_in nh r \<and>
         msgs r' = patched nh r \<and> nexthopOffsets r' = nexthopOffsets r))"
    for st :: update_step and tr tot cnt q and res :: "bgp_exn + update_queue"
  have "P step True totalCnt cnt q (Inr r)"
  proof (rule packLoop.raw_induct [where P = P, OF _ r])
    fix f st tr tot cnt q res
    assume IH: "\<And>st tr tot cnt q res. f st tr tot cnt q = Some res \<Longrightarrow> P st tr tot cnt q res"
      and res: "(if cnt < tot then case st cnt of Inl e \<Rightarrow> Some (Inl e)
         | Inr (msg, cnt, off) \<Rightarrow> f st tr tot cnt (append_msg tr msg off q) else Some (Inr q)) = Some res"
    show "P st tr tot cnt q res"
      unfolding P_def
    proof (intro allI impI)
      fix r q' :: update_queue
      assume a: "st = step" "tr" "res = Inr r" "offsets_in nh q"
        "msgs q' = patched nh q" "nexthopOffsets q' = nexthopOffsets q"
      show "\<exists>r'. packLoop step' True tot cnt q' = Some (Inr r') \<and> offsets_in nh r \<and>
         msgs r' = patched nh r \<and> nexthopOffsets r' = nexthopOffsets r"
      proof (cases "cnt < tot")
        case True
        with res a obtain msg cnt' off where s: "step cnt = Inr (msg, cnt', off)"
          and f: "f step True tot cnt' (append_msg True msg off q) = Some (Inr r)"
          by (auto split: sum.splits)
        from step [OF s] have v4: "\<forall>i v4. off = Some (i, v4) \<longrightarrow> v4 = isV4 nh" by blast
        let ?q = "append_msg True (patch_msg nh off msg) off q'"
        have "msgs ?q = patched nh (append_msg True msg off q)"
          "nexthopOffsets ?q = nexthopOffsets (append_msg True msg off q)"
          using a patched_append_msg(1) [OF a(4) v4]
          by (simp_all add: append_msg_def patched_def split: option.splits)
        with IH [OF f] patched_append_msg(2) [OF a(4) v4] step [OF s] True show ?thesis
          by (subst packLoop.simps) (auto simp: P_def)
      next
        case False
        with res a show ?thesis by (subst packLoop.simps) auto
      qed
    qed
  qed
  with q show ?thesis by (simp add: P_def)
qed
subsection \<open>Patching one message\<close>

text \<open>The same update with the next hop of the peer.\<close>

definition with_nexthop :: "ipaddr \<Rightarrow> BgpUpdate2 \<Rightarrow> BgpUpdate2" where
  "with_nexthop nh u = u\<lparr>v4Nexthop := nh, mpAnnounced := (mpAnnounced u)\<lparr>nlri_nexthop := nh\<rparr>\<rparr>"

lemma overwrite_msg_bytes:
  assumes "length new = length old"
  shows "overwrite (kBgpMsgHeaderLen + length pre) new (msg_bytes t (pre @ old @ post)) = msg_bytes t (pre @ new @ post)"
proof -
  let ?h = "kBgpMarker @ wr16 (int (kBgpMsgHeaderLen + length (pre @ old @ post))) @ [msg_type_code t]"
  have "msg_bytes t (pre @ old @ post) = (?h @ pre) @ old @ post"
    "msg_bytes t (pre @ new @ post) = (?h @ pre) @ new @ post"
    using assms by (simp_all add: msg_bytes_def)
  moreover have "length (?h @ pre) = kBgpMsgHeaderLen + length pre"
    using length_msg_bytes [of t "[]"] by (simp add: msg_bytes_def)
  ultimately show ?thesis
    using overwrite_append [of "?h @ pre" "kBgpMsgHeaderLen + length pre" old new post] assms by presburger
qed

lemma length_v4_bytes: "isV4 nh \<Longrightarrow> length (ip_bytes nh) = 4"
  by (cases nh) auto

lemma length_v6_bytes: "isV6 nh \<Longrightarrow> length (ip_bytes nh) = 16"
  by (cases nh) auto

lemma patch_msg_bytes:
  assumes "length (ip_bytes nh) = length old"
  shows "patch_msg nh (Some (kBgpMsgHeaderLen + length pre, v4)) (msg_bytes t (pre @ old @ post)) =
    msg_bytes t (pre @ ip_bytes nh @ post)"
  using overwrite_msg_bytes [OF assms(1), of pre t post] assms
  by (simp only: patch_msg_def option.case prod.case Let_def length_msg_bytes) simp

lemma mpAnnouncedMsg_eq:
  assumes l: "length (ip_bytes (nlri_nexthop mp)) = n"
    and pos: "pos = kBgpMsgHeaderLen + (length pa + 12)"
    and nlri: "serializeNlri (kMaxBgpMsgLen - (pos + n + 1)) (nlri_afi mp) (nlri_safi mp) (prefixes mp)
        (kMaxBgpMsgLen - (pos + n + 1)) m cnt = Inr (nlri, cnt')"
    and pre: "pre = wr16 0 @ wr16 (int (length pa + (9 + n + length nlri))) @ pa @ [0x90, 14] @
      wr16 (int (5 + n + length nlri)) @ wr16 (afi_code (nlri_afi mp)) @ wr8 (safi_code (nlri_safi mp)) @ wr8 (int n)"
  shows "mpAnnouncedMsg mp pa m cnt =
     rbind (serializeBgpMsg BGP_MSG_TYPE_UPDATE (pre @ ip_bytes (nlri_nexthop mp) @ [0] @ nlri))
       (\<lambda>msg. Inr (msg, cnt', Some (kBgpMsgHeaderLen + length pre, isV4 (nlri_nexthop mp))))"
proof -
  have "length pre = length pa + 12" by (simp add: pre)
  with nlri show ?thesis by (simp add: mpAnnouncedMsg_def Let_def pos l add_ac) (simp add: pre add_ac)
qed

lemma mpAnnouncedMsg_patched:
  assumes nh: "nh \<noteq> IPEmpty" "nlri_nexthop mp \<noteq> IPEmpty" "isV4 (nlri_nexthop mp) \<longleftrightarrow> isV4 nh"
    and s: "mpAnnouncedMsg mp pa m cnt = Inr (msg, cnt', off)"
  shows "mpAnnouncedMsg (mp\<lparr>nlri_nexthop := nh\<rparr>) pa m cnt = Inr (patch_msg nh off msg, cnt', off)"
proof -
  define n where "n = length (ip_bytes (nlri_nexthop mp))"
  define mp' where "mp' = mp\<lparr>nlri_nexthop := nh\<rparr>"
  have len: "length (ip_bytes (nlri_nexthop mp')) = n"
    and v4: "isV4 (nlri_nexthop mp') \<longleftrightarrow> isV4 (nlri_nexthop mp)"
    and nh': "nlri_nexthop mp' = nh"
    using nh by (cases "nlri_nexthop mp"; cases nh; simp add: mp'_def n_def)+
  define pos where "pos = kBgpMsgHeaderLen + (length pa + 12)"
  obtain nlri where nlri: "serializeNlri (kMaxBgpMsgLen - (pos + n + 1)) (nlri_afi mp) (nlri_safi mp) (prefixes mp)
        (kMaxBgpMsgLen - (pos + n + 1)) m cnt = Inr (nlri, cnt')"
    using s by (auto simp: mpAnnouncedMsg_def rbind_eq_Inr Let_def pos_def n_def add_ac)
  then have nlri': "serializeNlri (kMaxBgpMsgLen - (pos + n + 1)) (nlri_afi mp') (nlri_safi mp') (prefixes mp')
        (kMaxBgpMsgLen - (pos + n + 1)) m cnt = Inr (nlri, cnt')"
    by (simp add: mp'_def)
  define pre where "pre = wr16 0 @ wr16 (int (length pa + (9 + n + length nlri))) @ pa @ [0x90, 14] @
      wr16 (int (5 + n + length nlri)) @ wr16 (afi_code (nlri_afi mp)) @ wr8 (safi_code (nlri_safi mp)) @ wr8 (int n)"
  have pre': "pre = wr16 0 @ wr16 (int (length pa + (9 + n + length nlri))) @ pa @ [0x90, 14] @
      wr16 (int (5 + n + length nlri)) @ wr16 (afi_code (nlri_afi mp')) @ wr8 (safi_code (nlri_safi mp')) @ wr8 (int n)"
    by (simp add: pre_def mp'_def)
  note eq = mpAnnouncedMsg_eq [OF n_def [symmetric] pos_def nlri pre_def]
    and eq' = mpAnnouncedMsg_eq [OF len pos_def nlri' pre']
  from s eq have body: "length (pre @ ip_bytes (nlri_nexthop mp) @ [0] @ nlri) \<le> kMaxBgpMsgLen - kBgpMsgHeaderLen"
    and msg: "msg = msg_bytes BGP_MSG_TYPE_UPDATE (pre @ ip_bytes (nlri_nexthop mp) @ [0] @ nlri)"
    and off: "off = Some (kBgpMsgHeaderLen + length pre, isV4 (nlri_nexthop mp))"
    by (auto simp: serializeBgpMsg_eq split: if_splits)
  have "patch_msg nh off msg = msg_bytes BGP_MSG_TYPE_UPDATE (pre @ ip_bytes (nlri_nexthop mp') @ [0] @ nlri)"
    unfolding msg off nh' by (rule patch_msg_bytes) (use len n_def nh' in auto)
  moreover have "length (pre @ ip_bytes (nlri_nexthop mp') @ [0] @ nlri) \<le> kMaxBgpMsgLen - kBgpMsgHeaderLen"
    using body len by (simp add: n_def)
  ultimately show ?thesis using eq' v4 off by (simp add: serializeBgpMsg_eq mp'_def)
qed

lemma v4AnnouncedMsg_patched:
  assumes nh: "isV4 nh" and pa: "pa = a @ b @ c" "length a = i" "length b = 4"
    and s: "v4AnnouncedMsg ps pa i m cnt = Inr (msg, cnt', off)"
  shows "v4AnnouncedMsg ps (a @ ip_bytes nh @ c) i m cnt = Inr (patch_msg nh off msg, cnt', off)"
proof -
  have l: "length (ip_bytes nh) = length b" using nh pa(3) by (simp add: length_v4_bytes)
  have lp: "length (a @ ip_bytes nh @ c) = length pa" using l pa(1) by simp
  let ?size = "kMaxBgpMsgLen - (kBgpMsgHeaderLen + 2 + 2 + length pa)"
  define pre where "pre = wr16 0 @ wr16 (int (length pa)) @ a"
  from s obtain nlri where nlri: "serializeNlri ?size AFI_IPv4 SAFI_UNICAST ps ?size m cnt = Inr (nlri, cnt')"
    and body: "length (pre @ b @ c @ nlri) \<le> kMaxBgpMsgLen - kBgpMsgHeaderLen"
    and msg: "msg = msg_bytes BGP_MSG_TYPE_UPDATE (pre @ b @ c @ nlri)"
    and off: "off = Some (kBgpMsgHeaderLen + length pre, True)"
    by (auto simp: v4AnnouncedMsg_def rbind_eq_Inr Let_def serializeBgpMsg_eq pre_def pa split: if_splits)
  have "patch_msg nh off msg = msg_bytes BGP_MSG_TYPE_UPDATE (pre @ ip_bytes nh @ c @ nlri)"
    unfolding msg off by (rule patch_msg_bytes) (use l in auto)
  then show ?thesis
    using nlri body off l
    unfolding v4AnnouncedMsg_def Let_def lp by (simp add: serializeBgpMsg_eq pre_def pa(2))
qed
subsection \<open>Patching the attributes\<close>

lemma path_attr_bytes_nexthop:
  assumes "isV4 (v4Nexthop u)"
  shows "path_attr_bytes u as4 True =
    (attr_short 0x40 BGP_ATTR_ORIGIN (wr8 (origin_code (origin (attrs u)))) @
     attr_ext 0x50 BGP_ATTR_AS_PATH (as_path_bytes as4 (attrs u)) @ [0x40, 3, 4]) @
    ip_bytes (v4Nexthop u) @ optional_attr_bytes as4 (attrs u)"
  using assms by (cases "v4Nexthop u") (simp_all add: path_attr_bytes_def opt_bytes_def attr_short_numeral)

lemma serializePathAttrs_aggregator:
  assumes "serializePathAttrs room u as4 v4 = Inr r"
  shows "has_aggregator (attrs u) \<longrightarrow> isV4 (agg_ip (aggregator (attrs u)))"
  using assms
  by (auto simp: serializePathAttrs_def serializeOptionalAttrs_def rbind_eq_Inr Let_def has_aggregator_def)

lemma serializePathAttrs_Inr:
  assumes s: "serializePathAttrs room u as4 v4 = Inr r"
  shows "r = (path_attr_bytes u as4 v4, if v4 then Some (length (as_path_bytes as4 (attrs u)) + 11) else None)"
    "length (path_attr_bytes u as4 v4) \<le> room"
  using serializePathAttrs_eq [OF serializePathAttrs_InrD(3) [OF s] serializePathAttrs_aggregator [OF s]
      serializePathAttrs_InrD(2) [OF s] serializePathAttrs_InrD(1) [OF s], of room] s
  by (auto split: if_splits)

lemma with_nexthop_simps [simp]:
  "attrs (with_nexthop nh u) = attrs u" "v4Nexthop (with_nexthop nh u) = nh"
  "mpAnnounced (with_nexthop nh u) = (mpAnnounced u)\<lparr>nlri_nexthop := nh\<rparr>"
  "mpWithdrawn (with_nexthop nh u) = mpWithdrawn u"
  "allV4Announced (with_nexthop nh u) = allV4Announced u"
  "allV4Withdrawn (with_nexthop nh u) = allV4Withdrawn u"
  by (simp_all add: with_nexthop_def allV4Announced_def allV4Withdrawn_def)

lemma serializePathAttrs_mp_patched:
  assumes "serializePathAttrs room u as4 False = Inr (pa, off)"
  shows "serializePathAttrs room (with_nexthop nh u) as4 False = Inr (pa, off)"
proof -
  note s = assms
  have "path_attr_bytes (with_nexthop nh u) as4 False = path_attr_bytes u as4 False"
    by (simp add: path_attr_bytes_def opt_bytes_def)
  with serializePathAttrs_Inr [OF s] serializePathAttrs_eq [of False "with_nexthop nh u" as4 room]
    serializePathAttrs_InrD(1,2) [OF s] serializePathAttrs_aggregator [OF s]
  show ?thesis by simp
qed

lemma serializePathAttrs_v4_patched:
  assumes s: "serializePathAttrs room u as4 True = Inr (pa, off)" and nh: "isV4 (v4Nexthop u)" "isV4 nh"
  obtains a b c where "pa = a @ b @ c" "off = Some (length a)" "length b = 4"
    "serializePathAttrs room (with_nexthop nh u) as4 True = Inr (a @ ip_bytes nh @ c, Some (length a))"
proof -
  let ?a = "attr_short 0x40 BGP_ATTR_ORIGIN (wr8 (origin_code (origin (attrs u)))) @
     attr_ext 0x50 BGP_ATTR_AS_PATH (as_path_bytes as4 (attrs u)) @ [0x40, 3, 4]"
  have la: "length ?a = length (as_path_bytes as4 (attrs u)) + 11" by (simp add: attr_short_def attr_ext_def)
  have b: "path_attr_bytes (with_nexthop nh u) as4 True = ?a @ ip_bytes nh @ optional_attr_bytes as4 (attrs u)"
    using path_attr_bytes_nexthop [of "with_nexthop nh u" as4] nh by simp
  have "serializePathAttrs room (with_nexthop nh u) as4 True =
      Inr (?a @ ip_bytes nh @ optional_attr_bytes as4 (attrs u), Some (length ?a))"
    using serializePathAttrs_eq [of True "with_nexthop nh u" as4 room] nh
      serializePathAttrs_InrD(1,2) [OF s] serializePathAttrs_aggregator [OF s] serializePathAttrs_Inr(2) [OF s]
      path_attr_bytes_nexthop [OF nh(1), of as4] b la
    by (cases nh) (auto simp: length_v4_bytes)
  moreover have "pa = ?a @ ip_bytes (v4Nexthop u) @ optional_attr_bytes as4 (attrs u)" "off = Some (length ?a)"
    using serializePathAttrs_Inr(1) [OF s] path_attr_bytes_nexthop [OF nh(1), of as4] la by simp_all
  ultimately show thesis
    using that [of ?a "ip_bytes (v4Nexthop u)" "optional_attr_bytes as4 (attrs u)"] length_v4_bytes [OF nh(1)] by simp
qed

subsection \<open>Patching the whole chain\<close>

text \<open>A part of the serialiser commutes with patching.\<close>

definition commutes ::
  "ipaddr \<Rightarrow> (update_queue \<Rightarrow> (bgp_exn + update_queue) option) \<Rightarrow>
     (update_queue \<Rightarrow> (bgp_exn + update_queue) option) \<Rightarrow> bool" where
  "commutes nh F G \<longleftrightarrow>
     (\<forall>q q' r. F q = Some (Inr r) \<longrightarrow> offsets_in nh q \<longrightarrow> msgs q' = patched nh q \<longrightarrow>
        nexthopOffsets q' = nexthopOffsets q \<longrightarrow>
        (\<exists>r'. G q' = Some (Inr r') \<and> offsets_in nh r \<and> msgs r' = patched nh r \<and>
              nexthopOffsets r' = nexthopOffsets r))"

lemma commutes_id: "commutes nh (\<lambda>q. Some (Inr q)) (\<lambda>q. Some (Inr q))"
  by (auto simp: commutes_def)

lemma commutes_then:
  assumes "commutes nh F F'" "commutes nh G G'"
  shows "commutes nh (\<lambda>q. then_pack (F q) G) (\<lambda>q. then_pack (F' q) G')"
  unfolding commutes_def
proof (intro allI impI)
  fix q q' r :: update_queue
  assume a: "then_pack (F q) G = Some (Inr r)" "offsets_in nh q" "msgs q' = patched nh q"
    "nexthopOffsets q' = nexthopOffsets q"
  then obtain s where s: "F q = Some (Inr s)" "G s = Some (Inr r)"
    by (auto simp: then_pack_def split: option.splits sum.splits)
  from assms(1) s(1) a obtain s' where s': "F' q' = Some (Inr s')" "offsets_in nh s"
    "msgs s' = patched nh s" "nexthopOffsets s' = nexthopOffsets s"
    unfolding commutes_def by blast
  with assms(2) s(2) obtain r' where "G' s' = Some (Inr r')" "offsets_in nh r"
    "msgs r' = patched nh r" "nexthopOffsets r' = nexthopOffsets r"
    unfolding commutes_def by blast
  with s' show "\<exists>r'. then_pack (F' q') G' = Some (Inr r') \<and> offsets_in nh r \<and> msgs r' = patched nh r \<and>
      nexthopOffsets r' = nexthopOffsets r"
    by (simp add: then_pack_def)
qed

lemma commutes_loop:
  assumes "\<And>cnt msg cnt' off. step cnt = Inr (msg, cnt', off) \<Longrightarrow>
      step' cnt = Inr (patch_msg nh off msg, cnt', off) \<and> (\<forall>i v4. off = Some (i, v4) \<longrightarrow> v4 = isV4 nh)"
  shows "commutes nh (packLoop step True totalCnt cnt) (packLoop step' True totalCnt cnt)"
  unfolding commutes_def using packLoop_patched [of step step' nh, OF assms] by blast

lemma mpAnnouncedMsg_offset:
  "mpAnnouncedMsg mp pa m cnt = Inr (msg, cnt', Some (i, v4)) \<Longrightarrow> v4 = isV4 (nlri_nexthop mp)"
  by (auto simp: mpAnnouncedMsg_def rbind_eq_Inr Let_def)

lemma v4AnnouncedMsg_offset: "v4AnnouncedMsg ps pa k m cnt = Inr (msg, cnt', Some (i, v4)) \<Longrightarrow> v4"
  by (auto simp: v4AnnouncedMsg_def rbind_eq_Inr Let_def)

lemma withdrawn_patched:
  "v4WithdrawnMsg ps m cnt = Inr (msg, cnt', off) \<Longrightarrow> patch_msg nh off msg = msg \<and> off = None"
  "mpWithdrawnMsg mp m cnt = Inr (msg, cnt', off) \<Longrightarrow> patch_msg nh off msg = msg \<and> off = None"
  by (auto simp: patch_msg_def v4WithdrawnMsg_def mpWithdrawnMsg_def rbind_eq_Inr Let_def)

lemma packWithdrawn_commute:
  "commutes nh (packV4Withdrawn u True) (packV4Withdrawn (with_nexthop nh u) True)"
  "commutes nh (packMpWithdrawn u True) (packMpWithdrawn (with_nexthop nh u) True)"
proof -
  show "commutes nh (packV4Withdrawn u True) (packV4Withdrawn (with_nexthop nh u) True)"
    by (cases "allV4Withdrawn u = []")
       (auto simp: packV4Withdrawn_def [abs_def] Let_def commutes_id
          dest: withdrawn_patched [of _ _ _ _ _ _ nh] intro!: commutes_loop)
  show "commutes nh (packMpWithdrawn u True) (packMpWithdrawn (with_nexthop nh u) True)"
    by (cases "prefixes (mpWithdrawn u) = []")
       (auto simp: packMpWithdrawn_def [abs_def] Let_def commutes_id
          dest: withdrawn_patched [of _ _ _ _ _ _ nh] intro!: commutes_loop)
qed

lemma packMpAnnounced_commute:
  assumes nh: "nh \<noteq> IPEmpty" "prefixes (mpAnnounced u) \<noteq> [] \<longrightarrow> nlri_nexthop (mpAnnounced u) \<noteq> IPEmpty \<and>
      (isV4 (nlri_nexthop (mpAnnounced u)) \<longleftrightarrow> isV4 nh)"
  shows "commutes nh (packMpAnnounced u as4 True) (packMpAnnounced (with_nexthop nh u) as4 True)"
proof (cases "prefixes (mpAnnounced u) = []")
  case True
  then show ?thesis by (simp add: packMpAnnounced_def [abs_def] commutes_id)
next
  case False
  show ?thesis
  proof (cases "serializePathAttrs kMaxBgpUpdateVarLen u as4 False")
    case (Inl e)
    with False show ?thesis by (simp add: packMpAnnounced_def then_pack_def commutes_def)
  next
    case (Inr r)
    obtain pa off where r: "r = (pa, off)" by (cases r)
    show ?thesis
      using False Inr r serializePathAttrs_mp_patched [of kMaxBgpUpdateVarLen u as4 pa off nh] nh
        mpAnnouncedMsg_patched [OF nh(1)] mpAnnouncedMsg_offset
      by (cases "kMaxBgpUpdateVarLen < length pa + kMpAnnouncedAttrLen + getMaxPrefixLen (hasPathId (prefixes (mpAnnounced u))) False")
         (auto simp: packMpAnnounced_def [abs_def] then_pack_def Let_def intro!: commutes_loop simp: commutes_def [of _ "\<lambda>_. Some (Inl _)"])
  qed
qed

lemma packV4Announced_commute:
  assumes nh: "allV4Announced u \<noteq> [] \<longrightarrow> isV4 (v4Nexthop u) \<and> isV4 nh"
  shows "commutes nh (packV4Announced u as4 True) (packV4Announced (with_nexthop nh u) as4 True)"
proof (cases "allV4Announced u = []")
  case True
  then show ?thesis by (simp add: packV4Announced_def [abs_def] commutes_id)
next
  case False
  show ?thesis
  proof (cases "serializePathAttrs kMaxBgpUpdateVarLen u as4 True")
    case (Inl e)
    with False show ?thesis by (simp add: packV4Announced_def then_pack_def commutes_def)
  next
    case (Inr r)
    obtain pa off where r: "r = (pa, off)" by (cases r)
    from Inr False nh obtain a b c where p: "pa = a @ b @ c" "off = Some (length a)" "length b = 4"
      "serializePathAttrs kMaxBgpUpdateVarLen (with_nexthop nh u) as4 True = Inr (a @ ip_bytes nh @ c, Some (length a))"
      unfolding r using serializePathAttrs_v4_patched [of kMaxBgpUpdateVarLen u as4 pa off nh] by blast
    show ?thesis
      using False Inr r p nh v4AnnouncedMsg_patched [of nh, OF _ p(1) refl p(3)] length_v4_bytes [of nh] v4AnnouncedMsg_offset
      by (cases "kMaxBgpUpdateVarLen < length pa + getMaxPrefixLen (hasPathId (allV4Announced u)) True")
         (auto simp: packV4Announced_def [abs_def] then_pack_def Let_def intro!: commutes_loop simp: commutes_def [of _ "\<lambda>_. Some (Inl _)"])
  qed
qed
subsection \<open>Properties\<close>

text \<open>A next hop of the family the update was serialised with.\<close>

definition nexthop_fits :: "ipaddr \<Rightarrow> BgpUpdate2 \<Rightarrow> bool" where
  "nexthop_fits nh u \<longleftrightarrow> nh \<noteq> IPEmpty \<and>
     (prefixes (mpAnnounced u) \<noteq> [] \<longrightarrow> (isV4 (nlri_nexthop (mpAnnounced u)) \<longleftrightarrow> isV4 nh)) \<and>
     (allV4Announced u \<noteq> [] \<longrightarrow> isV4 (v4Nexthop u) \<and> isV4 nh)"

lemma then_pack_eq_Inr:
  "then_pack r f = Some (Inr y) \<longleftrightarrow> (\<exists>x. r = Some (Inr x) \<and> f x = Some (Inr y))"
  by (auto simp: then_pack_def split: option.splits sum.splits)

lemma checkUpdate2_with_nexthop:
  assumes "checkUpdate2 u ext = Inr ()" "nexthop_fits nh u"
  shows "checkUpdate2 (with_nexthop nh u) ext = Inr ()"
    "prefixes (mpAnnounced u) \<noteq> [] \<longrightarrow> nlri_nexthop (mpAnnounced u) \<noteq> IPEmpty"
  using assms
  by (auto simp: checkUpdate2_def nexthop_fits_def rbind_eq_Inr Let_def with_nexthop_def allV4Announced_def
      allV4Withdrawn_def elim: isV4.elims isV6.elims split: if_splits)

lemma serializeBgpUpdate2_patched:
  assumes s: "serializeBgpUpdate2 u as4 ext True = Some (Inr q)" and nh: "nexthop_fits nh u"
  shows "\<exists>q'. serializeBgpUpdate2 (with_nexthop nh u) as4 ext True = Some (Inr q') \<and>
     msgs q' = patched nh q \<and> nexthopOffsets q' = nexthopOffsets q \<and> offsets_in nh q"
proof -
  let ?q0 = "\<lparr>msgs = [], nexthopOffsets = []\<rparr>"
  let ?F = "\<lambda>u q. then_pack (packV4Withdrawn u True q) (\<lambda>q. then_pack (packMpWithdrawn u True q) (\<lambda>q.
     then_pack (packMpAnnounced u as4 True q) (packV4Announced u as4 True)))"
  from s have c: "checkUpdate2 u ext = Inr ()" and F: "?F u ?q0 = Some (Inr q)"
    by (auto simp: serializeBgpUpdate2_def then_pack_eq_Inr)
  note chk = checkUpdate2_with_nexthop [OF c nh]
  have "commutes nh (?F u) (?F (with_nexthop nh u))"
    using nh chk(2)
    by (intro commutes_then packWithdrawn_commute packMpAnnounced_commute packV4Announced_commute)
       (auto simp: nexthop_fits_def)
  from this [unfolded commutes_def, rule_format, OF F, of ?q0] obtain q' where
    "?F (with_nexthop nh u) ?q0 = Some (Inr q')" "offsets_in nh q" "msgs q' = patched nh q"
    "nexthopOffsets q' = nexthopOffsets q"
    by (auto simp: offsets_in_def patched_def)
  with chk(1) show ?thesis
    by (simp add: serializeBgpUpdate2_def then_pack_def)
qed

text \<open>One peer's serialisation, on buffers that hold the messages of \<open>u\<close>.\<close>

lemma serializeDescriptor_peer:
  assumes d: "serializedGroupPDU d = Some chain" "distinct chain" "d_nexthopOffsets d = nexthopOffsets q"
    and s: "serializeBgpUpdate2 u as4 ext True = Some (Inr q)" and h: "chain_bytes h chain = msgs q"
    and nh: "nexthop_fits nh u" and r: "serializeDescriptor (setPeerNexthop nh d) h = (c, h')"
  shows "c = chain" "\<exists>q'. serializeBgpUpdate2 (with_nexthop nh u) as4 ext True = Some (Inr q') \<and>
     nexthopOffsets q' = nexthopOffsets q \<and> chain_bytes h' chain = msgs q'"
proof -
  let ?d = "setPeerNexthop nh d"
  from serializeBgpUpdate2_patched [OF s nh] obtain q' where
    q': "serializeBgpUpdate2 (with_nexthop nh u) as4 ext True = Some (Inr q')" "msgs q' = patched nh q"
    "nexthopOffsets q' = nexthopOffsets q" "offsets_in nh q" by blast
  have fields: "serializedGroupPDU ?d = Some chain" "d_nexthopOffsets ?d = nexthopOffsets q"
    using d by (simp_all add: setPeerNexthop_def)
  have uses: "list_all (uses_nexthop nh ?d) (nexthopOffsets q)"
    using q'(4) by (auto simp: offsets_in_def list_all_iff uses_nexthop_def setPeerNexthop_def)
  have all: "chain_bytes (fold (mutateNexthop ?d chain) (nexthopOffsets q) h) chain = msgs q'"
    using chain_bytes_mutate_all [OF d(2) uses, of h] h by (simp add: q'(2) patched_def)
  have "nh \<noteq> IPEmpty" using nh by (simp add: nexthop_fits_def)
  then have "serializeDescriptor ?d h = (chain, fold (mutateNexthop ?d chain) (nexthopOffsets q) h)"
    using q'(4) unfolding serializeDescriptor_def fields
    by (auto simp: offsets_in_def list_all_iff list_ex_iff setPeerNexthop_def Let_def)
  with r all q' show "c = chain" "\<exists>q'. serializeBgpUpdate2 (with_nexthop nh u) as4 ext True = Some (Inr q') \<and>
     nexthopOffsets q' = nexthopOffsets q \<and> chain_bytes h' chain = msgs q'"
    by auto
qed

lemma descriptor_created:
  assumes "serializeUpdateAndCreateDescriptor u as4 ext h0 = Some (d, h)" "serializedGroupPDU d = Some chain"
  obtains q where "serializeBgpUpdate2 u as4 ext True = Some (Inr q)" "d_nexthopOffsets d = nexthopOffsets q"
    "chain_bytes h chain = msgs q" "distinct chain"
proof -
  from assms obtain q where q: "serializeBgpUpdate2 u as4 ext True = Some (Inr q)"
    "alloc (msgs q) h0 = (chain, h)" "d_nexthopOffsets d = nexthopOffsets q"
    by (auto simp: serializeUpdateAndCreateDescriptor_def empty_descriptor_def Let_def
        split: if_splits option.splits sum.splits prod.splits)
  with chain_bytes_alloc [OF q(2)] show thesis by (intro that)
qed

text \<open>
  C5. The zero-copy path sends what the plain path would send. When an update group has serialised
  an update once, and a peer's next hop has the family of the next hop it was serialised with, then
  overwriting the recorded offsets in place gives byte for byte the messages that serialising the
  update with this next hop would have given.
\<close>

theorem zero_copy_equivalence:
  assumes d: "serializeUpdateAndCreateDescriptor u as4 ext h0 = Some (d, h)" "serializedGroupPDU d = Some chain"
    and nh: "nexthop_fits nh u" and r: "serializeDescriptor (setPeerNexthop nh d) h = (c, h')"
  shows "\<exists>q. serializeBgpUpdate2 (with_nexthop nh u) as4 ext True = Some (Inr q) \<and> chain_bytes h' c = msgs q"
proof -
  obtain q where q: "serializeBgpUpdate2 u as4 ext True = Some (Inr q)" "d_nexthopOffsets d = nexthopOffsets q"
    "chain_bytes h chain = msgs q" "distinct chain"
    by (rule descriptor_created [OF d])
  from serializeDescriptor_peer [OF d(2) q(4,2,1,3) nh r] show ?thesis by auto
qed

text \<open>
  C26. The clones of the peers are one buffer. After the descriptor of a second peer was
  serialised, the chain handed out for the first peer reads as the second peer's messages. A chain
  must therefore be written completely before the next peer of the group is served; a write that
  waits for the socket in between sends the rest with the next hop of another peer.
\<close>

theorem zero_copy_aliasing:
  assumes d: "serializeUpdateAndCreateDescriptor u as4 ext h0 = Some (d, h)" "serializedGroupPDU d = Some chain"
    and nh: "nexthop_fits nh1 u" "nexthop_fits nh2 u"
    and r1: "serializeDescriptor (setPeerNexthop nh1 d) h = (c1, h1)"
    and r2: "serializeDescriptor (setPeerNexthop nh2 d) h1 = (c2, h2)"
  shows "\<exists>q1 q2. serializeBgpUpdate2 (with_nexthop nh1 u) as4 ext True = Some (Inr q1) \<and>
     serializeBgpUpdate2 (with_nexthop nh2 u) as4 ext True = Some (Inr q2) \<and>
     chain_bytes h1 c1 = msgs q1 \<and> chain_bytes h2 c1 = msgs q2 \<and> chain_bytes h2 c2 = msgs q2"
proof -
  obtain q where q: "serializeBgpUpdate2 u as4 ext True = Some (Inr q)" "d_nexthopOffsets d = nexthopOffsets q"
    "chain_bytes h chain = msgs q" "distinct chain"
    by (rule descriptor_created [OF d])
  note p1 = serializeDescriptor_peer [OF d(2) q(4,2,1,3) nh(1) r1]
  then obtain q1 where q1: "serializeBgpUpdate2 (with_nexthop nh1 u) as4 ext True = Some (Inr q1)"
    "nexthopOffsets q1 = nexthopOffsets q" "chain_bytes h1 chain = msgs q1" by blast
  have nh2: "nexthop_fits nh2 (with_nexthop nh1 u)" "with_nexthop nh2 (with_nexthop nh1 u) = with_nexthop nh2 u"
    using nh by (auto simp: nexthop_fits_def with_nexthop_def allV4Announced_def)
  have o: "d_nexthopOffsets d = nexthopOffsets q1" using q q1 by simp
  note p2 = serializeDescriptor_peer [OF d(2) q(4) o q1(1,3) nh2(1) r2, unfolded nh2(2)]
  with p1 q1 show ?thesis by auto
qed

definition empty_store :: buf_store where
  "empty_store = \<lparr>next_addr = 0, mem = (\<lambda>_. [])\<rparr>"

lemma sample_descriptor:
  obtains d h chain where "serializeUpdateAndCreateDescriptor sample_update True False empty_store = Some (d, h)"
    "serializedGroupPDU d = Some chain"
proof -
  have ok: "update_ok sample_capa sample_update"
    by (simp add: sample_update_def update_ok_simps sample_cidrs)
  have "v4_announce_size sample_capa sample_update < 100" by code_simp
  with serializeBgpUpdate2_chain [OF ok, of True]
  obtain q where "serializeBgpUpdate2 sample_update (as4byte sample_capa) (extNHEncodingCapabilities sample_capa \<noteq> []) True = Some (Inr q)"
    by (auto simp: mp_stalls_def v4_stalls_def bgp_consts sample_update_def)
  then have "serializeBgpUpdate2 sample_update True False True = Some (Inr q)"
    by (simp add: sample_capa_def default_capabilities_def)
  then show thesis
    using that by (auto simp: serializeUpdateAndCreateDescriptor_def sample_update_def alloc_def Let_def)
qed

lemma sample_nexthop_fits: "nexthop_fits (IPv4 w) sample_update"
  by (simp add: nexthop_fits_def sample_update_def allV4Announced_def)

theorem zero_copy_equivalence_witness:
  "\<exists>d h c h' q. serializeUpdateAndCreateDescriptor sample_update True False empty_store = Some (d, h) \<and>
     serializeDescriptor (setPeerNexthop (IPv4 0x0A000002) d) h = (c, h') \<and>
     serializeBgpUpdate2 (with_nexthop (IPv4 0x0A000002) sample_update) True False True = Some (Inr q) \<and>
     chain_bytes h' c = msgs q"
proof -
  obtain d h chain where d: "serializeUpdateAndCreateDescriptor sample_update True False empty_store = Some (d, h)"
    "serializedGroupPDU d = Some chain" by (rule sample_descriptor)
  obtain c h' where r: "serializeDescriptor (setPeerNexthop (IPv4 0x0A000002) d) h = (c, h')"
    by (cases "serializeDescriptor (setPeerNexthop (IPv4 0x0A000002) d) h")
  from zero_copy_equivalence [OF d sample_nexthop_fits r] d r show ?thesis by blast
qed

theorem zero_copy_aliasing_witness:
  "\<exists>d h c1 h1 c2 h2 q2. serializeUpdateAndCreateDescriptor sample_update True False empty_store = Some (d, h) \<and>
     serializeDescriptor (setPeerNexthop (IPv4 0x0A000002) d) h = (c1, h1) \<and>
     serializeDescriptor (setPeerNexthop (IPv4 0x0A000003) d) h1 = (c2, h2) \<and>
     serializeBgpUpdate2 (with_nexthop (IPv4 0x0A000003) sample_update) True False True = Some (Inr q2) \<and>
     chain_bytes h2 c1 = msgs q2"
proof -
  obtain d h chain where d: "serializeUpdateAndCreateDescriptor sample_update True False empty_store = Some (d, h)"
    "serializedGroupPDU d = Some chain" by (rule sample_descriptor)
  obtain c1 h1 where r1: "serializeDescriptor (setPeerNexthop (IPv4 0x0A000002) d) h = (c1, h1)"
    by (cases "serializeDescriptor (setPeerNexthop (IPv4 0x0A000002) d) h")
  obtain c2 h2 where r2: "serializeDescriptor (setPeerNexthop (IPv4 0x0A000003) d) h1 = (c2, h2)"
    by (cases "serializeDescriptor (setPeerNexthop (IPv4 0x0A000003) d) h1")
  from zero_copy_aliasing [OF d sample_nexthop_fits sample_nexthop_fits r1 r2] d r1 r2 show ?thesis by blast
qed
end
