(* ===== verification/Bgp_Path.thy ===== *)
theory Bgp_Path
  imports Bgp_Types
begin

text \<open>
  The attributes as the RIB keeps them: \<^verbatim>\<open>BgpPathC\<close> and \<^verbatim>\<open>BgpAttributesC\<close> of
  \<^verbatim>\<open>lib/BgpStructs.{h,cpp}\<close> with the AS path segments, communities and extended communities,
  \<^verbatim>\<open>common/BgpPath.{h,cpp}\<close> on top of them, and the conversions from and to the Thrift structs in
  \<^verbatim>\<open>lib/BgpUtil.cpp\<close>.

  The Thrift structs hold signed 64-bit integers, here \<open>int\<close>; the C structs hold unsigned integers of
  the width of the protocol, here words, so that a conversion truncates exactly as the C++ one does. A
  \<^verbatim>\<open>DeDuplicatedAttribute\<close> is a shared pointer to a value that is never changed in place and is
  modelled by the value. A \<^verbatim>\<open>float\<close> is the word of its bits: the code only moves and compares
  them here.
\<close>

unbundle bit_operations_syntax

subsection \<open>AS path segments\<close>

record BgpAttrAsPathSegmentC =
  c_asSet :: "u32 set"
  c_asSequence :: "u32 list"
  c_asConfedSequence :: "u32 list"
  c_asConfedSet :: "u32 set"

definition BGP_PRIVATE_AS_START :: u32 where "BGP_PRIVATE_AS_START = 64512"

definition empty_segC :: BgpAttrAsPathSegmentC where
  "empty_segC = \<lparr>c_asSet = {}, c_asSequence = [], c_asConfedSequence = [], c_asConfedSet = {}\<rparr>"

definition fromAsSet :: "u32 set \<Rightarrow> BgpAttrAsPathSegmentC" where
  "fromAsSet s = empty_segC\<lparr>c_asSet := s\<rparr>"

definition fromAsSeq :: "u32 list \<Rightarrow> BgpAttrAsPathSegmentC" where
  "fromAsSeq s = empty_segC\<lparr>c_asSequence := s\<rparr>"

definition fromConfedSeq :: "u32 list \<Rightarrow> BgpAttrAsPathSegmentC" where
  "fromConfedSeq s = empty_segC\<lparr>c_asConfedSequence := s\<rparr>"

definition fromConfedSet :: "u32 set \<Rightarrow> BgpAttrAsPathSegmentC" where
  "fromConfedSet s = empty_segC\<lparr>c_asConfedSet := s\<rparr>"

definition checkSegmentAnyAsn :: "(u32 \<Rightarrow> bool) \<Rightarrow> BgpAttrAsPathSegmentC \<Rightarrow> bool" where
  "checkSegmentAnyAsn f seg =
     (if c_asSequence seg \<noteq> [] then list_ex f (c_asSequence seg)
      else if c_asSet seg \<noteq> {} then (\<exists>a\<in>c_asSet seg. f a)
      else if c_asConfedSequence seg \<noteq> [] then list_ex f (c_asConfedSequence seg)
      else if c_asConfedSet seg \<noteq> {} then (\<exists>a\<in>c_asConfedSet seg. f a)
      else False)"

definition hasAsn :: "u32 \<Rightarrow> BgpAttrAsPathSegmentC \<Rightarrow> bool" where
  "hasAsn asn = checkSegmentAnyAsn (\<lambda>elem. elem = asn)"

definition hasPublicAsn :: "BgpAttrAsPathSegmentC \<Rightarrow> bool" where
  "hasPublicAsn = checkSegmentAnyAsn (\<lambda>elem. elem < BGP_PRIVATE_AS_START)"

definition isConfedSegment :: "BgpAttrAsPathSegmentC \<Rightarrow> bool" where
  "isConfedSegment seg \<longleftrightarrow> c_asConfedSequence seg \<noteq> [] \<or> c_asConfedSet seg \<noteq> {}"

text \<open>The two lengths of an AS path: of its segments one by one.\<close>

definition segLen :: "BgpAttrAsPathSegmentC \<Rightarrow> nat" where
  "segLen seg =
     (if c_asSet seg \<noteq> {} then 1
      else if c_asSequence seg \<noteq> [] then length (c_asSequence seg)
      else 0)"

definition segLenWithConfed :: "BgpAttrAsPathSegmentC \<Rightarrow> nat" where
  "segLenWithConfed seg =
     (if c_asSet seg \<noteq> {} \<or> c_asConfedSet seg \<noteq> {} then 1
      else if c_asSequence seg \<noteq> [] then length (c_asSequence seg)
      else length (c_asConfedSequence seg))"

subsection \<open>Communities\<close>

datatype BgpAttrCommunityC = BgpAttrCommunityC (cc_asn: u16) (cc_value: u16)

instantiation BgpAttrCommunityC :: linorder
begin

definition less_BgpAttrCommunityC :: "BgpAttrCommunityC \<Rightarrow> BgpAttrCommunityC \<Rightarrow> bool" where
  "less_BgpAttrCommunityC c d =
     (if cc_asn c \<noteq> cc_asn d then cc_asn c < cc_asn d else cc_value c < cc_value d)"

definition less_eq_BgpAttrCommunityC :: "BgpAttrCommunityC \<Rightarrow> BgpAttrCommunityC \<Rightarrow> bool" where
  "less_eq_BgpAttrCommunityC c d \<longleftrightarrow> c = d \<or> c < d"

instance
  by intro_classes
     (auto simp: less_BgpAttrCommunityC_def less_eq_BgpAttrCommunityC_def
           intro: BgpAttrCommunityC.expand split: if_splits)

end

subsection \<open>Extended communities\<close>

text \<open>The class hierarchy below \<^verbatim>\<open>BgpExtCommunityBaseTypeC\<close>, by its leaves.\<close>

datatype BgpAttrExtCommunityC =
    LinkBandWidthTypeC (rawValHigh: u32) (rawValLow: u32)
  | AsSpecificExtTypeC (rawValHigh: u32) (rawValLow: u32)
  | IPv4SpecificExtTypeC (rawValHigh: u32) (rawValLow: u32)
  | OpaqueExtTypeC (rawValHigh: u32) (rawValLow: u32)
  | RegularTypeC (rawValHigh: u32) (rawValLow: u32)

definition kBgpExtCommASNonTransitiveType :: byte where "kBgpExtCommASNonTransitiveType = 0x40"
definition kBgpExtCommASTransitiveType :: byte where "kBgpExtCommASTransitiveType = 0x00"
definition kBgpExtCommASTransitiveType2 :: byte where "kBgpExtCommASTransitiveType2 = 0x02"
definition kBgpExtCommIPv4TransitiveType :: byte where "kBgpExtCommIPv4TransitiveType = 0x01"
definition kBgpExtCommIPv4NonTransitiveType :: byte where "kBgpExtCommIPv4NonTransitiveType = 0x41"
definition kBgpExtCommOpaqueTransitiveType :: byte where "kBgpExtCommOpaqueTransitiveType = 0x03"
definition kBgpExtCommOpaqueNonTransitiveType :: byte where "kBgpExtCommOpaqueNonTransitiveType = 0x43"
definition ROUTE_TARGET_COMMUNITY_SUBTYPE :: byte where "ROUTE_TARGET_COMMUNITY_SUBTYPE = 2"
definition ROUTE_ORIGIN_COMMUNITY_SUBTYPE :: byte where "ROUTE_ORIGIN_COMMUNITY_SUBTYPE = 3"
definition LINK_BW_COMMUNITY_SUBTYPE :: byte where "LINK_BW_COMMUNITY_SUBTYPE = 4"

lemmas ext_consts =
  kBgpExtCommASNonTransitiveType_def kBgpExtCommASTransitiveType_def kBgpExtCommASTransitiveType2_def
  kBgpExtCommIPv4TransitiveType_def kBgpExtCommIPv4NonTransitiveType_def
  kBgpExtCommOpaqueTransitiveType_def kBgpExtCommOpaqueNonTransitiveType_def
  ROUTE_TARGET_COMMUNITY_SUBTYPE_def ROUTE_ORIGIN_COMMUNITY_SUBTYPE_def LINK_BW_COMMUNITY_SUBTYPE_def

definition typeOf :: "u32 \<Rightarrow> byte" where "typeOf high = ucast (drop_bit 24 high)"
definition subTypeOf :: "u32 \<Rightarrow> byte" where "subTypeOf high = ucast (drop_bit 16 high)"

definition mkBgpAttrExtCommunityC :: "u32 \<Rightarrow> u32 \<Rightarrow> BgpAttrExtCommunityC" where
  "mkBgpAttrExtCommunityC high low =
     (let type = typeOf high; subType = subTypeOf high in
      if type = kBgpExtCommASNonTransitiveType \<and> subType = LINK_BW_COMMUNITY_SUBTYPE
      then LinkBandWidthTypeC high low
      else if type \<in> {kBgpExtCommASNonTransitiveType, kBgpExtCommASTransitiveType, kBgpExtCommASTransitiveType2}
      then AsSpecificExtTypeC high low
      else if type \<in> {kBgpExtCommIPv4NonTransitiveType, kBgpExtCommIPv4TransitiveType}
      then IPv4SpecificExtTypeC high low
      else if type \<in> {kBgpExtCommOpaqueNonTransitiveType, kBgpExtCommOpaqueTransitiveType}
      then OpaqueExtTypeC high low
      else RegularTypeC high low)"

definition getRawValueInWords :: "BgpAttrExtCommunityC \<Rightarrow> u32 \<times> u32" where
  "getRawValueInWords c = (rawValHigh c, rawValLow c)"

definition getType :: "BgpAttrExtCommunityC \<Rightarrow> byte" where
  "getType c = typeOf (rawValHigh c)"

fun getSubType :: "BgpAttrExtCommunityC \<Rightarrow> byte option" where
  "getSubType (RegularTypeC high low) = None"
| "getSubType c = Some (subTypeOf (rawValHigh c))"

text \<open>\<^verbatim>\<open>BGP_EXT_COMMUNITY_FLAGS::TRANSITIVE\<close> is bit 6, set when the community is not transitive.\<close>

definition isTransitive :: "BgpAttrExtCommunityC \<Rightarrow> bool" where
  "isTransitive c \<longleftrightarrow> (getType c AND 0x40) = 0"

definition isRouteTarget :: "BgpAttrExtCommunityC \<Rightarrow> bool" where
  "isRouteTarget c \<longleftrightarrow>
     getType c \<le> kBgpExtCommASTransitiveType2 \<and> getSubType c = Some ROUTE_TARGET_COMMUNITY_SUBTYPE"

definition isRouteOrigin :: "BgpAttrExtCommunityC \<Rightarrow> bool" where
  "isRouteOrigin c \<longleftrightarrow>
     getType c \<le> kBgpExtCommASTransitiveType2 \<and> getSubType c = Some ROUTE_ORIGIN_COMMUNITY_SUBTYPE"

definition isNonTransitiveLinkBandwidthCommunity :: "BgpAttrExtCommunityC \<Rightarrow> bool" where
  "isNonTransitiveLinkBandwidthCommunity c \<longleftrightarrow>
     getType c = kBgpExtCommASNonTransitiveType \<and> getSubType c = Some LINK_BW_COMMUNITY_SUBTYPE"

definition isLinkBandwidthCommunity :: "BgpAttrExtCommunityC \<Rightarrow> bool" where
  "isLinkBandwidthCommunity c \<longleftrightarrow> getSubType c = Some LINK_BW_COMMUNITY_SUBTYPE"

definition getAsn :: "BgpAttrExtCommunityC \<Rightarrow> u16" where
  "getAsn c = ucast (rawValHigh c AND 0xFFFF)"

definition lbwRawValueHigh :: "u16 \<Rightarrow> u32" where
  "lbwRawValueHigh asn =
     (push_bit 24 (ucast kBgpExtCommASNonTransitiveType) OR push_bit 16 (ucast LINK_BW_COMMUNITY_SUBTYPE)
      OR ucast asn)"

subsection \<open>Comparison of floats\<close>

text \<open>
  IEEE 754 binary32 by its bits: sign and magnitude, with the two zeros equal and a NaN unordered. This
  is all the arithmetic on floats that the functions of this theory do.
\<close>

definition f32_nan :: "u32 \<Rightarrow> bool" where
  "f32_nan w \<longleftrightarrow> 0x7F800000 < w AND 0x7FFFFFFF"

definition f32_key :: "u32 \<Rightarrow> int" where
  "f32_key w = (if bit w 31 then - uint (w AND 0x7FFFFFFF) else uint (w AND 0x7FFFFFFF))"

definition f32_less :: "u32 \<Rightarrow> u32 \<Rightarrow> bool" where
  "f32_less a b \<longleftrightarrow> \<not> f32_nan a \<and> \<not> f32_nan b \<and> f32_key a < f32_key b"

definition f32_zero :: u32 where "f32_zero = 0"
definition FLT_MAX :: u32 where "FLT_MAX = 0x7F7FFFFF"

subsection \<open>Paths\<close>

record BgpPath =
  bp_origin :: BgpAttrOrigin
  bp_asPath :: "BgpAttrAsPathSegmentC list"
  bp_med :: u32
  bp_isMedSet :: bool
  bp_localPref :: "u32 option"
  bp_atomicAggregate :: bool
  bp_aggregator :: "u32 \<times> ipaddr"
  bp_communities :: "BgpAttrCommunityC list"
  bp_originatorId :: u32
  bp_clusterList :: "u32 list"
  bp_extCommunities :: "BgpAttrExtCommunityC list"
  bp_weight :: u16
  bp_nexthop :: ipaddr
  bp_topologyInfo :: "(string \<times> int) list option"
  bp_backupAddr :: "ipaddr option"

definition kMedMax :: u32 where "kMedMax = 0xFFFFFFFF"

text \<open>\<open>medMissingAsWorst\<close> is the flag \<^verbatim>\<open>enableMedMissingAsWorst\<close> of the best path features.\<close>

definition getMedNotSetValue :: "bool \<Rightarrow> u32" where
  "getMedNotSetValue medMissingAsWorst = (if medMissingAsWorst then kMedMax else 0)"

definition getMed :: "bool \<Rightarrow> BgpPath \<Rightarrow> u32" where
  "getMed medMissingAsWorst p =
     (if \<not> bp_isMedSet p then getMedNotSetValue medMissingAsWorst else bp_med p)"

definition setMed :: "u32 \<Rightarrow> BgpPath \<Rightarrow> BgpPath" where
  "setMed m p = p\<lparr>bp_med := m, bp_isMedSet := True\<rparr>"

definition unSetMed :: "bool \<Rightarrow> BgpPath \<Rightarrow> BgpPath" where
  "unSetMed medMissingAsWorst p = p\<lparr>bp_isMedSet := False, bp_med := getMedNotSetValue medMissingAsWorst\<rparr>"

definition getBgpAsPathLen :: "BgpPath \<Rightarrow> nat" where
  "getBgpAsPathLen p = sum_list (map segLen (bp_asPath p))"

definition getBgpAsPathLenWithConfed :: "BgpPath \<Rightarrow> nat" where
  "getBgpAsPathLenWithConfed p = sum_list (map segLenWithConfed (bp_asPath p))"

subsubsection \<open>Link bandwidth\<close>

definition hasNonTransitiveLbwExtCommunity :: "BgpPath \<Rightarrow> bool" where
  "hasNonTransitiveLbwExtCommunity p =
     list_ex isNonTransitiveLinkBandwidthCommunity (bp_extCommunities p)"

text \<open>One round of the loop that looks for the lowest bandwidth: the best one so far and its value.\<close>

definition lowestLbwStep ::
  "BgpAttrExtCommunityC \<Rightarrow> BgpAttrExtCommunityC option \<times> u32 \<Rightarrow> BgpAttrExtCommunityC option \<times> u32" where
  "lowestLbwStep c acc =
     (case acc of (attr, lowest) \<Rightarrow>
        if isNonTransitiveLinkBandwidthCommunity c
        then let v = snd (getRawValueInWords c) in
             if f32_less v f32_zero \<or> f32_less lowest v then (attr, lowest) else (Some c, v)
        else (attr, lowest))"

fun dynamic_cast_lbw :: "BgpAttrExtCommunityC option \<Rightarrow> BgpAttrExtCommunityC option" where
  "dynamic_cast_lbw (Some (LinkBandWidthTypeC h l)) = Some (LinkBandWidthTypeC h l)"
| "dynamic_cast_lbw _ = None"

definition getNonTransitiveLbwExtCommunity :: "BgpPath \<Rightarrow> BgpAttrExtCommunityC option" where
  "getNonTransitiveLbwExtCommunity p =
     dynamic_cast_lbw (fst (fold lowestLbwStep (bp_extCommunities p) (None, FLT_MAX)))"

definition getNonTransitiveLbw :: "BgpPath \<Rightarrow> (u16 \<times> u32) option" where
  "getNonTransitiveLbw p = map_option (\<lambda>c. (getAsn c, rawValLow c)) (getNonTransitiveLbwExtCommunity p)"

definition getNonTransitiveLbwValue :: "BgpPath \<Rightarrow> u32 option" where
  "getNonTransitiveLbwValue p = map_option rawValLow (getNonTransitiveLbwExtCommunity p)"

definition pruneNonTransitiveLbwExtCommunity :: "BgpPath \<Rightarrow> BgpPath" where
  "pruneNonTransitiveLbwExtCommunity p =
     p\<lparr>bp_extCommunities := filter (\<lambda>c. \<not> isNonTransitiveLinkBandwidthCommunity c) (bp_extCommunities p)\<rparr>"

definition pruneTransitiveLbwExtCommunity :: "BgpPath \<Rightarrow> BgpPath" where
  "pruneTransitiveLbwExtCommunity p =
     p\<lparr>bp_extCommunities := filter (\<lambda>c. \<not> (getType c = kBgpExtCommASTransitiveType \<and>
          getSubType c = Some LINK_BW_COMMUNITY_SUBTYPE)) (bp_extCommunities p)\<rparr>"

definition setNonTransitiveLbwExtCommunity :: "u16 \<Rightarrow> u32 \<Rightarrow> BgpPath \<Rightarrow> BgpPath" where
  "setNonTransitiveLbwExtCommunity asn lbw p =
     (let p' = pruneNonTransitiveLbwExtCommunity p in
      p'\<lparr>bp_extCommunities := bp_extCommunities p' @ [mkBgpAttrExtCommunityC (lbwRawValueHigh asn) lbw]\<rparr>)"

subsection \<open>Conversion from and to the Thrift structs\<close>

text \<open>\<^verbatim>\<open>ntohl\<close> and \<^verbatim>\<open>htonl\<close> on a little-endian host: the bytes in reverse order.\<close>

definition ntohl :: "u32 \<Rightarrow> u32" where
  "ntohl w = word_of_bytes (rev (bytes_of_word 4 w))"

definition segToC :: "BgpAttrAsPathSegment \<Rightarrow> BgpAttrAsPathSegmentC" where
  "segToC seg =
     \<lparr>c_asSet = word_of_int ` asSet seg, c_asSequence = map word_of_int (asSequence seg),
      c_asConfedSequence = map word_of_int (asConfedSequence seg),
      c_asConfedSet = word_of_int ` asConfedSet seg\<rparr>"

definition segToT :: "BgpAttrAsPathSegmentC \<Rightarrow> BgpAttrAsPathSegment" where
  "segToT seg =
     \<lparr>asSet = uint ` c_asSet seg, asSequence = map uint (c_asSequence seg),
      asConfedSequence = map uint (c_asConfedSequence seg), asConfedSet = uint ` c_asConfedSet seg\<rparr>"

definition bgpAttributesToBgpPathC :: "BgpAttributes \<Rightarrow> BgpPath" where
  "bgpAttributesToBgpPathC a =
     \<lparr>bp_origin = origin a, bp_asPath = map segToC (asPath a), bp_med = word_of_int (med a),
      bp_isMedSet = isMedSet a, bp_localPref = map_option word_of_int (localPref a),
      bp_atomicAggregate = atomicAggregate a,
      bp_aggregator = (word_of_int (agg_asn (aggregator a)), agg_ip (aggregator a)),
      bp_communities =
        map (\<lambda>c. BgpAttrCommunityC (word_of_int (comm_asn c)) (word_of_int (comm_value c))) (communities a),
      bp_originatorId = ntohl (word_of_int (originatorId a)),
      bp_clusterList = map (\<lambda>c. ntohl (word_of_int c)) (clusterList a),
      bp_extCommunities =
        map (\<lambda>c. mkBgpAttrExtCommunityC (word_of_int (firstWord c)) (word_of_int (secondWord c)))
          (extCommunities a),
      bp_weight = word_of_int (weight a), bp_nexthop = nexthop a,
      bp_topologyInfo = None, bp_backupAddr = None\<rparr>"

definition extCommToT :: "BgpAttrExtCommunityC \<Rightarrow> BgpAttrExtCommunity" where
  "extCommToT c = (case getRawValueInWords c of (h, l) \<Rightarrow> \<lparr>firstWord = uint h, secondWord = uint l\<rparr>)"

definition commToThrift :: "BgpAttrCommunityC \<Rightarrow> BgpAttrCommunity" where
  "commToThrift c = \<lparr>comm_asn = uint (cc_asn c), comm_value = uint (cc_value c)\<rparr>"

definition bgpPathCtoBgpAttributes :: "BgpPath \<Rightarrow> BgpAttributes" where
  "bgpPathCtoBgpAttributes p =
     default_attrs\<lparr>origin := bp_origin p, asPath := map segToT (bp_asPath p), nexthop := bp_nexthop p,
       med := uint (bp_med p), isMedSet := bp_isMedSet p,
       localPref := map_option uint (bp_localPref p), atomicAggregate := bp_atomicAggregate p,
       aggregator := \<lparr>agg_asn = uint (fst (bp_aggregator p)), agg_ip = snd (bp_aggregator p)\<rparr>,
       communities := map commToThrift (bp_communities p),
       originatorId := uint (ntohl (bp_originatorId p)),
       clusterList := map (\<lambda>c. uint (ntohl c)) (bp_clusterList p),
       extCommunities := map extCommToT (bp_extCommunities p), weight := uint (bp_weight p)\<rparr>"

text \<open>
  What \<^verbatim>\<open>BgpPath::getBgpUpdate2\<close> fills in of the attributes of an update. Next hop and weight
  stay at their defaults, and an unset MED is given its value for the selection.
\<close>

definition getBgpUpdate2Attrs :: "bool \<Rightarrow> BgpPath \<Rightarrow> BgpAttributes" where
  "getBgpUpdate2Attrs medMissingAsWorst p =
     default_attrs\<lparr>origin := bp_origin p, asPath := map segToT (bp_asPath p),
       med := uint (getMed medMissingAsWorst p), isMedSet := bp_isMedSet p,
       localPref := map_option uint (bp_localPref p), atomicAggregate := bp_atomicAggregate p,
       aggregator := \<lparr>agg_asn = uint (fst (bp_aggregator p)), agg_ip = snd (bp_aggregator p)\<rparr>,
       communities := map commToThrift (bp_communities p),
       originatorId := uint (ntohl (bp_originatorId p)),
       clusterList := map (\<lambda>c. uint (ntohl c)) (bp_clusterList p),
       extCommunities := map extCommToT (bp_extCommunities p)\<rparr>"

subsection \<open>Laws of the conversions\<close>

lemma ntohl_ntohl [simp]: "ntohl (ntohl w) = w"
  by (simp add: ntohl_def bytes_of_word_of_bytes)

lemma raw_mk [simp]:
  "rawValHigh (mkBgpAttrExtCommunityC h l) = h" "rawValLow (mkBgpAttrExtCommunityC h l) = l"
  by (simp_all add: mkBgpAttrExtCommunityC_def Let_def)

text \<open>The communities the constructor builds: the class follows from the type octets.\<close>

definition ext_wf :: "BgpAttrExtCommunityC \<Rightarrow> bool" where
  "ext_wf c \<longleftrightarrow> mkBgpAttrExtCommunityC (rawValHigh c) (rawValLow c) = c"

lemma ext_wf_mk [simp]: "ext_wf (mkBgpAttrExtCommunityC h l)"
  by (simp add: ext_wf_def)

lemma lbw_class:
  assumes "ext_wf c"
  shows "isNonTransitiveLinkBandwidthCommunity c \<longleftrightarrow> c = LinkBandWidthTypeC (rawValHigh c) (rawValLow c)"
  using assms
  by (cases c)
     (auto simp: ext_wf_def mkBgpAttrExtCommunityC_def isNonTransitiveLinkBandwidthCommunity_def getType_def
        ext_consts Let_def split: if_splits)

text \<open>Values the Thrift fields are meant to hold: unsigned integers of the width of the protocol.\<close>

definition in_range :: "nat \<Rightarrow> int \<Rightarrow> bool" where
  "in_range n x \<longleftrightarrow> 0 \<le> x \<and> x < 2 ^ n"

lemma uint_word_of_int_range [simp]: "in_range LENGTH('a::len) x \<Longrightarrow> uint (word_of_int x :: 'a word) = x"
  by (simp add: in_range_def word_of_int_inverse)

lemma uint_word32 [simp]: "in_range 32 x \<Longrightarrow> uint (word_of_int x :: u32) = x"
  by (rule uint_word_of_int_range) simp

lemma uint_word16 [simp]: "in_range 16 x \<Longrightarrow> uint (word_of_int x :: u16) = x"
  by (rule uint_word_of_int_range) simp

definition seg_in_range :: "BgpAttrAsPathSegment \<Rightarrow> bool" where
  "seg_in_range seg \<longleftrightarrow>
     (\<forall>x\<in>asSet seg \<union> set (asSequence seg) \<union> set (asConfedSequence seg) \<union> asConfedSet seg. in_range 32 x)"

definition attrs_in_range :: "BgpAttributes \<Rightarrow> bool" where
  "attrs_in_range a \<longleftrightarrow>
     list_all seg_in_range (asPath a) \<and> in_range 32 (med a) \<and> pred_option (in_range 32) (localPref a) \<and>
     in_range 32 (agg_asn (aggregator a)) \<and>
     list_all (\<lambda>c. in_range 16 (comm_asn c) \<and> in_range 16 (comm_value c)) (communities a) \<and>
     in_range 32 (originatorId a) \<and> list_all (in_range 32) (clusterList a) \<and>
     list_all (\<lambda>c. in_range 32 (firstWord c) \<and> in_range 32 (secondWord c)) (extCommunities a) \<and>
     in_range 16 (weight a)"

lemma image_uint_word [simp]: "(\<forall>x\<in>A. in_range 32 x) \<Longrightarrow> uint ` (word_of_int ` A :: u32 set) = A"
  by (force simp: image_image)

lemma map_uint_word [simp]: "(\<forall>x\<in>set xs. in_range 32 x) \<Longrightarrow> map (uint \<circ> (word_of_int :: int \<Rightarrow> u32)) xs = xs"
  by (simp add: map_idI)

lemma seg_roundtrip [simp]: "seg_in_range seg \<Longrightarrow> segToT (segToC seg) = seg"
  by (simp add: seg_in_range_def segToT_def segToC_def)

lemma seg_roundtrip_C [simp]: "segToC (segToT seg) = seg"
  by (simp add: segToT_def segToC_def image_image comp_def)

lemma thrift_to_path_to_thrift:
  assumes "attrs_in_range a"
  shows "bgpPathCtoBgpAttributes (bgpAttributesToBgpPathC a) = a\<lparr>largeCommunities := []\<rparr>"
proof -
  note rng = assms [unfolded attrs_in_range_def list_all_iff]
  have "map (segToT \<circ> segToC) (asPath a) = asPath a"
    using rng by (simp add: map_idI)
  moreover have "map_option (uint \<circ> (word_of_int :: int \<Rightarrow> u32)) (localPref a) = localPref a"
    using rng by (cases "localPref a") simp_all
  moreover have "map (commToThrift \<circ> (\<lambda>c. BgpAttrCommunityC (word_of_int (comm_asn c)) (word_of_int (comm_value c))))
      (communities a) = communities a"
    using rng by (intro map_idI) (simp add: commToThrift_def)
  moreover have "map ((\<lambda>c. uint (ntohl c)) \<circ> (\<lambda>c. ntohl (word_of_int c))) (clusterList a) = clusterList a"
    using rng by (intro map_idI) simp
  moreover have "map (extCommToT \<circ> (\<lambda>c. mkBgpAttrExtCommunityC (word_of_int (firstWord c)) (word_of_int (secondWord c))))
      (extCommunities a) = extCommunities a"
    using rng by (intro map_idI) (simp add: extCommToT_def getRawValueInWords_def)
  ultimately show ?thesis
    using rng
    by (simp add: bgpPathCtoBgpAttributes_def bgpAttributesToBgpPathC_def default_attrs_def option.map_comp)
qed

lemma path_to_thrift_to_path:
  assumes "list_all ext_wf (bp_extCommunities p)"
  shows "bgpAttributesToBgpPathC (bgpPathCtoBgpAttributes p) = p\<lparr>bp_topologyInfo := None, bp_backupAddr := None\<rparr>"
proof -
  have "map ((\<lambda>c. mkBgpAttrExtCommunityC (word_of_int (firstWord c)) (word_of_int (secondWord c))) \<circ> extCommToT)
      (bp_extCommunities p) = bp_extCommunities p"
    using assms by (intro map_idI) (simp add: extCommToT_def getRawValueInWords_def list_all_iff ext_wf_def)
  moreover have "map ((\<lambda>c. BgpAttrCommunityC (word_of_int (comm_asn c)) (word_of_int (comm_value c))) \<circ> commToThrift)
      (bp_communities p) = bp_communities p"
    by (intro map_idI) (simp add: commToThrift_def)
  moreover have "map (segToC \<circ> segToT) (bp_asPath p) = bp_asPath p"
    by (intro map_idI) simp
  moreover have "map ((\<lambda>c. ntohl (word_of_int c)) \<circ> (\<lambda>c. uint (ntohl c))) (bp_clusterList p) = bp_clusterList p"
    by (intro map_idI) simp
  ultimately show ?thesis
    by (simp add: bgpPathCtoBgpAttributes_def bgpAttributesToBgpPathC_def option.map_comp comp_def option.map_ident)
qed

text \<open>
  C15. Attributes survive the way into the RIB and out of it: converting Thrift attributes whose numbers
  are in the ranges of the protocol to a path and back gives them again without the large communities,
  and converting a path to Thrift and back gives it again without the two fields Thrift does not carry.
\<close>

theorem path_thrift_roundtrip:
  "(attrs_in_range a \<longrightarrow> bgpPathCtoBgpAttributes (bgpAttributesToBgpPathC a) = a\<lparr>largeCommunities := []\<rparr>) \<and>
   (list_all ext_wf (bp_extCommunities p) \<longrightarrow>
      bgpAttributesToBgpPathC (bgpPathCtoBgpAttributes p) = p\<lparr>bp_topologyInfo := None, bp_backupAddr := None\<rparr>)"
  by (simp add: thrift_to_path_to_thrift path_to_thrift_to_path)

definition sample_thrift_attrs :: BgpAttributes where
  "sample_thrift_attrs = default_attrs\<lparr>
     asPath := [empty_segment\<lparr>asSequence := [65001, 4200000000]\<rparr>], localPref := Some 100,
     communities := [\<lparr>comm_asn = 65535, comm_value = 1\<rparr>], originatorId := 0x0100000A,
     clusterList := [1, 2], extCommunities := [\<lparr>firstWord = 0x40040001, secondWord = 0x3F800000\<rparr>],
     largeCommunities := [\<lparr>lc_asn = 1, localData1 = 2, localData2 = 3\<rparr>]\<rparr>"

theorem path_thrift_roundtrip_witness:
  "bgpPathCtoBgpAttributes (bgpAttributesToBgpPathC sample_thrift_attrs) = sample_thrift_attrs\<lparr>largeCommunities := []\<rparr> \<and>
   bgpAttributesToBgpPathC (bgpPathCtoBgpAttributes (bgpAttributesToBgpPathC sample_thrift_attrs)) =
     bgpAttributesToBgpPathC sample_thrift_attrs"
  using path_thrift_roundtrip [of sample_thrift_attrs "bgpAttributesToBgpPathC sample_thrift_attrs"]
  by (simp add: sample_thrift_attrs_def attrs_in_range_def seg_in_range_def in_range_def default_attrs_def
      empty_segment_def bgpAttributesToBgpPathC_def)

subsection \<open>Laws of the link bandwidth\<close>

lemma f32_less_irrefl [simp]: "\<not> f32_less a a"
  by (simp add: f32_less_def)

lemma f32_less_trans: "f32_less a b \<Longrightarrow> f32_less b c \<Longrightarrow> f32_less a c"
  by (auto simp: f32_less_def)

lemma f32_not_less_trans:
  "\<not> f32_nan a \<Longrightarrow> \<not> f32_nan b \<Longrightarrow> \<not> f32_nan c \<Longrightarrow> \<not> f32_less b a \<Longrightarrow> \<not> f32_less c b \<Longrightarrow> \<not> f32_less c a"
  by (auto simp: f32_less_def)

lemma f32_consts [simp]: "\<not> f32_nan f32_zero" "\<not> f32_nan FLT_MAX"
  by (simp_all add: f32_nan_def f32_zero_def FLT_MAX_def)

text \<open>The bandwidths that count: of the non-transitive communities, neither negative nor infinite.\<close>

definition lbw_values :: "BgpAttrExtCommunityC list \<Rightarrow> u32 list" where
  "lbw_values cs = map rawValLow (filter (\<lambda>c. isNonTransitiveLinkBandwidthCommunity c \<and>
     \<not> f32_less (rawValLow c) f32_zero \<and> \<not> f32_less FLT_MAX (rawValLow c)) cs)"

definition no_nan :: "BgpAttrExtCommunityC list \<Rightarrow> bool" where
  "no_nan cs \<longleftrightarrow> list_all (\<lambda>c. isNonTransitiveLinkBandwidthCommunity c \<longrightarrow> \<not> f32_nan (rawValLow c)) cs"

text \<open>The state of the search after the communities \<open>cs\<close>.\<close>

definition lowest_inv :: "BgpAttrExtCommunityC list \<Rightarrow> BgpAttrExtCommunityC option \<times> u32 \<Rightarrow> bool" where
  "lowest_inv cs acc \<longleftrightarrow>
     \<not> f32_nan (snd acc) \<and> \<not> f32_less FLT_MAX (snd acc) \<and>
     (\<forall>v\<in>set (lbw_values cs). \<not> f32_less v (snd acc)) \<and>
     (case fst acc of None \<Rightarrow> lbw_values cs = [] \<and> snd acc = FLT_MAX
      | Some c \<Rightarrow> c \<in> set cs \<and> isNonTransitiveLinkBandwidthCommunity c \<and> snd acc = rawValLow c \<and>
          rawValLow c \<in> set (lbw_values cs))"

lemma lbw_values_snoc:
  "lbw_values (cs @ [c]) = lbw_values cs @
     (if isNonTransitiveLinkBandwidthCommunity c \<and> \<not> f32_less (rawValLow c) f32_zero \<and>
         \<not> f32_less FLT_MAX (rawValLow c) then [rawValLow c] else [])"
  by (simp add: lbw_values_def)

lemma lowest_step:
  assumes inv: "lowest_inv cs (attr, low)" and n: "isNonTransitiveLinkBandwidthCommunity c \<longrightarrow> \<not> f32_nan (rawValLow c)"
  shows "lowest_inv (cs @ [c]) (lowestLbwStep c (attr, low))"
proof (cases "isNonTransitiveLinkBandwidthCommunity c \<and> \<not> f32_less (rawValLow c) f32_zero \<and> \<not> f32_less low (rawValLow c)")
  case True
  then have "\<not> f32_nan (rawValLow c)" "\<not> f32_less FLT_MAX (rawValLow c)"
    using n inv by (auto simp: lowest_inv_def f32_less_def)
  moreover have "\<forall>v\<in>set (lbw_values cs). \<not> f32_less v (rawValLow c)"
    using True inv calculation by (auto simp: lowest_inv_def f32_less_def)
  ultimately show ?thesis
    using True by (simp add: lowest_inv_def lowestLbwStep_def getRawValueInWords_def lbw_values_snoc)
next
  case False
  then have "lowestLbwStep c (attr, low) = (attr, low)"
    by (auto simp: lowestLbwStep_def getRawValueInWords_def Let_def)
  moreover have "\<not> f32_less (rawValLow c) low"
    if "isNonTransitiveLinkBandwidthCommunity c" "\<not> f32_less (rawValLow c) f32_zero"
    using False that by (auto simp: f32_less_def)
  ultimately show ?thesis
    using False inv by (auto simp: lowest_inv_def lbw_values_snoc f32_less_def split: option.splits)
qed

lemma lowest_fold:
  "no_nan cs \<Longrightarrow> lowest_inv cs (fold lowestLbwStep cs (None, FLT_MAX))"
proof (induction cs rule: rev_induct)
  case Nil
  show ?case by (simp add: lowest_inv_def lbw_values_def)
next
  case (snoc c cs)
  then show ?case
    using lowest_step [of cs "fst (fold lowestLbwStep cs (None, FLT_MAX))" "snd (fold lowestLbwStep cs (None, FLT_MAX))" c]
    by (simp add: no_nan_def)
qed


definition lbw_path :: "(u32 \<times> u32) list \<Rightarrow> BgpPath" where
  "lbw_path cs = (bgpAttributesToBgpPathC default_attrs)
     \<lparr>bp_extCommunities := map (\<lambda>(h, l). mkBgpAttrExtCommunityC h l) cs\<rparr>"


lemma lbw_high_type [simp]:
  "typeOf (lbwRawValueHigh asn) = kBgpExtCommASNonTransitiveType"
  "subTypeOf (lbwRawValueHigh asn) = LINK_BW_COMMUNITY_SUBTYPE"
  "ucast (lbwRawValueHigh asn AND 0xFFFF) = asn"
proof -
  have h: "lbwRawValueHigh asn = 0x40040000 OR ucast asn"
    by (simp add: lbwRawValueHigh_def ext_consts flip: or.assoc)
  have a: "drop_bit 16 (ucast asn :: u32) = 0" "drop_bit 24 (ucast asn :: u32) = 0"
    by (rule bit_word_eqI, auto simp: bit_simps dest: bit_imp_le_length)+
  show "typeOf (lbwRawValueHigh asn) = kBgpExtCommASNonTransitiveType"
       "subTypeOf (lbwRawValueHigh asn) = LINK_BW_COMMUNITY_SUBTYPE"
    by (simp_all add: typeOf_def subTypeOf_def h drop_bit_or a ext_consts)
  show "ucast (lbwRawValueHigh asn AND 0xFFFF) = asn"
  proof -
    have "ucast asn AND (0xFFFF :: u32) = ucast asn AND mask 16" by (simp add: mask_eq_exp_minus_1)
    also have "\<dots> = ucast asn" by (rule bit_word_eqI) (auto simp: bit_simps dest: bit_imp_le_length)
    finally have "ucast asn AND (0xFFFF :: u32) = ucast asn" .
    moreover have "ucast (ucast asn :: u32) = asn"
      by (rule bit_word_eqI) (auto simp: bit_simps dest: bit_imp_le_length)
    ultimately show ?thesis by (simp add: h bit.conj_disj_distrib2)
  qed
qed

lemma mk_lbw [simp]:
  "mkBgpAttrExtCommunityC (lbwRawValueHigh asn) v = LinkBandWidthTypeC (lbwRawValueHigh asn) v"
  by (simp add: mkBgpAttrExtCommunityC_def)

lemma lbw_is_lbw [simp]: "isNonTransitiveLinkBandwidthCommunity (LinkBandWidthTypeC (lbwRawValueHigh asn) v)"
  by (simp add: isNonTransitiveLinkBandwidthCommunity_def getType_def)

lemma lowest_fold_others:
  "\<forall>c\<in>set cs. \<not> isNonTransitiveLinkBandwidthCommunity c \<Longrightarrow> fold lowestLbwStep cs acc = acc"
  by (induction cs arbitrary: acc) (auto simp: lowestLbwStep_def)





end
