(* ===== verification/Bgp_Assoc.thy ===== *)
theory Bgp_Assoc
  imports Bgp_Prelude "HOL-Library.AList"
begin

text \<open>
  Association lists as hash maps: updates, removals and sizes, for lists with distinct keys, and maps
  of maps.
\<close>

definition keys_distinct :: "('k \<times> 'v) list \<Rightarrow> bool" where
  "keys_distinct m \<longleftrightarrow> distinct (map fst m)"

lemma keys_distinct_Nil [simp]: "keys_distinct []"
  by (simp add: keys_distinct_def)

lemma keys_distinct_Cons [simp]: "keys_distinct ((k, v) # m) \<longleftrightarrow> k \<notin> fst ` set m \<and> keys_distinct m"
  by (simp add: keys_distinct_def)

lemma keys_distinct_update [simp]: "keys_distinct m \<Longrightarrow> keys_distinct (AList.update k v m)"
  by (simp add: keys_distinct_def distinct_update)

lemma keys_distinct_delete [simp]: "keys_distinct m \<Longrightarrow> keys_distinct (AList.delete k m)"
  by (simp add: keys_distinct_def distinct_delete)

lemma map_of_update [simp]: "map_of (AList.update k v m) = (map_of m)(k \<mapsto> v)"
  by (rule update_conv')

lemma map_of_delete [simp]: "map_of (AList.delete k m) = (map_of m)(k := None)"
  by (rule delete_conv')

lemma in_set_map_of: "keys_distinct m \<Longrightarrow> (k, v) \<in> set m \<longleftrightarrow> map_of m k = Some v"
  by (simp add: keys_distinct_def)

lemma update_not_Nil [simp]: "AList.update k v m \<noteq> []"
  by (cases m) (auto split: prod.splits)

lemma map_of_eq_NilD: "m \<noteq> [] \<Longrightarrow> \<exists>k v. map_of m k = Some v"
  by (cases m) auto

lemma length_update:
  "length (AList.update k v m) = (if map_of m k = None then length m + 1 else length m)"
  by (induction m) auto

lemma delete_absent: "map_of m k = None \<Longrightarrow> AList.delete k m = m"
  by (induction m) (auto split: if_splits)

lemma length_delete:
  "keys_distinct m \<Longrightarrow> length (AList.delete k m) = (if map_of m k = None then length m else length m - 1)"
proof (induction m)
  case (Cons p m)
  obtain k' v' where p: "p = (k', v')" by (cases p)
  show ?case
  proof (cases "k' = k")
    case True
    then have "map_of m k = None" using Cons.prems p by (auto simp: map_of_eq_None_iff)
    then show ?thesis using True p by (simp add: delete_absent)
  next
    case False
    moreover have "map_of m k \<noteq> None \<Longrightarrow> length m > 0" by (cases m) auto
    ultimately show ?thesis using Cons p by auto
  qed
qed simp

lemma update_same: "map_of m k = Some v \<Longrightarrow> keys_distinct m \<Longrightarrow> map_of (AList.update k v m) = map_of m"
  by auto

subsection \<open>Maps of maps\<close>

text \<open>The number of entries of all inner maps.\<close>

definition total_size :: "('k \<times> ('i \<times> 'v) list) list \<Rightarrow> nat" where
  "total_size ms = sum_list (map (length \<circ> snd) ms)"

lemma total_size_simps [simp]: "total_size [] = 0" "total_size ((k, m) # ms) = length m + total_size ms"
  by (simp_all add: total_size_def)

lemma total_size_update:
  "total_size (AList.update k m ms) + (case map_of ms k of None \<Rightarrow> 0 | Some m' \<Rightarrow> length m') =
     total_size ms + length m"
  by (induction ms) auto

lemma total_size_delete:
  "keys_distinct ms \<Longrightarrow>
   total_size (AList.delete k ms) + (case map_of ms k of None \<Rightarrow> 0 | Some m \<Rightarrow> length m) = total_size ms"
proof (induction ms)
  case (Cons p ms)
  obtain k' m' where p: "p = (k', m')" by (cases p)
  show ?case
  proof (cases "k' = k")
    case True
    then have "map_of ms k = None" using Cons.prems p by (auto simp: map_of_eq_None_iff)
    then show ?thesis using True p by (simp add: delete_absent)
  next
    case False
    then show ?thesis using Cons p by auto
  qed
qed simp

lemma length_concat_inner: "length (concat (map (\<lambda>(k, m). map snd m) ms)) = total_size ms"
  by (induction ms) auto

end
