(* ===== verification/Nexthop_Cache.thy ===== *)
theory Nexthop_Cache
  imports Bgp_Types Bgp_Assoc
begin

text \<open>
  The cache of next hop statuses, \<^verbatim>\<open>nexthopTracker/NexthopStatus.h\<close> and
  \<^verbatim>\<open>nexthopTracker/NexthopCache.{h,cpp}\<close>. Watcher threads write what they learn about a next
  hop; the RIB thread registers the next hops it uses and is told about changes of those.

  The hash map is an association list with distinct keys; its order stands for the order of iteration,
  which the code does not rely on. Each operation runs under the write lock of the map, so it is one
  function on the cache. The log lines and the counters of \<^verbatim>\<open>RibStats\<close> are left out.
\<close>

type_synonym u64 = "64 word"

subsection \<open>Status of a next hop\<close>

record NexthopStatus =
  ns_nexthop :: ipaddr
  ns_isReachable :: bool
  ns_igpCost :: "u32 option"
  ns_isConnected :: "bool option"
  ns_excludeNexthopWithoutCost :: bool
  ns_ifName :: "string option"
  ns_epoch :: u64

definition mkNexthopStatus ::
  "ipaddr \<Rightarrow> bool \<Rightarrow> u32 option \<Rightarrow> bool option \<Rightarrow> bool \<Rightarrow> string option \<Rightarrow> NexthopStatus" where
  "mkNexthopStatus nh reachable cost connected excl ifn =
     \<lparr>ns_nexthop = nh, ns_isReachable = reachable, ns_igpCost = if reachable then cost else None,
      ns_isConnected = connected, ns_excludeNexthopWithoutCost = excl, ns_ifName = ifn, ns_epoch = 0\<rparr>"

definition isResolvedForSelection :: "NexthopStatus \<Rightarrow> bool" where
  "isResolvedForSelection s \<longleftrightarrow>
     ns_isReachable s \<and> (ns_igpCost s \<noteq> None \<or> \<not> ns_excludeNexthopWithoutCost s)"

subsection \<open>The cache\<close>

record NexthopCache =
  nexthopStatusMap :: "(ipaddr \<times> NexthopStatus \<times> bool) list"
  lastEpoch :: u64
  onNexthopRegistered :: bool

definition withNextEpoch :: "NexthopStatus \<Rightarrow> NexthopCache \<Rightarrow> NexthopStatus \<times> NexthopCache" where
  "withNextEpoch status c =
     (let e = lastEpoch c + 1 in (status\<lparr>ns_epoch := e\<rparr>, c\<lparr>lastEpoch := e\<rparr>))"

text \<open>The three flags that make \<^verbatim>\<open>isNexthopStatusChanged\<close>.\<close>

definition isNexthopStatusChanged :: "NexthopStatus \<Rightarrow> NexthopStatus \<Rightarrow> bool" where
  "isNexthopStatusChanged current new \<longleftrightarrow>
     ns_isReachable current \<noteq> ns_isReachable new \<or>
     ns_igpCost current \<noteq> ns_igpCost new \<or>
     isResolvedForSelection current \<noteq> isResolvedForSelection new"

text \<open>One round of the loop of \<^verbatim>\<open>addOrUpdateNextHopStatus\<close>, with the list to push so far.\<close>

definition addOrUpdateOne ::
  "NexthopStatus \<Rightarrow> NexthopCache \<times> NexthopStatus list \<Rightarrow> NexthopCache \<times> NexthopStatus list" where
  "addOrUpdateOne new acc =
     (case acc of (c, push) \<Rightarrow>
      let ip = ns_nexthop new in
      case map_of (nexthopStatusMap c) ip of
        Some (current, registered) \<Rightarrow>
          if ns_isConnected current = Some True \<and> ns_isConnected new \<noteq> Some True then (c, push)
          else if \<not> isNexthopStatusChanged current new then (c, push)
          else (case withNextEpoch new c of (stamped, c') \<Rightarrow>
            (c'\<lparr>nexthopStatusMap := AList.update ip (stamped, registered) (nexthopStatusMap c')\<rparr>,
             if registered then push @ [stamped] else push))
      | None \<Rightarrow>
          (case withNextEpoch new c of (stamped, c') \<Rightarrow>
            (c'\<lparr>nexthopStatusMap := AList.update ip (stamped, False) (nexthopStatusMap c')\<rparr>, push)))"

definition addOrUpdateNextHopStatus ::
  "NexthopStatus list \<Rightarrow> NexthopCache \<Rightarrow> NexthopCache \<times> NexthopStatus list" where
  "addOrUpdateNextHopStatus statuses c = fold addOrUpdateOne statuses (c, [])"

text \<open>
  The result tells, besides the status, whether the registration hook is called after the lock is
  released.
\<close>

definition registerAndGetNexthopStatus ::
  "ipaddr \<Rightarrow> NexthopCache \<Rightarrow> NexthopStatus \<times> bool \<times> NexthopCache" where
  "registerAndGetNexthopStatus ip c =
     (case map_of (nexthopStatusMap c) ip of
        Some (status, registered) \<Rightarrow>
          (status, onNexthopRegistered c \<and> (\<not> ns_isReachable status \<or> ns_igpCost status = None),
           c\<lparr>nexthopStatusMap := AList.update ip (status, True) (nexthopStatusMap c)\<rparr>)
      | None \<Rightarrow>
          (case withNextEpoch (mkNexthopStatus ip False None None True None) c of (status, c') \<Rightarrow>
            (status, onNexthopRegistered c,
             c'\<lparr>nexthopStatusMap := AList.update ip (status, True) (nexthopStatusMap c')\<rparr>)))"

definition isRegistered :: "ipaddr \<Rightarrow> NexthopCache \<Rightarrow> bool" where
  "isRegistered ip c = (case map_of (nexthopStatusMap c) ip of None \<Rightarrow> False | Some (_, r) \<Rightarrow> r)"

definition getNexthopStatus :: "ipaddr \<Rightarrow> NexthopCache \<Rightarrow> NexthopStatus option" where
  "getNexthopStatus ip c = map_option fst (map_of (nexthopStatusMap c) ip)"

text \<open>\<^verbatim>\<open>inSubnet\<close> masks the address; it is asked only for a subnet of the same family.\<close>

definition inSubnet :: "ipaddr \<Rightarrow> ipaddr \<Rightarrow> nat \<Rightarrow> bool" where
  "inSubnet ip subnet len \<longleftrightarrow> ip_mask len ip = ip_mask len subnet"

definition getRegisteredNexthopsInSubnet :: "cidr \<Rightarrow> NexthopCache \<Rightarrow> ipaddr list" where
  "getRegisteredNexthopsInSubnet pfx c =
     (case pfx of (subnet, prefixLen) \<Rightarrow>
        map fst (filter (\<lambda>(ip, status, registered).
          registered \<and> isV4 ip = isV4 subnet \<and> inSubnet ip subnet prefixLen) (nexthopStatusMap c)))"

definition clearConnectedStatus :: "ipaddr \<Rightarrow> NexthopCache \<Rightarrow> NexthopStatus option \<times> NexthopCache" where
  "clearConnectedStatus ip c =
     (case map_of (nexthopStatusMap c) ip of
        None \<Rightarrow> (None, c)
      | Some (status, registered) \<Rightarrow>
          if ns_isConnected status \<noteq> Some True then (None, c)
          else (case withNextEpoch (mkNexthopStatus ip False None None True None) c of (status', c') \<Rightarrow>
            (if registered then Some status' else None,
             c'\<lparr>nexthopStatusMap := AList.update ip (status', registered) (nexthopStatusMap c')\<rparr>)))"

definition unregisterAndRemoveNexthopStatus :: "ipaddr \<Rightarrow> NexthopCache \<Rightarrow> bool \<times> NexthopCache" where
  "unregisterAndRemoveNexthopStatus ip c =
     (case map_of (nexthopStatusMap c) ip of
        Some (status, registered) \<Rightarrow>
          if \<not> ns_isReachable status
          then (True, c\<lparr>nexthopStatusMap := AList.delete ip (nexthopStatusMap c)\<rparr>)
          else (False, c\<lparr>nexthopStatusMap := AList.update ip (status, False) (nexthopStatusMap c)\<rparr>)
      | None \<Rightarrow> (False, c))"

definition setOnNexthopRegistered :: "bool \<Rightarrow> NexthopCache \<Rightarrow> NexthopCache" where
  "setOnNexthopRegistered cb c = c\<lparr>onNexthopRegistered := cb\<rparr>"

end
