(* ===== verification/Route_Filter.thy ===== *)
theory Route_Filter
  imports Bgp_Path Nexthop_Cache
begin

text \<open>
  Route selection: the routes of a prefix and their metrics (\<^verbatim>\<open>common/RouteInfo.{h,cpp}\<close>), the
  filters (\<^verbatim>\<open>routelib/RouteFilter.{h,cpp}\<close>, \<^verbatim>\<open>rib/RouteInfoFilter.cpp\<close>), the selectors
  that chain them (\<^verbatim>\<open>routelib/RouteSelector.cpp\<close>, \<^verbatim>\<open>rib/RouteInfoSelector.cpp\<close>) and the
  filter lists of the best path algorithm (\<^verbatim>\<open>rib/RouteFilterConfig.h\<close>).

  The code passes shared pointers to routes around, compares them by address and writes through them,
  so routes live in a store and the lists of the model are lists of addresses. A next hop is found in
  the store by its address as well, which is its key in the map of the RIB. \<open>None\<close> as the result of
  an operation means that the process is ended by a failed check.
\<close>

unbundle bit_operations_syntax

subsection \<open>Routes\<close>

datatype BgpSessionType = EBGP | IBGP | ConfedEBGP

record TinyPeerInfo =
  t_addr :: ipaddr
  t_asn :: u32
  t_routerId :: u32
  t_sessionType :: BgpSessionType
  t_isRrClient :: bool
  t_isRedistributePeer :: bool
  t_ucmpWeight :: "u32 option"
  t_description :: string

record BgpBestpathFeatures =
  enableMedComparison :: bool
  enableMedMissingAsWorst :: bool
  enableWeightComparison :: bool
  enableNextHopTracking :: bool
  enableEiBgpMultipath :: bool

text \<open>A published path is shared and never changed: an address with the path that is there.\<close>

record published_path =
  path_ptr :: nat
  path_published :: bool
  path_of :: BgpPath

subsubsection \<open>Filter configurations\<close>

datatype RouteMetric =
    BGP_LOCAL_PREFERENCE | BGP_AS_PATH_LEN | BGP_ORIGIN_CODE | BGP_MED_VALUE | DELETED_ROUTE
  | CONTROLLER_COMMUNITY | BGP_ROUTER_ID | BGP_PEER_ASN | CONTROLLER_COMMUNITY_METRO | PREFIX_LENGTH
  | PERF_DETOUR_ROUTE_OVERRIDE | ALREADY_PREFERRED_ROUTE | EXTERNAL_ROUTE | LOCAL_ROUTE | BGP_PEER_IP
  | BGP_CLUSTER_LIST_LEN | CONFED_EXTERNAL_ROUTE | BGP_AS_PATH_LEN_WITH_CONFED | BGP_PEER_NEXTHOP
  | BGP_WEIGHT_VALUE | IGP_COST

datatype HighestLowestRouteFilterAction = CHOOSE_HIGHEST | CHOOSE_LOWEST

datatype MembershipRouteFilterAction = CHOOSE_MEMBER | CHOOSE_NONMEMBER

datatype RouteFilterConfig = RouteFilterConfig (cfg_metric: RouteMetric) (cfg_opts: RouteFilterOpts)
and RouteFilterOpts =
    RangedRouteFilterOpts u64 u64
  | HighestLowestRouteFilterOpts HighestLowestRouteFilterAction
  | MembershipRouteFilterOpts MembershipRouteFilterAction "u64 list"
  | RecoverEquivalentRouteFilterOpts "RouteFilterConfig list"

subsubsection \<open>State of a route\<close>

record RouteInfo =
  r_prefix :: cidr
  r_peer :: TinyPeerInfo
  r_attrs :: published_path
  receivedPathId :: u32
  pathIdToSend :: "u32 option"
  installToFib :: bool
  status :: u32
  bestPathFilterConfig :: "RouteFilterConfig option"
  ucmpWeight :: "u32 option"
  nexthopInfo :: "ipaddr option"

text \<open>
  \<open>nexthopInfo\<close> is the pointer into the map of next hops. The hook of the intrusive list is linked
  exactly when the pointer is set: both are written only in \<^verbatim>\<open>linkRouteInfo\<close> and
  \<^verbatim>\<open>unlinkRouteInfo\<close>, so one field stands for both.
\<close>

record NexthopInfo =
  ni_status :: NexthopStatus
  nexthopAssociationList :: "nat list"

record rib_store =
  route_at :: "nat \<Rightarrow> RouteInfo"
  next_route :: nat
  nexthopInfoMap :: "(ipaddr \<times> NexthopInfo) list"
  next_map :: nat

definition DELETED :: u32 where "DELETED = 0x01"
definition PREFERRED :: u32 where "PREFERRED = 0x02"
definition LOCAL :: u32 where "LOCAL = 0x04"
definition EXTERNAL :: u32 where "EXTERNAL = 0x08"
definition CONFED_EXTERNAL :: u32 where "CONFED_EXTERNAL = 0x10"

lemmas route_flags = DELETED_def PREFERRED_def LOCAL_def EXTERNAL_def CONFED_EXTERNAL_def

definition has_flag :: "u32 \<Rightarrow> RouteInfo \<Rightarrow> bool" where
  "has_flag f r \<longleftrightarrow> (status r AND f) = f"

definition set_flag :: "u32 \<Rightarrow> RouteInfo \<Rightarrow> RouteInfo" where
  "set_flag f r = r\<lparr>status := status r OR f\<rparr>"

definition clear_flag :: "u32 \<Rightarrow> RouteInfo \<Rightarrow> RouteInfo" where
  "clear_flag f r = r\<lparr>status := status r AND NOT f\<rparr>"

definition getIsRouteDeleted :: "RouteInfo \<Rightarrow> bool" where "getIsRouteDeleted = has_flag DELETED"
definition getIsRoutePreferred :: "RouteInfo \<Rightarrow> bool" where "getIsRoutePreferred = has_flag PREFERRED"
definition getIsRouteLocal :: "RouteInfo \<Rightarrow> bool" where "getIsRouteLocal = has_flag LOCAL"
definition getIsRouteExternal :: "RouteInfo \<Rightarrow> bool" where "getIsRouteExternal = has_flag EXTERNAL"
definition getIsRouteConfedExternal :: "RouteInfo \<Rightarrow> bool" where
  "getIsRouteConfedExternal = has_flag CONFED_EXTERNAL"
definition setRouteDeleted :: "RouteInfo \<Rightarrow> RouteInfo" where "setRouteDeleted = set_flag DELETED"
definition setRoutePreferred :: "RouteInfo \<Rightarrow> RouteInfo" where "setRoutePreferred = set_flag PREFERRED"
definition clearRoutePreferred :: "RouteInfo \<Rightarrow> RouteInfo" where
  "clearRoutePreferred = clear_flag PREFERRED"
definition setRouteLocal :: "RouteInfo \<Rightarrow> RouteInfo" where "setRouteLocal = set_flag LOCAL"
definition setRouteExternal :: "RouteInfo \<Rightarrow> RouteInfo" where "setRouteExternal = set_flag EXTERNAL"
definition setRouteConfedExternal :: "RouteInfo \<Rightarrow> RouteInfo" where
  "setRouteConfedExternal = set_flag CONFED_EXTERNAL"

text \<open>
  Equality of \<^verbatim>\<open>folly::IPAddress\<close>: an IPv4 address equals the IPv6 address it is mapped to.
\<close>

fun ip_eq :: "ipaddr \<Rightarrow> ipaddr \<Rightarrow> bool" where
  "ip_eq (IPv4 a) (IPv6 b) \<longleftrightarrow> b = push_bit 32 0xFFFF OR ucast a"
| "ip_eq (IPv6 b) (IPv4 a) \<longleftrightarrow> b = push_bit 32 0xFFFF OR ucast a"
| "ip_eq a b \<longleftrightarrow> a = b"

definition kLocalRoutePeerAddr :: ipaddr where "kLocalRoutePeerAddr = IPv4 0"

text \<open>The constructor; the time of the last modification is display data and left out.\<close>

definition mkRouteInfo ::
  "cidr \<Rightarrow> TinyPeerInfo \<Rightarrow> published_path \<Rightarrow> u32 \<Rightarrow> u32 option \<Rightarrow> bool \<Rightarrow> RouteInfo option" where
  "mkRouteInfo pfx peer att recvId sendId install =
     (if path_published att \<and> bp_localPref (path_of att) \<noteq> None
      then let r = \<lparr>r_prefix = pfx, r_peer = peer, r_attrs = att, receivedPathId = recvId,
                    pathIdToSend = sendId, installToFib = install, status = 0,
                    bestPathFilterConfig = None, ucmpWeight = None, nexthopInfo = None\<rparr>;
               r = (if ip_eq (t_addr peer) kLocalRoutePeerAddr then setRouteLocal r
                    else if t_sessionType peer = EBGP then setRouteExternal r
                    else if t_sessionType peer = ConfedEBGP then setRouteConfedExternal r
                    else r)
           in Some (case getNonTransitiveLbwValue (path_of att) of
                None \<Rightarrow> r
              | Some v \<Rightarrow> if f32_nan v \<or> f32_less v f32_zero then r else r\<lparr>ucmpWeight := Some v\<rparr>)
      else None)"

subsection \<open>Metrics\<close>

abbreviation route_path :: "RouteInfo \<Rightarrow> BgpPath" where
  "route_path r \<equiv> path_of (r_attrs r)"

definition getOriginAsnAndPeerAsn :: "RouteInfo \<Rightarrow> u32 \<times> u32" where
  "getOriginAsnAndPeerAsn r =
     (let asPath = concat (map (\<lambda>seg. sorted_list_of_set (c_asSet seg) @ c_asSequence seg) (bp_asPath (route_path r))) in
      if asPath \<noteq> [] then (last asPath, hd asPath) else (0, 0))"

definition getBgpRouterId :: "RouteInfo \<Rightarrow> u64" where
  "getBgpRouterId r =
     (let originatorId = (if bp_originatorId (route_path r) \<noteq> 0 then bp_originatorId (route_path r)
                          else t_routerId (r_peer r)) in
      push_bit 32 (ucast originatorId) + ucast (t_routerId (r_peer r)))"

definition transformIP2Int :: "ipaddr \<Rightarrow> u128 option" where
  "transformIP2Int addr =
     (if addr = IPEmpty then None
      else let bytes = ip_bytes addr in
           Some (fold (\<lambda>(byteIdx, byteValue) ipBytes.
             ipBytes OR push_bit ((length bytes - byteIdx - 1) * 8) (ucast byteValue)) (enumerate 0 bytes) 0))"

text \<open>The defensive null check of the pointer is the lookup in the map.\<close>

definition getIgpCostValue :: "rib_store \<Rightarrow> RouteInfo \<Rightarrow> u32" where
  "getIgpCostValue h r =
     (case Option.bind (nexthopInfo r) (map_of (nexthopInfoMap h)) of
        None \<Rightarrow> 0xFFFFFFFF
      | Some ni \<Rightarrow> (case ns_igpCost (ni_status ni) of None \<Rightarrow> 0xFFFFFFFF | Some c \<Rightarrow> c))"

definition route_isResolvedForSelection :: "rib_store \<Rightarrow> RouteInfo \<Rightarrow> bool" where
  "route_isResolvedForSelection h r =
     (if getIsRouteLocal r then True
      else case Option.bind (nexthopInfo r) (map_of (nexthopInfoMap h)) of
        None \<Rightarrow> False
      | Some ni \<Rightarrow> Nexthop_Cache.isResolvedForSelection (ni_status ni))"

type_synonym rule = "rib_store \<Rightarrow> nat \<Rightarrow> u128 option"

abbreviation flag_value :: "bool \<Rightarrow> u128" where
  "flag_value b \<equiv> (if b then 1 else 0)"

text \<open>
  The rule for a metric: the switch of \<^verbatim>\<open>fromRouteFilterConfig\<close> with the getters of
  \<^verbatim>\<open>RouteInfo\<close> it leads to. \<open>None\<close> for a metric without a rule; a rule gives \<open>None\<close> where the
  getter fails a check. Every result is converted to 128 bits.
\<close>

definition metric_rule :: "BgpBestpathFeatures \<Rightarrow> RouteMetric \<Rightarrow> rule option" where
  "metric_rule ff m =
     (case m of
        BGP_LOCAL_PREFERENCE \<Rightarrow> Some (\<lambda>h a. map_option ucast (bp_localPref (route_path (route_at h a))))
      | BGP_AS_PATH_LEN \<Rightarrow> Some (\<lambda>h a. Some (of_nat (getBgpAsPathLen (route_path (route_at h a)))))
      | BGP_AS_PATH_LEN_WITH_CONFED \<Rightarrow>
          Some (\<lambda>h a. Some (of_nat (getBgpAsPathLenWithConfed (route_path (route_at h a)))))
      | BGP_ORIGIN_CODE \<Rightarrow> Some (\<lambda>h a. Some (word_of_int (origin_code (bp_origin (route_path (route_at h a))))))
      | BGP_MED_VALUE \<Rightarrow> Some (\<lambda>h a. Some (ucast (getMed (enableMedMissingAsWorst ff) (route_path (route_at h a)))))
      | DELETED_ROUTE \<Rightarrow> Some (\<lambda>h a. Some (flag_value (getIsRouteDeleted (route_at h a))))
      | CONTROLLER_COMMUNITY \<Rightarrow> Some (\<lambda>h a. None)
      | BGP_ROUTER_ID \<Rightarrow> Some (\<lambda>h a. Some (ucast (getBgpRouterId (route_at h a))))
      | BGP_PEER_ASN \<Rightarrow> Some (\<lambda>h a. Some (ucast (snd (getOriginAsnAndPeerAsn (route_at h a)))))
      | CONTROLLER_COMMUNITY_METRO \<Rightarrow> Some (\<lambda>h a. None)
      | PREFIX_LENGTH \<Rightarrow> Some (\<lambda>h a. Some (of_nat (snd (r_prefix (route_at h a)))))
      | ALREADY_PREFERRED_ROUTE \<Rightarrow> Some (\<lambda>h a. Some (flag_value (getIsRoutePreferred (route_at h a))))
      | EXTERNAL_ROUTE \<Rightarrow> Some (\<lambda>h a. Some (flag_value (getIsRouteExternal (route_at h a))))
      | BGP_PEER_IP \<Rightarrow> Some (\<lambda>h a. transformIP2Int (t_addr (r_peer (route_at h a))))
      | BGP_PEER_NEXTHOP \<Rightarrow> Some (\<lambda>h a. transformIP2Int (bp_nexthop (route_path (route_at h a))))
      | BGP_CLUSTER_LIST_LEN \<Rightarrow> Some (\<lambda>h a. Some (of_nat (length (bp_clusterList (route_path (route_at h a))))))
      | CONFED_EXTERNAL_ROUTE \<Rightarrow> Some (\<lambda>h a. Some (flag_value (getIsRouteConfedExternal (route_at h a))))
      | BGP_WEIGHT_VALUE \<Rightarrow> Some (\<lambda>h a. Some (ucast (bp_weight (route_path (route_at h a)))))
      | IGP_COST \<Rightarrow> Some (\<lambda>h a. Some (ucast (getIgpCostValue h (route_at h a))))
      | _ \<Rightarrow> None)"

subsection \<open>Filters\<close>

datatype RouteFilter =
    HighestLowestRouteFilter (filter_config: RouteFilterConfig) (filter_rule: rule) HighestLowestRouteFilterAction
  | RangedRouteFilter (filter_config: RouteFilterConfig) (filter_rule: rule) u64 u64
  | MembershipRouteFilter (filter_config: RouteFilterConfig) (filter_rule: rule)
      MembershipRouteFilterAction "u64 list"
  | RecoverEquivalentRouteFilter (filter_config: RouteFilterConfig) (filter_rule: rule) "RouteFilter list"

text \<open>\<^verbatim>\<open>fromRouteFilterConfig\<close>, with \<^verbatim>\<open>createRouteFilter\<close> and the vector version.\<close>

fun fromRouteFilterConfig :: "BgpBestpathFeatures \<Rightarrow> RouteFilterConfig \<Rightarrow> RouteFilter option"
and createRouteFilter :: "BgpBestpathFeatures \<Rightarrow> RouteMetric \<Rightarrow> RouteFilterOpts \<Rightarrow> rule \<Rightarrow> RouteFilter option"
and fromRouteFilterConfigVec :: "BgpBestpathFeatures \<Rightarrow> RouteFilterConfig list \<Rightarrow> RouteFilter list option" where
  "fromRouteFilterConfig ff (RouteFilterConfig m opts) =
     (case metric_rule ff m of None \<Rightarrow> None | Some rl \<Rightarrow> createRouteFilter ff m opts rl)"
| "createRouteFilter ff m (RangedRouteFilterOpts lo hi) rl =
     Some (RangedRouteFilter (RouteFilterConfig m (RangedRouteFilterOpts lo hi)) rl lo hi)"
| "createRouteFilter ff m (HighestLowestRouteFilterOpts action) rl =
     Some (HighestLowestRouteFilter (RouteFilterConfig m (HighestLowestRouteFilterOpts action)) rl action)"
| "createRouteFilter ff m (MembershipRouteFilterOpts action vals) rl =
     Some (MembershipRouteFilter (RouteFilterConfig m (MembershipRouteFilterOpts action vals)) rl action vals)"
| "createRouteFilter ff m (RecoverEquivalentRouteFilterOpts cfgs) rl =
     (case fromRouteFilterConfigVec ff cfgs of
        None \<Rightarrow> None
      | Some tiebreakers \<Rightarrow>
          Some (RecoverEquivalentRouteFilter (RouteFilterConfig m (RecoverEquivalentRouteFilterOpts cfgs)) rl tiebreakers))"
| "fromRouteFilterConfigVec ff [] = Some []"
| "fromRouteFilterConfigVec ff (c # cs) =
     (case fromRouteFilterConfig ff c of
        None \<Rightarrow> None
      | Some f \<Rightarrow> map_option (Cons f) (fromRouteFilterConfigVec ff cs))"

text \<open>The factory of the RIB: it adds the metric \<^verbatim>\<open>LOCAL_ROUTE\<close>, for the outermost filter only.\<close>

definition ribFilterFromConfig :: "BgpBestpathFeatures \<Rightarrow> RouteFilterConfig \<Rightarrow> RouteFilter option" where
  "ribFilterFromConfig ff c =
     (if cfg_metric c = LOCAL_ROUTE
      then createRouteFilter ff LOCAL_ROUTE (cfg_opts c) (\<lambda>h a. Some (flag_value (getIsRouteLocal (route_at h a))))
      else fromRouteFilterConfig ff c)"

type_synonym filter_map = "(nat \<rightharpoonup> RouteFilterConfig) option"

definition captureRejectedFilter :: "RouteFilterConfig \<Rightarrow> nat \<Rightarrow> filter_map \<Rightarrow> filter_map" where
  "captureRejectedFilter cfg r fm = map_option (\<lambda>m. if m r = None then m(r \<mapsto> cfg) else m) fm"

definition getRouteWeights :: "rule \<Rightarrow> rib_store \<Rightarrow> nat list \<Rightarrow> u128 list option" where
  "getRouteWeights rl h routes = those (map (rl h) routes)"

definition max_element :: "u128 list \<Rightarrow> u128" where
  "max_element ws = fold max (tl ws) (hd ws)"

definition min_element :: "u128 list \<Rightarrow> u128" where
  "min_element ws = fold min (tl ws) (hd ws)"

text \<open>
  The loop the first three filters share: routes whose weight is wanted are accepted, the others are
  rejected and captured, in the order they come in.
\<close>

definition split_by ::
  "RouteFilterConfig \<Rightarrow> (u128 \<Rightarrow> bool) \<Rightarrow> nat list \<Rightarrow> u128 list \<Rightarrow> filter_map \<Rightarrow> (nat list \<times> nat list) \<times> filter_map" where
  "split_by cfg wanted routes ws fm =
     (let first = map fst (filter (\<lambda>(r, w). wanted w) (zip routes ws));
          second = map fst (filter (\<lambda>(r, w). \<not> wanted w) (zip routes ws))
      in ((first, second), fold (captureRejectedFilter cfg) second fm))"

definition filter_by ::
  "RouteFilterConfig \<Rightarrow> rule \<Rightarrow> (u128 list \<Rightarrow> u128 \<Rightarrow> bool) \<Rightarrow> rib_store \<Rightarrow> nat list \<Rightarrow> filter_map \<Rightarrow>
   ((nat list \<times> nat list) \<times> filter_map) option" where
  "filter_by cfg rl wanted h routes fm =
     (case getRouteWeights rl h routes of
        None \<Rightarrow> None
      | Some ws \<Rightarrow> Some (split_by cfg (wanted ws) routes ws fm))"

fun target_weight :: "HighestLowestRouteFilterAction \<Rightarrow> u128 list \<Rightarrow> u128" where
  "target_weight CHOOSE_HIGHEST ws = max_element ws"
| "target_weight CHOOSE_LOWEST ws = min_element ws"

text \<open>
  The bounds and members are 64 bits wide. A bound is sign extended for the comparison with a weight; a
  weight is cut to 64 bits for the lookup in the set.
\<close>

definition in_bounds :: "u64 \<Rightarrow> u64 \<Rightarrow> u128 \<Rightarrow> bool" where
  "in_bounds lo hi w \<longleftrightarrow> scast lo \<le> w \<and> w \<le> scast hi"

fun member_wanted :: "MembershipRouteFilterAction \<Rightarrow> u64 list \<Rightarrow> u128 \<Rightarrow> bool" where
  "member_wanted CHOOSE_MEMBER vals w \<longleftrightarrow> ucast w \<in> set vals"
| "member_wanted CHOOSE_NONMEMBER vals w \<longleftrightarrow> ucast w \<notin> set vals"

text \<open>
  The loop that recovers: each accepted route keeps its place and is followed by the rejected routes
  that have its metric value; those leave the rejected ones.
\<close>

fun recover_loop :: "(nat \<Rightarrow> u128) \<Rightarrow> nat list \<Rightarrow> nat list \<Rightarrow> nat list \<times> nat list" where
  "recover_loop val [] rejected = ([], rejected)"
| "recover_loop val (r # routes) rejected =
     (case recover_loop val routes (filter (\<lambda>x. val x \<noteq> val r) rejected) of
        (first, second) \<Rightarrow> (r # filter (\<lambda>x. val x = val r) rejected @ first, second))"

fun filterRoutes ::
  "rib_store \<Rightarrow> RouteFilter \<Rightarrow> nat list \<times> nat list \<Rightarrow> filter_map \<Rightarrow>
   ((nat list \<times> nat list) \<times> filter_map) option"
and tiebreak ::
  "rib_store \<Rightarrow> RouteFilter list \<Rightarrow> nat list \<times> nat list \<Rightarrow> nat list \<Rightarrow> filter_map \<Rightarrow>
   (((nat list \<times> nat list) \<times> nat list) \<times> filter_map) option" where
  "filterRoutes h (HighestLowestRouteFilter cfg rl action) prev fm =
     (if fst prev = [] then Some (([], []), fm)
      else filter_by cfg rl (\<lambda>ws w. w = target_weight action ws) h (fst prev) fm)"
| "filterRoutes h (RangedRouteFilter cfg rl lo hi) prev fm =
     filter_by cfg rl (\<lambda>ws. in_bounds lo hi) h (fst prev) fm"
| "filterRoutes h (MembershipRouteFilter cfg rl action vals) prev fm =
     filter_by cfg rl (\<lambda>ws. member_wanted action vals) h (fst prev) fm"
| "filterRoutes h (RecoverEquivalentRouteFilter cfg rl tiebreakers) prev fm =
     (case tiebreak h tiebreakers prev (if tiebreakers = [] then snd prev else []) fm of
        None \<Rightarrow> None
      | Some ((last_round, rejected), fm) \<Rightarrow>
          if list_all (\<lambda>r. rl h r \<noteq> None) (fst last_round) \<and>
             (fst last_round \<noteq> [] \<longrightarrow> list_all (\<lambda>r. rl h r \<noteq> None) rejected)
          then Some (recover_loop (\<lambda>r. the (rl h r)) (fst last_round) rejected, fm)
          else None)"
| "tiebreak h [] prev rejected fm = Some ((prev, rejected), fm)"
| "tiebreak h (t # ts) prev rejected fm =
     (case filterRoutes h t prev fm of
        None \<Rightarrow> None
      | Some (prev, fm) \<Rightarrow> tiebreak h ts prev (snd prev @ rejected) fm)"

fun comparable :: "RouteFilter \<Rightarrow> bool" where
  "comparable (HighestLowestRouteFilter cfg rl action) = True"
| "comparable _ = False"

text \<open>\<open>None\<close> for a filter without a comparator, which ends the process.\<close>

fun compare :: "rib_store \<Rightarrow> RouteFilter \<Rightarrow> nat \<Rightarrow> nat \<Rightarrow> bool option" where
  "compare h (HighestLowestRouteFilter cfg rl action) r1 r2 =
     (case (rl h r1, rl h r2) of
        (Some w1, Some w2) \<Rightarrow> Some (case action of CHOOSE_HIGHEST \<Rightarrow> w1 < w2 | CHOOSE_LOWEST \<Rightarrow> w2 < w1)
      | _ \<Rightarrow> None)"
| "compare h _ r1 r2 = None"

subsection \<open>Selectors\<close>

fun runFilters ::
  "rib_store \<Rightarrow> RouteFilter list \<Rightarrow> nat list \<times> nat list \<Rightarrow> filter_map \<Rightarrow>
   ((nat list \<times> nat list) \<times> filter_map) option" where
  "runFilters h [] prev fm = Some (prev, fm)"
| "runFilters h (f # fs) prev fm =
     (case filterRoutes h f prev fm of
        None \<Rightarrow> None
      | Some (prev, fm) \<Rightarrow> runFilters h fs prev fm)"

definition applyFilters ::
  "rib_store \<Rightarrow> RouteFilter list \<Rightarrow> nat list \<Rightarrow> filter_map \<Rightarrow> ((nat list \<times> nat list) \<times> filter_map) option" where
  "applyFilters h fs routes fm =
     (case (if routes = [] then Some ((routes, []), fm) else runFilters h fs (routes, []) fm) of
        None \<Rightarrow> None
      | Some ((accepted, _), fm) \<Rightarrow> Some ((accepted, filter (\<lambda>r. r \<notin> set accepted) routes), fm))"

definition upd_route :: "(RouteInfo \<Rightarrow> RouteInfo) \<Rightarrow> nat \<Rightarrow> rib_store \<Rightarrow> rib_store" where
  "upd_route f a h = h\<lparr>route_at := (route_at h)(a := f (route_at h a))\<rparr>"

definition markPreferredRoutes :: "RouteFilter list \<Rightarrow> nat list \<Rightarrow> rib_store \<Rightarrow> (bool \<times> rib_store) option" where
  "markPreferredRoutes fs routes h =
     (if list_ex (\<lambda>f. cfg_metric (filter_config f) = ALREADY_PREFERRED_ROUTE) fs then None
      else case applyFilters h fs routes None of
        None \<Rightarrow> None
      | Some ((first, second), _) \<Rightarrow>
          let (changed, h) = fold (\<lambda>r (changed, h).
                (changed \<or> \<not> getIsRoutePreferred (route_at h r), upd_route setRoutePreferred r h)) first (False, h)
          in Some (fold (\<lambda>r (changed, h).
                (changed \<or> getIsRoutePreferred (route_at h r), upd_route clearRoutePreferred r h)) second (changed, h)))"

definition selectRoutes :: "RouteFilter list \<Rightarrow> rib_store \<Rightarrow> nat list \<Rightarrow> nat list option" where
  "selectRoutes fs h routes = map_option (fst \<circ> fst) (applyFilters h fs routes None)"

definition selectRoutesAndSetRejectionFilter ::
  "RouteFilter list \<Rightarrow> nat list \<Rightarrow> rib_store \<Rightarrow> (nat list \<times> rib_store) option" where
  "selectRoutesAndSetRejectionFilter fs routes h =
     (let h = fold (upd_route (\<lambda>r. r\<lparr>bestPathFilterConfig := None\<rparr>)) routes h in
      case applyFilters h fs routes (Some Map.empty) of
        None \<Rightarrow> None
      | Some ((accepted, _), fm) \<Rightarrow>
          Some (accepted, fold (\<lambda>a h. case the fm a of
                  None \<Rightarrow> h
                | Some cfg \<Rightarrow> upd_route (\<lambda>r. r\<lparr>bestPathFilterConfig := Some cfg\<rparr>) a h) routes h))"

fun compareRoutes :: "rib_store \<Rightarrow> RouteFilter list \<Rightarrow> nat \<Rightarrow> nat \<Rightarrow> bool option" where
  "compareRoutes h [] r1 r2 = Some False"
| "compareRoutes h (f # fs) r1 r2 =
     (if \<not> comparable f then compareRoutes h fs r1 r2
      else case compare h f r1 r2 of
        None \<Rightarrow> None
      | Some True \<Rightarrow> Some True
      | Some False \<Rightarrow>
          (case compare h f r2 r1 of
             None \<Rightarrow> None
           | Some True \<Rightarrow> Some False
           | Some False \<Rightarrow> compareRoutes h fs r1 r2))"

subsection \<open>Filter lists\<close>

definition getMembershipFilterConfig ::
  "RouteMetric \<Rightarrow> MembershipRouteFilterAction \<Rightarrow> u64 list \<Rightarrow> RouteFilterConfig" where
  "getMembershipFilterConfig m action vals = RouteFilterConfig m (MembershipRouteFilterOpts action vals)"

definition getHighestLowestRouteFilterConfig ::
  "RouteMetric \<Rightarrow> HighestLowestRouteFilterAction \<Rightarrow> RouteFilterConfig" where
  "getHighestLowestRouteFilterConfig m action = RouteFilterConfig m (HighestLowestRouteFilterOpts action)"

definition getRecoverEquivalentRouteFilterConfig ::
  "RouteMetric \<Rightarrow> RouteFilterConfig list \<Rightarrow> RouteFilterConfig" where
  "getRecoverEquivalentRouteFilterConfig m tiebreakers =
     RouteFilterConfig m (RecoverEquivalentRouteFilterOpts tiebreakers)"

definition getRouteFilterConfigs :: "(RouteMetric \<times> bool) list \<Rightarrow> RouteFilterConfig list" where
  "getRouteFilterConfigs metricAndHighests =
     RouteFilterConfig DELETED_ROUTE (MembershipRouteFilterOpts CHOOSE_MEMBER [0]) #
     map (\<lambda>(m, highest). RouteFilterConfig m
            (HighestLowestRouteFilterOpts (if highest then CHOOSE_HIGHEST else CHOOSE_LOWEST))) metricAndHighests"

definition kRouterFilterConfigsBase :: "RouteFilterConfig list" where
  "kRouterFilterConfigsBase =
     [getMembershipFilterConfig DELETED_ROUTE CHOOSE_MEMBER [0],
      getHighestLowestRouteFilterConfig PREFIX_LENGTH CHOOSE_HIGHEST,
      getHighestLowestRouteFilterConfig CONTROLLER_COMMUNITY CHOOSE_HIGHEST,
      getHighestLowestRouteFilterConfig BGP_LOCAL_PREFERENCE CHOOSE_HIGHEST,
      getHighestLowestRouteFilterConfig BGP_AS_PATH_LEN CHOOSE_LOWEST,
      getHighestLowestRouteFilterConfig BGP_ORIGIN_CODE CHOOSE_LOWEST,
      getHighestLowestRouteFilterConfig BGP_MED_VALUE CHOOSE_LOWEST,
      getHighestLowestRouteFilterConfig EXTERNAL_ROUTE CHOOSE_HIGHEST]"

definition concatRouteFilterConfigs ::
  "RouteFilterConfig list \<Rightarrow> RouteFilterConfig list \<Rightarrow> RouteFilterConfig list" where
  "concatRouteFilterConfigs first second = first @ second"

definition kRouterFilterConfigsNoMultipath :: "RouteFilterConfig list" where
  "kRouterFilterConfigsNoMultipath = concatRouteFilterConfigs kRouterFilterConfigsBase
     [getHighestLowestRouteFilterConfig BGP_ROUTER_ID CHOOSE_LOWEST,
      getHighestLowestRouteFilterConfig BGP_PEER_IP CHOOSE_LOWEST]"

definition kRouterFilterConfigs :: "RouteFilterConfig list" where
  "kRouterFilterConfigs = concatRouteFilterConfigs kRouterFilterConfigsBase
     [getRecoverEquivalentRouteFilterConfig BGP_PEER_ASN
        [getHighestLowestRouteFilterConfig BGP_ROUTER_ID CHOOSE_LOWEST,
         getHighestLowestRouteFilterConfig BGP_PEER_IP CHOOSE_LOWEST]]"

definition kMetroFilterConfigs :: "RouteFilterConfig list" where
  "kMetroFilterConfigs =
     [getMembershipFilterConfig DELETED_ROUTE CHOOSE_MEMBER [0],
      getHighestLowestRouteFilterConfig PREFIX_LENGTH CHOOSE_HIGHEST,
      getHighestLowestRouteFilterConfig CONTROLLER_COMMUNITY_METRO CHOOSE_HIGHEST,
      getHighestLowestRouteFilterConfig BGP_LOCAL_PREFERENCE CHOOSE_HIGHEST,
      getHighestLowestRouteFilterConfig BGP_AS_PATH_LEN CHOOSE_LOWEST,
      getHighestLowestRouteFilterConfig BGP_ORIGIN_CODE CHOOSE_LOWEST,
      getHighestLowestRouteFilterConfig BGP_MED_VALUE CHOOSE_LOWEST]"

definition getBaseRouteFilterConfigsMultiPath :: "BgpBestpathFeatures \<Rightarrow> bool \<Rightarrow> RouteFilterConfig list" where
  "getBaseRouteFilterConfigsMultiPath ff countConfedsInAsPathLen =
     [getMembershipFilterConfig DELETED_ROUTE CHOOSE_MEMBER [0]] @
     (if enableWeightComparison ff then [getHighestLowestRouteFilterConfig BGP_WEIGHT_VALUE CHOOSE_HIGHEST] else []) @
     [getHighestLowestRouteFilterConfig BGP_LOCAL_PREFERENCE CHOOSE_HIGHEST,
      getHighestLowestRouteFilterConfig LOCAL_ROUTE CHOOSE_HIGHEST] @
     (if \<not> countConfedsInAsPathLen then [getHighestLowestRouteFilterConfig BGP_AS_PATH_LEN CHOOSE_LOWEST]
      else [getHighestLowestRouteFilterConfig BGP_AS_PATH_LEN_WITH_CONFED CHOOSE_LOWEST]) @
     [getHighestLowestRouteFilterConfig BGP_ORIGIN_CODE CHOOSE_LOWEST] @
     (if enableMedComparison ff then [getHighestLowestRouteFilterConfig BGP_MED_VALUE CHOOSE_LOWEST] else []) @
     (if \<not> enableEiBgpMultipath ff then [getHighestLowestRouteFilterConfig EXTERNAL_ROUTE CHOOSE_HIGHEST] else []) @
     (if enableNextHopTracking ff then [getHighestLowestRouteFilterConfig IGP_COST CHOOSE_LOWEST] else []) @
     [getHighestLowestRouteFilterConfig CONFED_EXTERNAL_ROUTE CHOOSE_HIGHEST]"

definition getRouteFilterConfigsBestPath :: "bool \<Rightarrow> RouteFilterConfig list" where
  "getRouteFilterConfigsBestPath countConfedsInAsPathLen =
     (if \<not> countConfedsInAsPathLen then [getHighestLowestRouteFilterConfig BGP_AS_PATH_LEN CHOOSE_HIGHEST]
      else [getHighestLowestRouteFilterConfig BGP_AS_PATH_LEN_WITH_CONFED CHOOSE_HIGHEST]) @
     [getHighestLowestRouteFilterConfig BGP_ROUTER_ID CHOOSE_LOWEST,
      getHighestLowestRouteFilterConfig BGP_CLUSTER_LIST_LEN CHOOSE_LOWEST,
      getHighestLowestRouteFilterConfig BGP_PEER_IP CHOOSE_LOWEST,
      getHighestLowestRouteFilterConfig BGP_PEER_NEXTHOP CHOOSE_LOWEST]"

text \<open>The constructor of the selector of the RIB.\<close>

definition mkRouteInfoSelector :: "BgpBestpathFeatures \<Rightarrow> RouteFilterConfig list \<Rightarrow> RouteFilter list option" where
  "mkRouteInfoSelector ff cfgs = those (map (ribFilterFromConfig ff) cfgs)"

end
