(* ===== verification/Route_Selection.thy ===== *)
theory Route_Selection
  imports Route_Filter
begin

text \<open>
  What the selectors of \<^theory_text>\<open>Route_Filter\<close> compute. A chain of highest/lowest filters selects the
  maximal routes of a lexicographic order, which is also the order of \<^verbatim>\<open>compareRoutes\<close>; for the
  filter lists of the RIB the order is written out as the decision process of the protocol.
\<close>

subsection \<open>Preference by one metric\<close>

fun worse_val :: "HighestLowestRouteFilterAction \<Rightarrow> u128 \<Rightarrow> u128 \<Rightarrow> bool" where
  "worse_val CHOOSE_HIGHEST w1 w2 \<longleftrightarrow> w1 < w2"
| "worse_val CHOOSE_LOWEST w1 w2 \<longleftrightarrow> w2 < w1"

lemma worse_val_irrefl [simp]: "\<not> worse_val a w w"
  by (cases a) simp_all

lemma worse_val_trans: "worse_val a u v \<Longrightarrow> worse_val a v w \<Longrightarrow> worse_val a u w"
  by (cases a) auto

lemma worse_val_total: "worse_val a u v \<or> u = v \<or> worse_val a v u"
  by (cases a) auto

lemma worse_val_asym: "worse_val a u v \<Longrightarrow> \<not> worse_val a v u"
  by (cases a) auto

lemma target_weight:
  assumes "ws \<noteq> []"
  shows "target_weight a ws \<in> set ws" "w \<in> set ws \<Longrightarrow> \<not> worse_val a (target_weight a ws) w"
proof -
  obtain x xs where ws: "ws = x # xs" using assms by (cases ws) auto
  have "max_element ws = Max (set ws)" "min_element ws = Min (set ws)"
    by (simp_all add: ws max_element_def min_element_def Max.set_eq_fold Min.set_eq_fold del: list.set)
  then show "target_weight a ws \<in> set ws" "w \<in> set ws \<Longrightarrow> \<not> worse_val a (target_weight a ws) w"
    using assms by (cases a; auto simp: not_less)+
qed

subsection \<open>Filters whose rules are defined\<close>

definition rule_total :: "rib_store \<Rightarrow> nat list \<Rightarrow> RouteFilter \<Rightarrow> bool" where
  "rule_total h routes f \<longleftrightarrow> (\<forall>r\<in>set routes. filter_rule f h r \<noteq> None)"

abbreviation val :: "rib_store \<Rightarrow> RouteFilter \<Rightarrow> nat \<Rightarrow> u128" where
  "val h f r \<equiv> the (filter_rule f h r)"

lemma rule_total_mono: "rule_total h routes f \<Longrightarrow> set routes' \<subseteq> set routes \<Longrightarrow> rule_total h routes' f"
  by (auto simp: rule_total_def)

lemma those_map_Some: "\<forall>x\<in>set xs. f x \<noteq> None \<Longrightarrow> those (map f xs) = Some (map (the \<circ> f) xs)"
  by (induction xs) auto

lemma filter_zip_map: "map fst (filter (\<lambda>(x, y). P y) (zip xs (map g xs))) = filter (\<lambda>x. P (g x)) xs"
  by (induction xs) auto

lemma filter_by_total:
  assumes "\<forall>r\<in>set routes. rl h r \<noteq> None"
  shows "filter_by cfg rl wanted h routes fm =
    (let ws = map (the \<circ> rl h) routes; rejected = filter (\<lambda>r. \<not> wanted ws (the (rl h r))) routes in
     Some ((filter (\<lambda>r. wanted ws (the (rl h r))) routes, rejected), fold (captureRejectedFilter cfg) rejected fm))"
  using assms by (simp add: filter_by_def getRouteWeights_def those_map_Some split_by_def Let_def filter_zip_map comp_def)

text \<open>The simple filters: which of the routes they accept, given all of them.\<close>

fun simple :: "RouteFilter \<Rightarrow> bool" where
  "simple (RecoverEquivalentRouteFilter cfg rl ts) = False"
| "simple _ = True"

fun keeps :: "rib_store \<Rightarrow> RouteFilter \<Rightarrow> nat list \<Rightarrow> nat \<Rightarrow> bool" where
  "keeps h (HighestLowestRouteFilter cfg rl a) routes r \<longleftrightarrow>
     (\<forall>r'\<in>set routes. \<not> worse_val a (the (rl h r)) (the (rl h r')))"
| "keeps h (RangedRouteFilter cfg rl lo hi) routes r \<longleftrightarrow> in_bounds lo hi (the (rl h r))"
| "keeps h (MembershipRouteFilter cfg rl a vals) routes r \<longleftrightarrow> member_wanted a vals (the (rl h r))"
| "keeps h (RecoverEquivalentRouteFilter cfg rl ts) routes r \<longleftrightarrow> False"

lemma keeps_highest_lowest:
  assumes "r \<in> set routes"
  shows "the (rl h r) = target_weight a (map (the \<circ> rl h) routes) \<longleftrightarrow>
    (\<forall>r'\<in>set routes. \<not> worse_val a (the (rl h r)) (the (rl h r')))"
proof -
  let ?ws = "map (the \<circ> rl h) routes" and ?w = "the (rl h r)"
  have ne: "?ws \<noteq> []" using assms by auto
  from target_weight(1) [OF ne] obtain b where b: "b \<in> set routes" "target_weight a ?ws = the (rl h b)"
    by force
  have t: "\<not> worse_val a (target_weight a ?ws) (the (rl h r'))" if "r' \<in> set routes" for r'
    using target_weight(2) [OF ne] that by force
  have "?w = target_weight a ?ws" if "\<forall>r'\<in>set routes. \<not> worse_val a ?w (the (rl h r'))"
    using that b t [OF assms] worse_val_total [of a ?w "target_weight a ?ws"] by auto
  then show ?thesis using t by auto
qed

lemma filterRoutes_simple:
  assumes "simple f" "rule_total h (fst prev) f"
  shows "filterRoutes h f prev fm =
    (let rejected = filter (\<lambda>r. \<not> keeps h f (fst prev) r) (fst prev) in
     Some ((filter (keeps h f (fst prev)) (fst prev), rejected), fold (captureRejectedFilter (filter_config f)) rejected fm))"
proof (cases f)
  case (HighestLowestRouteFilter cfg rl a)
  have "filter (\<lambda>r. the (rl h r) = target_weight a (map (the \<circ> rl h) (fst prev))) (fst prev) =
        filter (keeps h f (fst prev)) (fst prev)"
    "filter (\<lambda>r. the (rl h r) \<noteq> target_weight a (map (the \<circ> rl h) (fst prev))) (fst prev) =
        filter (\<lambda>r. \<not> keeps h f (fst prev) r) (fst prev)"
    by (rule filter_cong [OF refl], simp add: HighestLowestRouteFilter keeps_highest_lowest)+
  then show ?thesis
    using assms HighestLowestRouteFilter by (simp add: filter_by_total rule_total_def Let_def)
qed (use assms in \<open>simp_all add: filter_by_total rule_total_def Let_def cong: filter_cong\<close>)

subsection \<open>Chains of simple filters\<close>

definition chain_ok :: "rib_store \<Rightarrow> nat list \<Rightarrow> RouteFilter list \<Rightarrow> bool" where
  "chain_ok h routes fs \<longleftrightarrow> list_all (\<lambda>f. simple f \<and> rule_total h routes f) fs"

lemma chain_ok_mono: "chain_ok h routes fs \<Longrightarrow> set routes' \<subseteq> set routes \<Longrightarrow> chain_ok h routes' fs"
  by (auto simp: chain_ok_def list_all_iff intro: rule_total_mono)

lemma chain_ok_simps [simp]:
  "chain_ok h routes []"
  "chain_ok h routes (f # fs) \<longleftrightarrow> simple f \<and> rule_total h routes f \<and> chain_ok h routes fs"
  by (simp_all add: chain_ok_def)

text \<open>The accepted routes, and for each rejected one the configuration of the filter that rejects it.\<close>

fun survivors :: "rib_store \<Rightarrow> RouteFilter list \<Rightarrow> nat list \<Rightarrow> nat list" where
  "survivors h [] routes = routes"
| "survivors h (f # fs) routes = survivors h fs (filter (keeps h f routes) routes)"

fun rejected_by :: "rib_store \<Rightarrow> RouteFilter list \<Rightarrow> nat list \<Rightarrow> nat \<Rightarrow> RouteFilterConfig option" where
  "rejected_by h [] routes r = None"
| "rejected_by h (f # fs) routes r =
     (if keeps h f routes r then rejected_by h fs (filter (keeps h f routes) routes) r
      else Some (filter_config f))"

lemma survivors_append: "survivors h (fs @ gs) routes = survivors h gs (survivors h fs routes)"
  by (induction fs arbitrary: routes) simp_all

lemma survivors_filter: "\<exists>P. survivors h fs routes = filter P routes"
proof (induction fs arbitrary: routes)
  case (Cons f fs)
  from Cons [of "filter (keeps h f routes) routes"] show ?case by (auto simp: filter_filter)
qed (auto intro: exI [of _ "\<lambda>_. True"])

lemma survivors_subset: "set (survivors h fs routes) \<subseteq> set routes"
  using survivors_filter [of h fs routes] by auto

lemma distinct_survivors: "distinct routes \<Longrightarrow> distinct (survivors h fs routes)"
  using survivors_filter [of h fs routes] by auto

lemma fold_capture:
  "fold (captureRejectedFilter cfg) rs (Some m) =
     Some (\<lambda>r. if m r = None \<and> r \<in> set rs then Some cfg else m r)"
  by (induction rs arbitrary: m) (auto simp: captureRejectedFilter_def fun_eq_iff)

lemma fold_capture_None [simp]: "fold (captureRejectedFilter cfg) rs None = None"
  by (induction rs) (simp_all add: captureRejectedFilter_def)

lemma runFilters_accepted:
  "chain_ok h (fst prev) fs \<Longrightarrow>
     \<exists>rej fm'. runFilters h fs prev fm = Some ((survivors h fs (fst prev), rej), fm')"
proof (induction fs arbitrary: prev fm)
  case (Cons f fs)
  have "chain_ok h (filter (keeps h f (fst prev)) (fst prev)) fs"
    using Cons.prems by (auto intro: chain_ok_mono)
  then show ?case
    using Cons.prems
      Cons.IH [of "(filter (keeps h f (fst prev)) (fst prev), filter (\<lambda>r. \<not> keeps h f (fst prev) r) (fst prev))"]
    by (simp add: filterRoutes_simple Let_def)
qed (auto intro: prod_eqI)

lemma runFilters_map:
  assumes "chain_ok h (fst prev) fs" "\<forall>r\<in>set (fst prev). m r = None"
  shows "\<exists>rej m'. runFilters h fs prev (Some m) = Some ((survivors h fs (fst prev), rej), Some m') \<and>
    (\<forall>r\<in>set (fst prev). m' r = rejected_by h fs (fst prev) r) \<and> (\<forall>r. r \<notin> set (fst prev) \<longrightarrow> m' r = m r)"
  using assms
proof (induction fs arbitrary: prev m)
  case (Cons f fs)
  let ?acc = "filter (keeps h f (fst prev)) (fst prev)"
  let ?rej = "filter (\<lambda>r. \<not> keeps h f (fst prev) r) (fst prev)"
  let ?m = "\<lambda>r. if m r = None \<and> r \<in> set ?rej then Some (filter_config f) else m r"
  have 1: "filterRoutes h f prev (Some m) = Some ((?acc, ?rej), Some ?m)"
    using Cons.prems by (simp add: filterRoutes_simple Let_def fold_capture)
  have "chain_ok h ?acc fs" "\<forall>r\<in>set ?acc. ?m r = None"
    using Cons.prems by (auto intro: chain_ok_mono)
  from Cons.IH [of "(?acc, ?rej)" ?m] this obtain rej m' where
    2: "runFilters h fs (?acc, ?rej) (Some ?m) = Some ((survivors h fs ?acc, rej), Some m')"
       "\<forall>r\<in>set ?acc. m' r = rejected_by h fs ?acc r" "\<forall>r. r \<notin> set ?acc \<longrightarrow> m' r = ?m r"
    by auto
  have "m' r = rejected_by h (f # fs) (fst prev) r" if "r \<in> set (fst prev)" for r
    using that 2(2,3) Cons.prems(2) by auto
  moreover have "m' r = m r" if "r \<notin> set (fst prev)" for r
    using that 2(3) by auto
  ultimately show ?case using 1 2(1) by simp
qed (auto intro: prod_eqI)

lemma rejected_by_survivors:
  "r \<in> set routes \<Longrightarrow> rejected_by h fs routes r = None \<longleftrightarrow> r \<in> set (survivors h fs routes)"
proof (induction fs arbitrary: routes)
  case (Cons f fs)
  show ?case
  proof (cases "keeps h f routes r")
    case True
    then show ?thesis using Cons by simp
  next
    case False
    then show ?thesis using survivors_subset [of h fs "filter (keeps h f routes) routes"] by auto
  qed
qed simp

lemma applyFilters_simple:
  assumes "chain_ok h routes fs"
  shows "\<exists>fm'. applyFilters h fs routes fm =
    Some ((survivors h fs routes, filter (\<lambda>r. r \<notin> set (survivors h fs routes)) routes), fm')"
proof (cases "routes = []")
  case True
  have "survivors h fs [] = []" using survivors_subset [of h fs "[]"] by simp
  with True show ?thesis by (simp add: applyFilters_def)
next
  case False
  with runFilters_accepted [of h "(routes, [])" fs fm] assms show ?thesis
    by (auto simp: applyFilters_def)
qed

lemma applyFilters_map:
  assumes "chain_ok h routes fs"
  shows "\<exists>m. applyFilters h fs routes (Some Map.empty) =
    Some ((survivors h fs routes, filter (\<lambda>r. r \<notin> set (survivors h fs routes)) routes), Some m) \<and>
    (\<forall>r\<in>set routes. m r = rejected_by h fs routes r)"
proof (cases "routes = []")
  case True
  have "survivors h fs [] = []" using survivors_subset [of h fs "[]"] by simp
  with True show ?thesis by (simp add: applyFilters_def)
next
  case False
  with runFilters_map [of h "(routes, [])" fs Map.empty] assms show ?thesis
    by (auto simp: applyFilters_def)
qed

subsection \<open>Highest/lowest chains and the comparator\<close>

fun worse :: "rib_store \<Rightarrow> RouteFilter list \<Rightarrow> nat \<Rightarrow> nat \<Rightarrow> bool" where
  "worse h [] r r' \<longleftrightarrow> False"
| "worse h (HighestLowestRouteFilter cfg rl a # fs) r r' \<longleftrightarrow>
     worse_val a (the (rl h r)) (the (rl h r')) \<or> the (rl h r) = the (rl h r') \<and> worse h fs r r'"
| "worse h (_ # fs) r r' \<longleftrightarrow> worse h fs r r'"

lemma compareRoutes_worse:
  "list_all comparable fs \<Longrightarrow> list_all (rule_total h routes) fs \<Longrightarrow> r \<in> set routes \<Longrightarrow> r' \<in> set routes \<Longrightarrow>
     compareRoutes h fs r r' = Some (worse h fs r r')"
proof (induction fs)
  case (Cons f fs)
  then obtain cfg rl a where f: "f = HighestLowestRouteFilter cfg rl a" by (cases f) auto
  have "rl h r \<noteq> None" "rl h r' \<noteq> None"
    using Cons.prems f by (auto simp: rule_total_def)
  then obtain w w' where w: "rl h r = Some w" "rl h r' = Some w'" by auto
  have "(case a of CHOOSE_HIGHEST \<Rightarrow> u < v | CHOOSE_LOWEST \<Rightarrow> v < u) = worse_val a u v" for u v
    by (cases a) simp_all
  then show ?case
    using Cons f w worse_val_total [of a w w'] by (auto simp: worse_val_asym split: bool.splits)
qed simp

lemma worse_irrefl [simp]: "\<not> worse h fs r r"
  by (induction h fs r r rule: worse.induct) auto

lemma worse_trans: "worse h fs r r' \<Longrightarrow> worse h fs r' r'' \<Longrightarrow> worse h fs r r''"
  by (induction h fs r r' rule: worse.induct) (auto intro: worse_val_trans)

lemma worse_asym: "worse h fs r r' \<Longrightarrow> \<not> worse h fs r' r"
  using worse_trans worse_irrefl by blast

text \<open>Being equally good is transitive, so the order is a strict weak one.\<close>

lemma not_worse_trans: "\<not> worse h fs r r' \<Longrightarrow> \<not> worse h fs r' r'' \<Longrightarrow> \<not> worse h fs r r''"
proof (induction h fs r r' rule: worse.induct)
  case (2 h cfg rl a fs r r')
  then show ?case
    using worse_val_total [of a "the (rl h r)" "the (rl h r')"]
      worse_val_total [of a "the (rl h r')" "the (rl h r'')"]
    by (auto dest: worse_val_trans worse_val_asym)
qed auto

lemma survivors_maximal:
  "list_all comparable fs \<Longrightarrow>
     survivors h fs routes = filter (\<lambda>r. \<forall>r'\<in>set routes. \<not> worse h fs r r') routes"
proof (induction fs arbitrary: routes)
  case (Cons f fs)
  then obtain cfg rl a where f: "f = HighestLowestRouteFilter cfg rl a" by (cases f) auto
  let ?v = "\<lambda>r. the (rl h r)" and ?acc = "filter (keeps h f routes) routes"
  have kp: "keeps h f routes r \<longleftrightarrow> (\<forall>r'\<in>set routes. \<not> worse_val a (?v r) (?v r'))" for r
    by (simp add: f)
  have wf: "worse h (f # fs) r r' \<longleftrightarrow> worse_val a (?v r) (?v r') \<or> ?v r = ?v r' \<and> worse h fs r r'" for r r'
    by (simp add: f)
  have eq: "?v r = ?v r'" if "keeps h f routes r" "keeps h f routes r'" "r \<in> set routes" "r' \<in> set routes" for r r'
    using that unfolding kp by (meson worse_val_total)
  have main: "keeps h f routes r \<and> (\<forall>r'\<in>set ?acc. \<not> worse h fs r r') \<longleftrightarrow> (\<forall>r'\<in>set routes. \<not> worse h (f # fs) r r')"
    if r: "r \<in> set routes" for r
  proof (intro iffI conjI ballI)
    fix r' assume k: "keeps h f routes r \<and> (\<forall>r'\<in>set ?acc. \<not> worse h fs r r')" and m: "r' \<in> set routes"
    show "\<not> worse h (f # fs) r r'"
    proof (cases "?v r = ?v r'")
      case True
      with k m have "r' \<in> set ?acc" by (simp add: kp)
      with k show ?thesis by (simp add: wf True)
    next
      case False
      with k m show ?thesis by (simp add: wf kp)
    qed
  next
    assume "\<forall>r'\<in>set routes. \<not> worse h (f # fs) r r'"
    then show "keeps h f routes r" by (simp add: wf kp)
  next
    fix r' assume n: "\<forall>r'\<in>set routes. \<not> worse h (f # fs) r r'" and m: "r' \<in> set ?acc"
    then have "keeps h f routes r" by (simp add: wf kp)
    moreover have "keeps h f routes r'" "r' \<in> set routes" using m by simp_all
    ultimately have "?v r = ?v r'" using r by (intro eq)
    moreover have "\<not> worse h (f # fs) r r'" using n m by auto
    ultimately show "\<not> worse h fs r r'" unfolding wf by blast
  qed
  have "survivors h (f # fs) routes = filter (\<lambda>r. keeps h f routes r \<and> (\<forall>r'\<in>set ?acc. \<not> worse h fs r r')) routes"
    using Cons.IH [of ?acc] Cons.prems by (simp only: survivors.simps list.pred_inject filter_filter)
  also have "\<dots> = filter (\<lambda>r. \<forall>r'\<in>set routes. \<not> worse h (f # fs) r r') routes"
    by (rule filter_cong [OF refl]) (rule main)
  finally show ?case .
qed simp

lemma survivors_nonempty: "list_all comparable fs \<Longrightarrow> routes \<noteq> [] \<Longrightarrow> survivors h fs routes \<noteq> []"
proof (induction fs arbitrary: routes)
  case (Cons f fs)
  then obtain cfg rl a where f: "f = HighestLowestRouteFilter cfg rl a" by (cases f) auto
  have "map (the \<circ> rl h) routes \<noteq> []" using Cons.prems by simp
  from target_weight(1) [OF this, of a] obtain b where "b \<in> set routes"
    "the (rl h b) = target_weight a (map (the \<circ> rl h) routes)" by force
  then have "b \<in> set (filter (keeps h f routes) routes)"
    by (simp add: f keeps_highest_lowest)
  then have "filter (keeps h f routes) routes \<noteq> []" by (metis list.set(1) empty_iff)
  then show ?case using Cons by simp
qed simp

subsection \<open>The decision process\<close>

text \<open>
  The specification: a list of numbers per route, smaller is better, compared lexicographically. The
  highest values are negated.
\<close>

fun lex_less :: "int list \<Rightarrow> int list \<Rightarrow> bool" where
  "lex_less (x # xs) (y # ys) \<longleftrightarrow> x < y \<or> x = y \<and> lex_less xs ys"
| "lex_less _ _ \<longleftrightarrow> False"

definition lower :: "bool \<Rightarrow> int \<Rightarrow> int list" where
  "lower enabled x = (if enabled then [x] else [])"

definition decision_key :: "BgpBestpathFeatures \<Rightarrow> bool \<Rightarrow> rib_store \<Rightarrow> nat \<Rightarrow> int list" where
  "decision_key ff countConfeds h a =
     (let r = route_at h a; p = route_path r in
      lower (enableWeightComparison ff) (- uint (bp_weight p)) @
      [- uint (the (bp_localPref p)), - of_bool (getIsRouteLocal r),
       int (if countConfeds then getBgpAsPathLenWithConfed p else getBgpAsPathLen p),
       origin_code (bp_origin p)] @
      lower (enableMedComparison ff) (uint (getMed (enableMedMissingAsWorst ff) p)) @
      lower (\<not> enableEiBgpMultipath ff) (- of_bool (getIsRouteExternal r)) @
      lower (enableNextHopTracking ff) (uint (getIgpCostValue h r)) @
      [- of_bool (getIsRouteConfedExternal r)])"

definition tiebreak_key :: "bool \<Rightarrow> rib_store \<Rightarrow> nat \<Rightarrow> int list" where
  "tiebreak_key countConfeds h a =
     (let r = route_at h a; p = route_path r in
      [- int (if countConfeds then getBgpAsPathLenWithConfed p else getBgpAsPathLen p),
       uint (getBgpRouterId r), int (length (bp_clusterList p)),
       uint (the (transformIP2Int (t_addr (r_peer r)))), uint (the (transformIP2Int (bp_nexthop p)))])"

text \<open>The key of a route under a chain, and that the chain compares by it.\<close>

fun filter_key :: "rib_store \<Rightarrow> nat \<Rightarrow> RouteFilter \<Rightarrow> int" where
  "filter_key h r (HighestLowestRouteFilter cfg rl CHOOSE_HIGHEST) = - uint (the (rl h r))"
| "filter_key h r f = uint (the (filter_rule f h r))"

lemma worse_key:
  "list_all comparable fs \<Longrightarrow>
     worse h fs r r' \<longleftrightarrow> lex_less (map (filter_key h r') fs) (map (filter_key h r) fs)"
proof (induction fs)
  case (Cons f fs)
  then obtain cfg rl a where "f = HighestLowestRouteFilter cfg rl a" by (cases f) auto
  then show ?case
    using Cons by (cases a) (auto simp: word_less_def word_uint_eq_iff)
qed simp

text \<open>What the decision process needs to be defined: the numbers fit the integers of the code.\<close>

definition route_ok :: "rib_store \<Rightarrow> nat \<Rightarrow> bool" where
  "route_ok h a \<longleftrightarrow>
     (let p = route_path (route_at h a) in
      bp_localPref p \<noteq> None \<and> int (getBgpAsPathLen p) < 2 ^ 31 \<and>
      int (getBgpAsPathLenWithConfed p) < 2 ^ 31 \<and> int (length (bp_clusterList p)) < 2 ^ 63)"

lemma uint_of_nat_small: "n < 2 ^ 63 \<Longrightarrow> uint (of_nat n :: u128) = int n"
  by (simp add: unsigned_of_nat take_bit_nat_eq_self)

lemma small_lengths:
  assumes "route_ok h a"
  shows "uint (of_nat (getBgpAsPathLen (route_path (route_at h a))) :: u128) = int (getBgpAsPathLen (route_path (route_at h a)))"
    "uint (of_nat (getBgpAsPathLenWithConfed (route_path (route_at h a))) :: u128) =
       int (getBgpAsPathLenWithConfed (route_path (route_at h a)))"
    "uint (of_nat (length (bp_clusterList (route_path (route_at h a)))) :: u128) =
       int (length (bp_clusterList (route_path (route_at h a))))"
  using assms by (intro uint_of_nat_small; simp add: route_ok_def Let_def)+

lemma uint_origin [simp]: "uint (word_of_int (origin_code x) :: u128) = origin_code x"
  by (cases x) simp_all

lemma uint_ucast_up [simp]:
  "uint (ucast (x :: u32) :: u128) = uint x" "uint (ucast (y :: u16) :: u128) = uint y"
  "uint (ucast (z :: u64) :: u128) = uint z"
  by (simp_all add: uint_up_ucast is_up)

lemma uint_flag_value [simp]: "uint (flag_value b) = of_bool b"
  by simp

lemmas selector_simps =
  mkRouteInfoSelector_def ribFilterFromConfig_def getHighestLowestRouteFilterConfig_def
  getMembershipFilterConfig_def metric_rule_def

definition live :: "rib_store \<Rightarrow> nat \<Rightarrow> bool" where
  "live h a \<longleftrightarrow> \<not> getIsRouteDeleted (route_at h a)"

definition live_filter :: RouteFilter where
  "live_filter = MembershipRouteFilter (getMembershipFilterConfig DELETED_ROUTE CHOOSE_MEMBER [0])
     (\<lambda>h a. Some (flag_value (getIsRouteDeleted (route_at h a)))) CHOOSE_MEMBER [0]"

lemma keeps_live_filter [simp]: "keeps h live_filter routes a \<longleftrightarrow> live h a"
  by (simp add: live_filter_def live_def)

lemma live_filter_ok [simp]: "simple live_filter" "rule_total h routes live_filter"
  by (simp_all add: live_filter_def rule_total_def)

lemma multipath_selector:
  "\<exists>hls. mkRouteInfoSelector ff (getBaseRouteFilterConfigsMultiPath ff cc) = Some (live_filter # hls) \<and>
     list_all comparable hls \<and>
     (\<forall>h r. route_ok h r \<longrightarrow> list_all (rule_total h [r]) hls \<and> map (filter_key h r) hls = decision_key ff cc h r)"
  by (cases "enableWeightComparison ff"; cases "enableMedComparison ff"; cases "enableEiBgpMultipath ff";
      cases "enableNextHopTracking ff"; cases cc)
     (auto simp: getBaseRouteFilterConfigsMultiPath_def selector_simps live_filter_def rule_total_def
        decision_key_def Let_def lower_def small_lengths route_ok_def)

lemma bestpath_selector:
  "\<exists>hls. mkRouteInfoSelector ff (getRouteFilterConfigsBestPath cc) = Some hls \<and> list_all comparable hls \<and>
     (\<forall>h r. route_ok h r \<and> t_addr (r_peer (route_at h r)) \<noteq> IPEmpty \<and> bp_nexthop (route_path (route_at h r)) \<noteq> IPEmpty \<longrightarrow>
        list_all (rule_total h [r]) hls \<and> map (filter_key h r) hls = tiebreak_key cc h r)"
  by (cases cc)
     (auto simp: getRouteFilterConfigsBestPath_def selector_simps rule_total_def
        tiebreak_key_def Let_def small_lengths transformIP2Int_def)

lemma rule_total_all: "(\<forall>r\<in>set routes. list_all (rule_total h [r]) fs) \<Longrightarrow> list_all (rule_total h routes) fs"
  by (auto simp: list_all_iff rule_total_def)

lemma comparable_simple: "comparable f \<Longrightarrow> simple f"
  by (cases f) simp_all

lemma chain_ok_comparable:
  "list_all comparable fs \<Longrightarrow> list_all (rule_total h routes) fs \<Longrightarrow> chain_ok h routes fs"
  by (auto simp: chain_ok_def list_all_iff comparable_simple)

lemma survivors_key:
  assumes "list_all comparable fs" "\<forall>r\<in>set routes. map (filter_key h r) fs = key r"
  shows "survivors h fs routes = filter (\<lambda>a. \<forall>b\<in>set routes. \<not> lex_less (key b) (key a)) routes"
  unfolding survivors_maximal [OF assms(1)] worse_key [OF assms(1)]
  using assms(2) by (auto intro!: filter_cong)

definition best_routes :: "(nat \<Rightarrow> int list) \<Rightarrow> nat list \<Rightarrow> nat list" where
  "best_routes key routes = filter (\<lambda>a. \<forall>b\<in>set routes. \<not> lex_less (key b) (key a)) routes"

lemma multipath_survivors:
  assumes "\<forall>a\<in>set routes. route_ok h a"
  shows "\<exists>fs. mkRouteInfoSelector ff (getBaseRouteFilterConfigsMultiPath ff cc) = Some fs \<and> chain_ok h routes fs \<and>
     survivors h fs routes = best_routes (decision_key ff cc h) (filter (live h) routes) \<and>
     (filter (live h) routes \<noteq> [] \<longrightarrow> survivors h fs routes \<noteq> [])"
proof -
  obtain hls where hls: "mkRouteInfoSelector ff (getBaseRouteFilterConfigsMultiPath ff cc) = Some (live_filter # hls)"
    "list_all comparable hls"
    "\<And>r. route_ok h r \<Longrightarrow> list_all (rule_total h [r]) hls \<and> map (filter_key h r) hls = decision_key ff cc h r"
    using multipath_selector [of ff cc] by blast
  have "list_all (rule_total h routes) hls" using assms hls(3) by (intro rule_total_all) blast
  with hls(2) have "chain_ok h routes hls" by (rule chain_ok_comparable)
  moreover have "keeps h live_filter routes = live h" by (simp add: fun_eq_iff)
  moreover have "survivors h hls (filter (live h) routes) = best_routes (decision_key ff cc h) (filter (live h) routes)"
    unfolding best_routes_def using assms hls(3) by (intro survivors_key [OF hls(2)]) simp
  ultimately show ?thesis
    using hls(1,2) survivors_nonempty [OF hls(2), of "filter (live h) routes" h] by auto
qed

definition address_ok :: "rib_store \<Rightarrow> nat \<Rightarrow> bool" where
  "address_ok h a \<longleftrightarrow>
     t_addr (r_peer (route_at h a)) \<noteq> IPEmpty \<and> bp_nexthop (route_path (route_at h a)) \<noteq> IPEmpty"

lemma bestpath_survivors:
  assumes "\<forall>a\<in>set routes. route_ok h a \<and> address_ok h a"
  shows "\<exists>fs. mkRouteInfoSelector ff (getRouteFilterConfigsBestPath cc) = Some fs \<and> chain_ok h routes fs \<and>
     survivors h fs routes = best_routes (tiebreak_key cc h) routes \<and>
     (routes \<noteq> [] \<longrightarrow> survivors h fs routes \<noteq> [])"
proof -
  obtain hls where hls: "mkRouteInfoSelector ff (getRouteFilterConfigsBestPath cc) = Some hls"
    "list_all comparable hls"
    "\<And>r. route_ok h r \<and> address_ok h r \<Longrightarrow>
       list_all (rule_total h [r]) hls \<and> map (filter_key h r) hls = tiebreak_key cc h r"
    using bestpath_selector [of ff cc] unfolding address_ok_def by blast
  have "list_all (rule_total h routes) hls" using assms hls(3) by (intro rule_total_all) blast
  with hls(2) have "chain_ok h routes hls" by (rule chain_ok_comparable)
  moreover have "survivors h hls routes = best_routes (tiebreak_key cc h) routes"
    unfolding best_routes_def using assms hls(3) by (intro survivors_key [OF hls(2)]) simp
  ultimately show ?thesis
    using hls(1,2) survivors_nonempty [OF hls(2), of routes h] by auto
qed

lemma selectRoutes_survivors: "chain_ok h routes fs \<Longrightarrow> selectRoutes fs h routes = Some (survivors h fs routes)"
  using applyFilters_simple [of h routes fs None] by (auto simp: selectRoutes_def)

text \<open>
  C8. A chain of highest/lowest filters selects, in their order, exactly the routes that
  \<^verbatim>\<open>compareRoutes\<close> puts below no other route: filtering one metric at a time and comparing pairs
  of routes agree. It selects something whenever there is a route, and the comparator is a strict weak
  order.
\<close>

theorem selection_is_maximal:
  assumes c: "list_all comparable fs" and t: "list_all (rule_total h routes) fs"
  shows "selectRoutes fs h routes =
      Some (filter (\<lambda>r. \<forall>r'\<in>set routes. compareRoutes h fs r r' \<noteq> Some True) routes) \<and>
    (routes \<noteq> [] \<longrightarrow> selectRoutes fs h routes \<noteq> Some []) \<and>
    (\<forall>x\<in>set routes. \<forall>y\<in>set routes. \<forall>z\<in>set routes.
      (compareRoutes h fs x y = Some True \<longrightarrow> compareRoutes h fs y x = Some False) \<and>
      (compareRoutes h fs x y = Some True \<and> compareRoutes h fs y z = Some True \<longrightarrow> compareRoutes h fs x z = Some True) \<and>
      (compareRoutes h fs x y = Some False \<and> compareRoutes h fs y z = Some False \<longrightarrow> compareRoutes h fs x z = Some False))"
proof (intro conjI)
  note cmp = compareRoutes_worse [OF c t]
  have s: "selectRoutes fs h routes = Some (survivors h fs routes)"
    by (rule selectRoutes_survivors [OF chain_ok_comparable [OF c t]])
  moreover have "survivors h fs routes = filter (\<lambda>r. \<forall>r'\<in>set routes. compareRoutes h fs r r' \<noteq> Some True) routes"
    unfolding survivors_maximal [OF c] by (rule filter_cong [OF refl]) (simp add: cmp)
  ultimately show "selectRoutes fs h routes =
      Some (filter (\<lambda>r. \<forall>r'\<in>set routes. compareRoutes h fs r r' \<noteq> Some True) routes)" by simp
  show "routes \<noteq> [] \<longrightarrow> selectRoutes fs h routes \<noteq> Some []"
    using s survivors_nonempty [OF c, of routes h] by simp
  show "\<forall>x\<in>set routes. \<forall>y\<in>set routes. \<forall>z\<in>set routes.
      (compareRoutes h fs x y = Some True \<longrightarrow> compareRoutes h fs y x = Some False) \<and>
      (compareRoutes h fs x y = Some True \<and> compareRoutes h fs y z = Some True \<longrightarrow> compareRoutes h fs x z = Some True) \<and>
      (compareRoutes h fs x y = Some False \<and> compareRoutes h fs y z = Some False \<longrightarrow> compareRoutes h fs x z = Some False)"
    by (intro ballI) (auto simp: cmp dest: worse_asym worse_trans not_worse_trans)
qed

text \<open>
  C2. The multipath selector of the RIB implements the decision process: it never fails, and of the
  routes that are not deleted it selects all whose key is lexicographically least, where the key is
  weight, local preference, local origin, AS path length, origin, MED, external, IGP cost and
  confederation external, each where it is enabled. It selects at least one if there is one.
\<close>

theorem multipath_decision:
  assumes "\<forall>a\<in>set routes. route_ok h a"
  shows "\<exists>fs sel. mkRouteInfoSelector ff (getBaseRouteFilterConfigsMultiPath ff cc) = Some fs \<and>
     selectRoutes fs h routes = Some sel \<and>
     sel = best_routes (decision_key ff cc h) (filter (live h) routes) \<and>
     (sel = [] \<longrightarrow> filter (live h) routes = [])"
  using multipath_survivors [OF assms, of ff cc] selectRoutes_survivors by blast

text \<open>
  C12. The best path selector breaks the ties that are left: it selects the routes with the least
  tie-break key, which is the longest AS path, then router id, cluster list length, peer address and
  next hop; it selects at least one of them, and all routes it selects agree on every part of the key.
\<close>

theorem bestpath_decision:
  assumes "\<forall>a\<in>set routes. route_ok h a \<and> address_ok h a" "routes \<noteq> []"
  shows "\<exists>fs sel. mkRouteInfoSelector ff (getRouteFilterConfigsBestPath cc) = Some fs \<and>
     selectRoutes fs h routes = Some sel \<and> sel \<noteq> [] \<and>
     sel = best_routes (tiebreak_key cc h) routes \<and>
     (\<forall>a\<in>set sel. \<forall>b\<in>set sel. tiebreak_key cc h a = tiebreak_key cc h b)"
proof -
  have total: "lex_less (tiebreak_key cc h a) (tiebreak_key cc h b) \<or> tiebreak_key cc h a = tiebreak_key cc h b \<or>
      lex_less (tiebreak_key cc h b) (tiebreak_key cc h a)" for a b
    by (auto simp: tiebreak_key_def Let_def)
  have "\<forall>a\<in>set (best_routes (tiebreak_key cc h) routes). \<forall>b\<in>set (best_routes (tiebreak_key cc h) routes).
      tiebreak_key cc h a = tiebreak_key cc h b"
    using total unfolding best_routes_def by fastforce
  with bestpath_survivors [OF assms(1), of ff cc] assms(2) show ?thesis
    using selectRoutes_survivors by metis
qed

subsubsection \<open>A sample RIB\<close>

definition sample_route :: "u32 \<Rightarrow> u32 list \<Rightarrow> u32 \<Rightarrow> u32 \<Rightarrow> u32 \<Rightarrow> RouteInfo" where
  "sample_route lp asns nh peer recvId =
     the (mkRouteInfo (IPv4 0x0A000000, 8)
       \<lparr>t_addr = IPv4 peer, t_asn = 65000, t_routerId = peer, t_sessionType = EBGP, t_isRrClient = False,
        t_isRedistributePeer = False, t_ucmpWeight = None, t_description = ''peer''\<rparr>
       \<lparr>path_ptr = 0, path_published = True, path_of = (bgpAttributesToBgpPathC default_attrs)
          \<lparr>bp_localPref := Some lp, bp_asPath := [fromAsSeq asns], bp_nexthop := IPv4 nh\<rparr>\<rparr>
       recvId None True)"

definition sample_rib :: rib_store where
  "sample_rib = \<lparr>route_at = (\<lambda>a. if a = 0 then sample_route 100 [65001] 1 1 0
       else if a = 1 then sample_route 200 [65001, 65002] 2 2 0
       else if a = 2 then sample_route 200 [65001, 65003] 3 3 0
       else sample_route 200 [65001, 65003] 3 3 1),
     next_route = 4, nexthopInfoMap = [], next_map = 0\<rparr>"

definition sample_features :: BgpBestpathFeatures where
  "sample_features = \<lparr>enableMedComparison = False, enableMedMissingAsWorst = False,
     enableWeightComparison = False, enableNextHopTracking = False, enableEiBgpMultipath = False\<rparr>"

lemma sample_routes_ok: "\<forall>a\<in>set [0, 1, 2, 3]. route_ok sample_rib a \<and> address_ok sample_rib a"
  by code_simp

lemma sample_live: "\<forall>a\<in>set [0, 1, 2]. live sample_rib a"
  by code_simp

lemma sample_decision: "best_routes (decision_key sample_features False sample_rib) [0, 1, 2] = [1, 2]"
  by code_simp

lemma sample_tiebreak: "best_routes (tiebreak_key False sample_rib) [1, 2] = [1]"
  by code_simp

theorem multipath_decision_witness:
  "\<exists>fs. mkRouteInfoSelector sample_features (getBaseRouteFilterConfigsMultiPath sample_features False) = Some fs \<and>
     selectRoutes fs sample_rib [0, 1, 2] = Some [1, 2]"
proof -
  have "\<forall>a\<in>set [0, 1, 2]. route_ok sample_rib a" using sample_routes_ok by auto
  moreover have "filter (live sample_rib) [0, 1, 2] = [0, 1, 2]" using sample_live by simp
  ultimately show ?thesis
    using multipath_decision [of "[0, 1, 2]" sample_rib sample_features False] by (metis sample_decision)
qed

theorem bestpath_decision_witness:
  "\<exists>fs. mkRouteInfoSelector sample_features (getRouteFilterConfigsBestPath False) = Some fs \<and>
     selectRoutes fs sample_rib [1, 2] = Some [1]"
proof -
  have "\<forall>a\<in>set [1, 2]. route_ok sample_rib a \<and> address_ok sample_rib a" using sample_routes_ok by auto
  then show ?thesis
    using bestpath_decision [of "[1, 2]" sample_rib sample_features False] by (simp only: sample_tiebreak) blast
qed

definition sample_chain :: "RouteFilter list" where
  "sample_chain = the (mkRouteInfoSelector sample_features (getRouteFilterConfigsBestPath False))"

theorem selection_is_maximal_witness:
  "selectRoutes sample_chain sample_rib [1, 2] =
     Some (filter (\<lambda>r. \<forall>r'\<in>set [1, 2]. compareRoutes sample_rib sample_chain r r' \<noteq> Some True) [1, 2])"
proof -
  obtain hls where "mkRouteInfoSelector sample_features (getRouteFilterConfigsBestPath False) = Some hls"
    "list_all comparable hls" "\<forall>r\<in>set [1, 2]. list_all (rule_total sample_rib [r]) hls"
    using bestpath_selector [of sample_features False] sample_routes_ok unfolding address_ok_def by auto
  then have "list_all comparable sample_chain" "list_all (rule_total sample_rib [1, 2]) sample_chain"
    by (simp_all add: sample_chain_def rule_total_all del: list.set)
  from selection_is_maximal [OF this] show ?thesis by blast
qed

text \<open>
  C28. The tie break is not complete: two paths of one peer that differ only in the received path id
  are both selected as best path, so the one that is used is the first in the iteration order of a hash
  map.
\<close>

theorem bestpath_tie:
  assumes "route_ok h a" "address_ok h a" "route_at h b = (route_at h a)\<lparr>receivedPathId := i, pathIdToSend := s\<rparr>"
  shows "\<exists>fs. mkRouteInfoSelector ff (getRouteFilterConfigsBestPath cc) = Some fs \<and>
     selectRoutes fs h [a, b] = Some [a, b] \<and> selectRoutes fs h [b, a] = Some [b, a]"
proof -
  have eq: "tiebreak_key cc h b = tiebreak_key cc h a"
    using assms(3) by (simp add: tiebreak_key_def getBgpRouterId_def Let_def)
  have irr: "\<not> lex_less k k" for k by (induction k) simp_all
  have "route_ok h b \<and> address_ok h b"
    using assms by (simp add: route_ok_def address_ok_def)
  with assms have ok: "\<forall>x\<in>set [a, b]. route_ok h x \<and> address_ok h x" "\<forall>x\<in>set [b, a]. route_ok h x \<and> address_ok h x"
    by simp_all
  obtain fs where "mkRouteInfoSelector ff (getRouteFilterConfigsBestPath cc) = Some fs" "chain_ok h [a, b] fs"
    "survivors h fs [a, b] = best_routes (tiebreak_key cc h) [a, b]"
    using bestpath_survivors [OF ok(1), of ff cc] by blast
  moreover have "chain_ok h [b, a] fs" "survivors h fs [b, a] = best_routes (tiebreak_key cc h) [b, a]"
    using bestpath_survivors [OF ok(2), of ff cc] calculation(1) by auto
  ultimately show ?thesis
    using selectRoutes_survivors by (auto simp: best_routes_def eq irr)
qed

theorem bestpath_tie_witness:
  "\<exists>fs. mkRouteInfoSelector sample_features (getRouteFilterConfigsBestPath False) = Some fs \<and>
     selectRoutes fs sample_rib [2, 3] = Some [2, 3] \<and> selectRoutes fs sample_rib [3, 2] = Some [3, 2]"
proof -
  have "route_at sample_rib 3 = (route_at sample_rib 2)\<lparr>receivedPathId := 1, pathIdToSend := None\<rparr>"
    by (simp add: sample_rib_def sample_route_def mkRouteInfo_def Let_def bgpAttributesToBgpPathC_def default_attrs_def
        setRouteExternal_def set_flag_def kLocalRoutePeerAddr_def getNonTransitiveLbwValue_def
        getNonTransitiveLbwExtCommunity_def)
  with bestpath_tie [of sample_rib 2 3] sample_routes_ok show ?thesis by simp
qed

subsection \<open>The recorded reason of a rejection\<close>

lemma fold_upd_route:
  assumes "\<And>r. f (f r) = f r"
  shows "route_at (fold (upd_route f) routes h) a = (if a \<in> set routes then f (route_at h a) else route_at h a)"
  by (induction routes arbitrary: h) (auto simp: upd_route_def assms)

lemma fold_upd_route_other [simp]:
  "nexthopInfoMap (fold (upd_route f) routes h) = nexthopInfoMap h"
  "next_route (fold (upd_route f) routes h) = next_route h" "next_map (fold (upd_route f) routes h) = next_map h"
  by (induction routes arbitrary: h) (simp_all add: upd_route_def)

definition clear_criteria :: "nat list \<Rightarrow> rib_store \<Rightarrow> rib_store" where
  "clear_criteria routes h = fold (upd_route (\<lambda>r. r\<lparr>bestPathFilterConfig := None\<rparr>)) routes h"

lemma clear_criteria_simps [simp]:
  "route_at (clear_criteria routes h) a =
     (if a \<in> set routes then (route_at h a)\<lparr>bestPathFilterConfig := None\<rparr> else route_at h a)"
  "nexthopInfoMap (clear_criteria routes h) = nexthopInfoMap h" "next_route (clear_criteria routes h) = next_route h"
  "next_map (clear_criteria routes h) = next_map h"
  by (simp_all add: clear_criteria_def fold_upd_route)

definition set_criteria :: "(nat \<rightharpoonup> RouteFilterConfig) \<Rightarrow> nat list \<Rightarrow> rib_store \<Rightarrow> rib_store" where
  "set_criteria m routes h = fold (\<lambda>a h. case m a of None \<Rightarrow> h
     | Some cfg \<Rightarrow> upd_route (\<lambda>r. r\<lparr>bestPathFilterConfig := Some cfg\<rparr>) a h) routes h"

lemma set_criteria_simps [simp]:
  "route_at (set_criteria m routes h) a =
     (if a \<in> set routes \<and> m a \<noteq> None then (route_at h a)\<lparr>bestPathFilterConfig := m a\<rparr> else route_at h a)"
  "nexthopInfoMap (set_criteria m routes h) = nexthopInfoMap h" "next_route (set_criteria m routes h) = next_route h"
  "next_map (set_criteria m routes h) = next_map h"
  unfolding set_criteria_def by (induction routes arbitrary: h) (auto simp: upd_route_def split: option.splits)

lemma selectRoutesAndSet_simple:
  assumes "chain_ok (clear_criteria routes h) routes fs"
  shows "\<exists>h'. selectRoutesAndSetRejectionFilter fs routes h = Some (survivors (clear_criteria routes h) fs routes, h') \<and>
    nexthopInfoMap h' = nexthopInfoMap h \<and> next_route h' = next_route h \<and> next_map h' = next_map h \<and>
    (\<forall>a. route_at h' a = (if a \<in> set routes
       then (route_at h a)\<lparr>bestPathFilterConfig := rejected_by (clear_criteria routes h) fs routes a\<rparr> else route_at h a))"
proof -
  let ?h = "clear_criteria routes h"
  from applyFilters_map [OF assms] obtain m where m: "applyFilters ?h fs routes (Some Map.empty) =
      Some ((survivors ?h fs routes, filter (\<lambda>r. r \<notin> set (survivors ?h fs routes)) routes), Some m)"
    "\<forall>r\<in>set routes. m r = rejected_by ?h fs routes r" by blast
  then have "selectRoutesAndSetRejectionFilter fs routes h = Some (survivors ?h fs routes, set_criteria m routes ?h)"
    by (simp add: selectRoutesAndSetRejectionFilter_def clear_criteria_def [symmetric] set_criteria_def [symmetric] Let_def)
  moreover have "route_at (set_criteria m routes ?h) a = (if a \<in> set routes
      then (route_at h a)\<lparr>bestPathFilterConfig := rejected_by ?h fs routes a\<rparr> else route_at h a)" for a
    using m(2) by (cases "rejected_by ?h fs routes a") auto
  ultimately show ?thesis by auto
qed

lemma rejected_by_first:
  assumes "rejected_by h fs routes a = Some cfg" "a \<in> set routes"
  shows "\<exists>fs1 f fs2. fs = fs1 @ f # fs2 \<and> cfg = filter_config f \<and> a \<in> set (survivors h fs1 routes) \<and>
    a \<notin> set (survivors h (fs1 @ [f]) routes)"
  using assms
proof (induction fs arbitrary: routes)
  case (Cons f fs)
  show ?case
  proof (cases "keeps h f routes a")
    case True
    with Cons.IH [of "filter (keeps h f routes) routes"] Cons.prems obtain fs1 g fs2 where
      "fs = fs1 @ g # fs2 \<and> cfg = filter_config g \<and> a \<in> set (survivors h (f # fs1) routes) \<and>
       a \<notin> set (survivors h ((f # fs1) @ [g]) routes)" by auto
    then have "f # fs = (f # fs1) @ g # fs2 \<and> cfg = filter_config g \<and> a \<in> set (survivors h (f # fs1) routes) \<and>
       a \<notin> set (survivors h ((f # fs1) @ [g]) routes)" by simp
    then show ?thesis by blast
  next
    case False
    then have "f # fs = [] @ f # fs \<and> cfg = filter_config f \<and> a \<in> set (survivors h [] routes) \<and>
      a \<notin> set (survivors h ([] @ [f]) routes)" using Cons.prems by auto
    then show ?thesis by blast
  qed
qed simp



subsection \<open>Recovery of equivalent routes\<close>

lemma recover_loop_correct:
  assumes "recover_loop v routes rejected = (first, second)"
  shows "set first = set routes \<union> {x \<in> set rejected. \<exists>r\<in>set routes. v x = v r} \<and>
    second = filter (\<lambda>x. \<forall>r\<in>set routes. v x \<noteq> v r) rejected \<and>
    (distinct (routes @ rejected) \<longrightarrow> distinct first)"
  using assms
proof (induction routes arbitrary: rejected first second)
  case (Cons r routes)
  obtain first' where f: "recover_loop v routes (filter (\<lambda>x. v x \<noteq> v r) rejected) = (first', second)"
    "first = r # filter (\<lambda>x. v x = v r) rejected @ first'"
    using Cons.prems by (auto split: prod.splits)
  from Cons.IH [OF f(1)] show ?case
    unfolding f(2) by (auto simp: filter_filter intro!: filter_cong)
qed simp

lemma tiebreak_simple:
  assumes "chain_ok h (fst prev) ts"
  shows "\<exists>last rejs fm'. tiebreak h ts prev rejected fm = Some (((survivors h ts (fst prev), last), rejs), fm') \<and>
    set rejs = set rejected \<union> (set (fst prev) - set (survivors h ts (fst prev))) \<and>
    (distinct (fst prev @ rejected) \<longrightarrow> distinct (survivors h ts (fst prev) @ rejs))"
  using assms
proof (induction ts arbitrary: prev rejected fm)
  case Nil
  then show ?case by (cases prev) auto
next
  case (Cons t ts)
  let ?acc = "filter (keeps h t (fst prev)) (fst prev)" and ?rej = "filter (\<lambda>r. \<not> keeps h t (fst prev) r) (fst prev)"
  let ?fm = "fold (captureRejectedFilter (filter_config t)) ?rej fm"
  have ck: "chain_ok h ?acc ts" using Cons.prems by (auto intro: chain_ok_mono)
  have "\<exists>last rejs fm'. tiebreak h ts (?acc, ?rej) (?rej @ rejected) ?fm = Some (((survivors h ts ?acc, last), rejs), fm') \<and>
    set rejs = set (?rej @ rejected) \<union> (set ?acc - set (survivors h ts ?acc)) \<and>
    (distinct (?acc @ ?rej @ rejected) \<longrightarrow> distinct (survivors h ts ?acc @ rejs))"
    using Cons.IH [of "(?acc, ?rej)" "?rej @ rejected" ?fm] ck unfolding fst_conv by blast
  then obtain last rejs fm' where *: "tiebreak h ts (?acc, ?rej) (?rej @ rejected) ?fm = Some (((survivors h ts ?acc, last), rejs), fm')"
    "set rejs = set (?rej @ rejected) \<union> (set ?acc - set (survivors h ts ?acc))"
    "distinct (?acc @ ?rej @ rejected) \<longrightarrow> distinct (survivors h ts ?acc @ rejs)" by blast
  have "filterRoutes h t prev fm = Some ((?acc, ?rej), ?fm)"
    using Cons.prems by (simp add: filterRoutes_simple Let_def)
  then have "tiebreak h (t # ts) prev rejected fm = Some (((survivors h (t # ts) (fst prev), last), rejs), fm')"
    using *(1) by simp
  moreover have "set rejs = set rejected \<union> (set (fst prev) - set (survivors h (t # ts) (fst prev)))"
    using *(2) survivors_subset [of h ts ?acc] by auto
  moreover have "distinct (fst prev @ rejected) \<longrightarrow> distinct (survivors h (t # ts) (fst prev) @ rejs)"
  proof
    assume "distinct (fst prev @ rejected)"
    then have "distinct (?acc @ ?rej @ rejected)" by auto
    with *(3) show "distinct (survivors h (t # ts) (fst prev) @ rejs)" by simp
  qed
  ultimately show ?case by blast
qed

text \<open>
  C24. A recovery filter with simple tie breakers accepts, each once, the routes that have the metric of a
  route that wins all tie breaks, among the routes accepted so far, and rejects the others.
\<close>

theorem recover_equivalent:
  assumes ts: "ts \<noteq> []" "chain_ok h (fst prev) ts" and rl: "\<forall>r\<in>set (fst prev). rl h r \<noteq> None"
    and d: "distinct (fst prev)"
  shows "\<exists>first second fm'. filterRoutes h (RecoverEquivalentRouteFilter cfg rl ts) prev fm = Some ((first, second), fm') \<and>
    distinct first \<and>
    set first = {r \<in> set (fst prev). \<exists>b\<in>set (survivors h ts (fst prev)). rl h r = rl h b} \<and>
    set second = set (fst prev) - set first"
proof -
  obtain last rejs fm' where t: "tiebreak h ts prev [] fm = Some (((survivors h ts (fst prev), last), rejs), fm')"
    "set rejs = set (fst prev) - set (survivors h ts (fst prev))"
    "distinct (survivors h ts (fst prev) @ rejs)"
    using tiebreak_simple [OF ts(2), of "[]" fm] d by auto
  let ?s = "survivors h ts (fst prev)"
  have sub: "set ?s \<subseteq> set (fst prev)" by (rule survivors_subset)
  obtain first second where l: "recover_loop (\<lambda>r. the (rl h r)) ?s rejs = (first, second)"
    by (cases "recover_loop (\<lambda>r. the (rl h r)) ?s rejs")
  have eq: "the (rl h x) = the (rl h y) \<longleftrightarrow> rl h x = rl h y" if "x \<in> set (fst prev)" "y \<in> set (fst prev)" for x y
    using rl that by (metis option.expand)
  have "filterRoutes h (RecoverEquivalentRouteFilter cfg rl ts) prev fm = Some ((first, second), fm')"
    using ts t(1,2) rl sub l by (auto simp: list_all_iff)
  moreover have "set first = {r \<in> set (fst prev). \<exists>b\<in>set ?s. rl h r = rl h b}"
  proof -
    have "set first = set ?s \<union> {x \<in> set rejs. \<exists>r\<in>set ?s. the (rl h x) = the (rl h r)}"
      using recover_loop_correct [OF l] by blast
    also have "\<dots> = {x \<in> set (fst prev). \<exists>r\<in>set ?s. the (rl h x) = the (rl h r)}"
      unfolding t(2) using sub by auto
    also have "\<dots> = {r \<in> set (fst prev). \<exists>b\<in>set ?s. rl h r = rl h b}"
      using eq sub by (intro Collect_cong conj_cong bex_cong refl) auto
    finally show ?thesis .
  qed
  moreover have "set second = set (fst prev) - set first"
    using recover_loop_correct [OF l] t(2) sub by auto
  ultimately show ?thesis using recover_loop_correct [OF l] t(3) by auto
qed

theorem recover_equivalent_witness:
  "\<exists>f first second fm. fromRouteFilterConfig sample_features (getRecoverEquivalentRouteFilterConfig BGP_PEER_ASN
       [getHighestLowestRouteFilterConfig BGP_ROUTER_ID CHOOSE_LOWEST]) = Some f \<and>
     filterRoutes sample_rib f ([0, 1, 2], []) None = Some ((first, second), fm) \<and> set first = {0, 1, 2}"
proof -
  define rl :: rule where "rl = (\<lambda>h a. Some (ucast (snd (getOriginAsnAndPeerAsn (route_at h a)))))"
  define ts where "ts = [HighestLowestRouteFilter (getHighestLowestRouteFilterConfig BGP_ROUTER_ID CHOOSE_LOWEST)
    (\<lambda>h a. Some (ucast (getBgpRouterId (route_at h a)))) CHOOSE_LOWEST]"
  have "fromRouteFilterConfig sample_features (getRecoverEquivalentRouteFilterConfig BGP_PEER_ASN
       [getHighestLowestRouteFilterConfig BGP_ROUTER_ID CHOOSE_LOWEST]) = Some (RecoverEquivalentRouteFilter
         (getRecoverEquivalentRouteFilterConfig BGP_PEER_ASN [getHighestLowestRouteFilterConfig BGP_ROUTER_ID CHOOSE_LOWEST]) rl ts)"
    by (simp add: getRecoverEquivalentRouteFilterConfig_def getHighestLowestRouteFilterConfig_def metric_rule_def rl_def ts_def)
  moreover have "chain_ok sample_rib (fst ([0, 1, 2], [] :: nat list)) ts" by (simp add: ts_def rule_total_def)
  moreover have "\<forall>r\<in>set (fst ([0, 1, 2], [] :: nat list)). rl sample_rib r = Some 65001"
    unfolding rl_def by code_simp
  moreover have "survivors sample_rib ts [0, 1, 2] \<noteq> []" by (rule survivors_nonempty) (simp_all add: ts_def)
  moreover have "set (survivors sample_rib ts [0, 1, 2]) \<subseteq> set [0, 1, 2]" by (rule survivors_subset)
  ultimately show ?thesis
    using recover_equivalent [of ts sample_rib "([0, 1, 2], [])" rl _ None]
    by (fastforce simp: ts_def neq_Nil_conv)
qed

subsection \<open>Marking the preferred routes\<close>

text \<open>Whatever the filters are, they only move routes around.\<close>

lemma recover_loop_subset:
  "recover_loop v routes rejected = (first, second) \<Longrightarrow> set first \<union> set second \<subseteq> set routes \<union> set rejected"
  using recover_loop_correct [of v routes rejected first second] by auto

lemma filter_by_subset:
  "filter_by cfg rl wanted h routes fm = Some ((first, second), fm') \<Longrightarrow> set first \<union> set second \<subseteq> set routes"
proof -
  have "fst ` set (zip routes ws) \<subseteq> set routes" for ws :: "u128 list"
    by (induction routes ws rule: list_induct2') auto
  then show "filter_by cfg rl wanted h routes fm = Some ((first, second), fm') \<Longrightarrow> set first \<union> set second \<subseteq> set routes"
    by (force simp: filter_by_def split_by_def Let_def split: option.splits)
qed

lemma filterRoutes_subset:
  "filterRoutes h f prev fm = Some ((first, second), fm') \<Longrightarrow>
     set first \<union> set second \<subseteq> set (fst prev) \<union> set (snd prev)"
  "tiebreak h ts prev rejected fm = Some (((first, second), rejs), fm') \<Longrightarrow>
     set first \<union> set second \<union> set rejs \<subseteq> set (fst prev) \<union> set (snd prev) \<union> set rejected"
proof (induction h f prev fm and h ts prev rejected fm arbitrary: first second fm' and first second rejs fm'
    rule: filterRoutes_tiebreak.induct)
  case (1 h cfg rl action prev fm)
  then show ?case by (auto split: if_splits dest: filter_by_subset)
next
  case (2 h cfg rl lo hi prev fm)
  then show ?case by (auto split: if_splits dest: filter_by_subset)
next
  case (3 h cfg rl action vals prev fm)
  then show ?case by (auto split: if_splits dest: filter_by_subset)
next
  case (4 h cfg rl tiebreakers prev fm)
  from 4(2) obtain l1 l2 rejs fm1 where
    t: "tiebreak h tiebreakers prev (if tiebreakers = [] then snd prev else []) fm = Some (((l1, l2), rejs), fm1)"
    "recover_loop (\<lambda>r. the (rl h r)) l1 rejs = (first, second)"
    by (auto split: option.splits if_splits prod.splits)
  from 4(1) [OF t(1)] recover_loop_subset [OF t(2)] show ?case by (auto split: if_splits)
next
  case (5 h prev rejected fm)
  then show ?case by auto
next
  case (6 h t ts prev rejected fm)
  from 6(3) obtain l1 l2 fm1 where
    t: "filterRoutes h t prev fm = Some ((l1, l2), fm1)"
    "tiebreak h ts (l1, l2) (l2 @ rejected) fm1 = Some (((first, second), rejs), fm')"
    by (auto split: option.splits)
  from 6(1) [OF t(1)] 6(2) [OF t(1) refl, of first second rejs fm'] t(2) show ?case by auto
qed

lemma runFilters_subset:
  "runFilters h fs prev fm = Some ((first, second), fm') \<Longrightarrow> set first \<subseteq> set (fst prev) \<union> set (snd prev)"
proof (induction fs arbitrary: prev fm)
  case (Cons f fs)
  then obtain l1 l2 fm1 where "filterRoutes h f prev fm = Some ((l1, l2), fm1)"
    "runFilters h fs (l1, l2) fm1 = Some ((first, second), fm')"
    by (auto split: option.splits)
  with Cons.IH [of "(l1, l2)" fm1] filterRoutes_subset(1) show ?case by fastforce
qed simp

lemma applyFilters_partition:
  assumes "applyFilters h fs routes fm = Some ((first, second), fm')"
  shows "set first \<subseteq> set routes" "set second = set routes - set first"
  using assms runFilters_subset [of h fs "(routes, [])" fm]
  by (auto simp: applyFilters_def split: option.splits if_splits)

lemma flag_set [simp]: "f \<noteq> 0 \<Longrightarrow> has_flag f (set_flag f r)" "f \<noteq> 0 \<Longrightarrow> \<not> has_flag f (clear_flag f r)"
  by (simp_all add: has_flag_def set_flag_def clear_flag_def bit.conj_disj_distrib2 ac_simps flip: and.assoc)

lemma preferred_flag [simp]:
  "getIsRoutePreferred (setRoutePreferred r)" "\<not> getIsRoutePreferred (clearRoutePreferred r)"
  by (simp_all add: getIsRoutePreferred_def setRoutePreferred_def clearRoutePreferred_def PREFERRED_def)

lemma mark_fold:
  assumes "\<And>r. getIsRoutePreferred (g r) = b"
  shows "fold (\<lambda>a (changed, h). (changed \<or> getIsRoutePreferred (route_at h a) \<noteq> b, upd_route g a h)) as (c, h) = (c', h') \<Longrightarrow>
    (c' \<longleftrightarrow> c \<or> (\<exists>a\<in>set as. getIsRoutePreferred (route_at h a) \<noteq> b)) \<and>
    (\<forall>a. getIsRoutePreferred (route_at h' a) = (if a \<in> set as then b else getIsRoutePreferred (route_at h a)))"
proof (induction as arbitrary: c h)
  case (Cons a as)
  have "fold (\<lambda>a (changed, h). (changed \<or> getIsRoutePreferred (route_at h a) \<noteq> b, upd_route g a h)) as
      (c \<or> getIsRoutePreferred (route_at h a) \<noteq> b, upd_route g a h) = (c', h')"
    using Cons.prems unfolding fold.simps comp_apply prod.case .
  from Cons.IH [OF this] show ?case
    using assms by (auto simp: upd_route_def split: if_splits)
qed simp

text \<open>
  C22. When no filter looks at the marks of an earlier pass, \<^verbatim>\<open>markPreferredRoutes\<close> marks exactly the
  routes the filters accept and reports a change exactly when the mark of some route changes. It holds
  for every chain of filters, recovery filters included.
\<close>

theorem markPreferredRoutes_correct:
  assumes fs: "\<not> list_ex (\<lambda>f. cfg_metric (filter_config f) = ALREADY_PREFERRED_ROUTE) fs"
    and sel: "selectRoutes fs h routes = Some accepted"
  shows "\<exists>changed h'. markPreferredRoutes fs routes h = Some (changed, h') \<and> set accepted \<subseteq> set routes \<and>
    (\<forall>a\<in>set routes. getIsRoutePreferred (route_at h' a) \<longleftrightarrow> a \<in> set accepted) \<and>
    (\<forall>a. a \<notin> set routes \<longrightarrow> getIsRoutePreferred (route_at h' a) = getIsRoutePreferred (route_at h a)) \<and>
    (changed \<longleftrightarrow> (\<exists>a\<in>set routes. getIsRoutePreferred (route_at h' a) \<noteq> getIsRoutePreferred (route_at h a)))"
proof -
  obtain first second fm where a: "applyFilters h fs routes None = Some ((first, second), fm)"
    and acc: "accepted = first"
    using sel by (auto simp: selectRoutes_def)
  obtain c1 h1 where f1: "fold (\<lambda>r (changed, h). (changed \<or> \<not> getIsRoutePreferred (route_at h r), upd_route setRoutePreferred r h))
        first (False, h) = (c1, h1)"
    by (cases "fold (\<lambda>r (changed, h). (changed \<or> \<not> getIsRoutePreferred (route_at h r), upd_route setRoutePreferred r h))
        first (False, h)")
  obtain changed h' where f2: "fold (\<lambda>r (changed, h). (changed \<or> getIsRoutePreferred (route_at h r), upd_route clearRoutePreferred r h))
        second (c1, h1) = (changed, h')"
    by (cases "fold (\<lambda>r (changed, h). (changed \<or> getIsRoutePreferred (route_at h r), upd_route clearRoutePreferred r h))
        second (c1, h1)")
  have r: "markPreferredRoutes fs routes h = Some (changed, h')"
    using fs a f1 f2 by (simp add: markPreferredRoutes_def Let_def)
  note part = applyFilters_partition [OF a]
  have m1: "(c1 \<longleftrightarrow> (\<exists>a\<in>set first. \<not> getIsRoutePreferred (route_at h a))) \<and>
    (\<forall>a. getIsRoutePreferred (route_at h1 a) = (a \<in> set first \<or> getIsRoutePreferred (route_at h a)))"
    using mark_fold [of setRoutePreferred True first False h c1 h1] f1 by auto
  have m2: "(changed \<longleftrightarrow> c1 \<or> (\<exists>a\<in>set second. getIsRoutePreferred (route_at h1 a))) \<and>
    (\<forall>a. getIsRoutePreferred (route_at h' a) = (a \<notin> set second \<and> getIsRoutePreferred (route_at h1 a)))"
    using mark_fold [of clearRoutePreferred False second c1 h1 changed h'] f2 by auto
  have p: "getIsRoutePreferred (route_at h' a) \<longleftrightarrow>
      (if a \<in> set routes then a \<in> set first else getIsRoutePreferred (route_at h a))" for a
    using m1 m2 part by (cases "a \<in> set first"; cases "a \<in> set routes") auto
  moreover have "changed \<longleftrightarrow> (\<exists>a\<in>set routes. (a \<in> set first) \<noteq> getIsRoutePreferred (route_at h a))"
    using m1 m2 part by blast
  ultimately show ?thesis using part(1) r
    by (intro exI [of _ changed] exI [of _ h']) (simp add: p acc cong: bex_cong)
qed

theorem markPreferredRoutes_correct_witness:
  "\<exists>changed h'. markPreferredRoutes sample_chain [1, 2] sample_rib = Some (changed, h') \<and>
     (changed \<longleftrightarrow> (\<exists>a\<in>set [1, 2]. getIsRoutePreferred (route_at h' a) \<noteq> getIsRoutePreferred (route_at sample_rib a)))"
proof -
  have "\<forall>a\<in>set [1, 2]. route_ok sample_rib a \<and> address_ok sample_rib a" using sample_routes_ok by simp
  from bestpath_survivors [OF this, of sample_features False]
  have "chain_ok sample_rib [1, 2] sample_chain" by (auto simp: sample_chain_def)
  from applyFilters_simple [OF this, of None] obtain accepted where
    "selectRoutes sample_chain sample_rib [1, 2] = Some accepted" by (auto simp: selectRoutes_def)
  moreover have "\<not> list_ex (\<lambda>f. cfg_metric (filter_config f) = ALREADY_PREFERRED_ROUTE) sample_chain"
    by (simp add: sample_chain_def getRouteFilterConfigsBestPath_def selector_simps)
  ultimately show ?thesis using markPreferredRoutes_correct [of sample_chain sample_rib "[1, 2]" accepted] by blast
qed

end
