(* ===== verification/Rib_Entry.thy ===== *)
theory Rib_Entry
  imports Route_Selection
begin

text \<open>
  The entry of the RIB for a prefix: its paths (\<^verbatim>\<open>rib/RibEntry.{h,cpp}\<close>), the path ids it sends
  (with \<^verbatim>\<open>findLargestFreePathIdInterval\<close> of \<^verbatim>\<open>rib/Utils.cpp\<close>) and the phases of path
  selection (\<^verbatim>\<open>selectBestPath\<close> and its helpers in \<^verbatim>\<open>rib/RibBase.cpp\<close>).

  Hash maps are association lists; their order is the order of iteration. The bandwidth weights are
  floats: their sums and roundings are parameters (\<open>float_ops\<close>), since the library has no
  floating-point arithmetic, and nothing below depends on what they compute. \<open>None\<close> as a result means
  that a check failed and the process ended.
\<close>

subsection \<open>Data\<close>

text \<open>
  Additions and multiplications of binary32 numbers, the conversion
  \<^verbatim>\<open>(uint32_t) round(w * 8 / m)\<close>, the scaling \<^verbatim>\<open>round(x * 1.0 / total)\<close> and the quantizer of
  the configuration.
\<close>

record float_ops =
  f_add :: "u32 \<Rightarrow> u32 \<Rightarrow> u32"
  f_times8 :: "u32 \<Rightarrow> u32"
  f_toUcmp :: "u32 \<Rightarrow> u32 \<Rightarrow> u32"
  f_scale :: "u32 \<Rightarrow> u64 \<Rightarrow> u32"
  f_quantize :: "(u32 \<Rightarrow> u32) option"

type_synonym peer_id = "ipaddr \<times> u32"
type_synonym weighted_nexthops = "(ipaddr \<times> u32) list"
type_synonym topo_map = "(ipaddr \<times> (string \<times> int) list) list"

text \<open>
  \<open>weightedNexthops\<close> is a shared pointer that is compared by address: the map is tagged with the number
  \<open>next_map\<close> of the store, which is new for every map that is allocated.
\<close>

record RibEntry =
  e_prefix :: cidr
  routeInfos :: "(peer_id \<times> (u32 \<times> nat) list) list"
  allPathsCount :: u32
  aggregateReceivedUcmpWeight :: u32
  advertisedAggregateReceivedUcmpWeight :: u32
  aggregateLocalUcmpWeight :: u32
  advertisedAggregateLocalUcmpWeight :: u32
  ribPolicyUcmpWeight :: u32
  advertisedRibPolicyUcmpWeight :: u32
  needPathSelection :: bool
  inactivePathCount :: u32
  weightedNexthops :: "(nat \<times> weighted_nexthops) option"
  advertisedWeightedNexthops :: "(nat \<times> weighted_nexthops) option"
  nexthopsAndTopoInfo :: "topo_map option"
  multipaths :: "(u32 \<times> nat) list"
  advertisedMultipaths :: "(u32 \<times> nat) list"
  bestpath :: "nat option"
  advertisedBestpath :: "nat option"
  e_installToFib :: bool
  isUcmpActive :: bool
  isPartialDrain :: bool
  advertisedIsPartialDrain :: bool
  freePathIdInterval :: "u32 \<times> u32"
  hasFibOutState :: bool
  e_ribVersion :: u64

definition kMinPathIDToSend :: u32 where "kMinPathIDToSend = 0"
definition kMaxPathIDToSend :: u32 where "kMaxPathIDToSend = 0xFFFFFFFF"

definition new_entry :: "cidr \<Rightarrow> RibEntry" where
  "new_entry pfx =
     \<lparr>e_prefix = pfx, routeInfos = [], allPathsCount = 0,
      aggregateReceivedUcmpWeight = 0, advertisedAggregateReceivedUcmpWeight = 0,
      aggregateLocalUcmpWeight = 0, advertisedAggregateLocalUcmpWeight = 0,
      ribPolicyUcmpWeight = 0, advertisedRibPolicyUcmpWeight = 0,
      needPathSelection = True, inactivePathCount = 0, weightedNexthops = None,
      advertisedWeightedNexthops = None, nexthopsAndTopoInfo = None,
      multipaths = [], advertisedMultipaths = [], bestpath = None, advertisedBestpath = None,
      e_installToFib = True, isUcmpActive = False, isPartialDrain = False,
      advertisedIsPartialDrain = False, freePathIdInterval = (kMinPathIDToSend, kMaxPathIDToSend),
      hasFibOutState = False, e_ribVersion = 0\<rparr>"

definition getAllPaths :: "RibEntry \<Rightarrow> nat list" where
  "getAllPaths e = concat (map (\<lambda>(peer, infos). map snd infos) (routeInfos e))"

definition getRouteInfos :: "peer_id \<Rightarrow> RibEntry \<Rightarrow> (u32 \<times> nat) list" where
  "getRouteInfos peer e = (case map_of (routeInfos e) peer of Some infos \<Rightarrow> infos | None \<Rightarrow> [])"

definition getRouteInfo :: "peer_id \<Rightarrow> u32 \<Rightarrow> RibEntry \<Rightarrow> nat option" where
  "getRouteInfo peer recvId e =
     (case map_of (routeInfos e) peer of None \<Rightarrow> None | Some infos \<Rightarrow> map_of infos recvId)"

subsection \<open>Links between routes and next hops\<close>

text \<open>\<^verbatim>\<open>NexthopAssociationList\<close> with \<^verbatim>\<open>NexthopInfo::linkRouteInfo\<close> and \<^verbatim>\<open>unlinkRouteInfo\<close>.\<close>

definition upd_nexthop :: "(NexthopInfo \<Rightarrow> NexthopInfo) \<Rightarrow> ipaddr \<Rightarrow> rib_store \<Rightarrow> rib_store" where
  "upd_nexthop f nh h =
     (case map_of (nexthopInfoMap h) nh of
        None \<Rightarrow> h
      | Some ni \<Rightarrow> h\<lparr>nexthopInfoMap := AList.update nh (f ni) (nexthopInfoMap h)\<rparr>)"

definition linkRouteInfo :: "ipaddr \<Rightarrow> nat \<Rightarrow> rib_store \<Rightarrow> rib_store" where
  "linkRouteInfo nh a h =
     (if nexthopInfo (route_at h a) \<noteq> None then h
      else upd_route (\<lambda>r. r\<lparr>nexthopInfo := Some nh\<rparr>) a
        (upd_nexthop (\<lambda>ni. ni\<lparr>nexthopAssociationList := nexthopAssociationList ni @ [a]\<rparr>) nh h))"

definition unlinkFromNexthopInfo :: "nat \<Rightarrow> rib_store \<Rightarrow> bool \<times> rib_store" where
  "unlinkFromNexthopInfo a h =
     (case nexthopInfo (route_at h a) of
        None \<Rightarrow> (False, h)
      | Some nh \<Rightarrow>
          (True, upd_route (\<lambda>r. r\<lparr>nexthopInfo := None\<rparr>) a
            (upd_nexthop (\<lambda>ni. ni\<lparr>nexthopAssociationList := remove1 a (nexthopAssociationList ni)\<rparr>) nh h)))"

definition linkRouteInfoToNexthop :: "nat \<Rightarrow> ipaddr option \<Rightarrow> rib_store \<Rightarrow> rib_store" where
  "linkRouteInfoToNexthop a nh h = (case nh of None \<Rightarrow> h | Some nh \<Rightarrow> linkRouteInfo nh a h)"

subsection \<open>Updates of a path\<close>

text \<open>\<^verbatim>\<open>TinyPeerInfo::operator==\<close>: addresses and floats have their own equality.\<close>

definition f32_eq :: "u32 \<Rightarrow> u32 \<Rightarrow> bool" where
  "f32_eq a b \<longleftrightarrow> \<not> f32_nan a \<and> \<not> f32_nan b \<and> f32_key a = f32_key b"

definition peer_eq :: "TinyPeerInfo \<Rightarrow> TinyPeerInfo \<Rightarrow> bool" where
  "peer_eq p q \<longleftrightarrow>
     ip_eq (t_addr p) (t_addr q) \<and> t_asn p = t_asn q \<and> t_routerId p = t_routerId q \<and>
     t_sessionType p = t_sessionType q \<and> t_isRrClient p = t_isRrClient q \<and>
     t_isRedistributePeer p = t_isRedistributePeer q \<and>
     rel_option f32_eq (t_ucmpWeight p) (t_ucmpWeight q) \<and> t_description p = t_description q"

text \<open>
  The caller may give a callback that unlinks a route that is replaced or withdrawn; it works on the
  store and on state \<open>'c\<close> of its own. \<^verbatim>\<open>BgpPeerId\<close> is the address and router id of the peer.
\<close>

definition unlinkRouteInfoFromNexthop ::
  "(nat \<Rightarrow> rib_store \<times> 'c \<Rightarrow> bool \<times> rib_store \<times> 'c) option \<Rightarrow> nat \<Rightarrow> rib_store \<times> 'c \<Rightarrow> bool \<times> rib_store \<times> 'c" where
  "unlinkRouteInfoFromNexthop unlinkRouteInfoFn a w =
     (case unlinkRouteInfoFn of
        Some f \<Rightarrow> f a w
      | None \<Rightarrow> (case w of (h, c) \<Rightarrow> case unlinkFromNexthopInfo a h of (unlinked, h) \<Rightarrow> (unlinked, h, c)))"

definition new_route :: "RouteInfo \<Rightarrow> rib_store \<Rightarrow> nat \<times> rib_store" where
  "new_route r h = (next_route h, h\<lparr>route_at := (route_at h)(next_route h := r), next_route := next_route h + 1\<rparr>)"

definition withdrawPath ::
  "(nat \<Rightarrow> rib_store \<times> 'c \<Rightarrow> bool \<times> rib_store \<times> 'c) \<Rightarrow> peer_id \<Rightarrow> u32 \<Rightarrow> RibEntry \<Rightarrow> rib_store \<times> 'c \<Rightarrow>
   bool \<times> RibEntry \<times> rib_store \<times> 'c" where
  "withdrawPath unlinkFn peerId recvId e w =
     (case map_of (routeInfos e) peerId of
        None \<Rightarrow> (False, e, w)
      | Some infos \<Rightarrow>
          (case map_of infos recvId of
             None \<Rightarrow> (False, e, w)
           | Some a \<Rightarrow>
               let w = snd (unlinkFn a w);
                   infos = AList.delete recvId infos
               in (True,
                   e\<lparr>routeInfos := (if infos = [] then AList.delete peerId (routeInfos e)
                                   else AList.update peerId infos (routeInfos e)),
                     allPathsCount := allPathsCount e - 1, needPathSelection := True\<rparr>, w)))"

definition announcePath ::
  "(nat \<Rightarrow> rib_store \<times> 'c \<Rightarrow> bool \<times> rib_store \<times> 'c) \<Rightarrow> TinyPeerInfo \<Rightarrow> published_path \<Rightarrow> bool \<Rightarrow> u32 \<Rightarrow>
   ipaddr option \<Rightarrow> RibEntry \<Rightarrow> rib_store \<times> 'c \<Rightarrow> (bool \<times> RibEntry \<times> rib_store \<times> 'c) option" where
  "announcePath unlinkFn peer att install recvId nh e w =
     (let peerId = (t_addr peer, t_routerId peer);
          infos = map_of (routeInfos e) peerId;
          old = Option.bind infos (\<lambda>m. map_of m recvId);
          unchanged = (case old of None \<Rightarrow> False
            | Some a \<Rightarrow> path_ptr (r_attrs (route_at (fst w) a)) = path_ptr att \<and> peer_eq (r_peer (route_at (fst w) a)) peer)
      in if unchanged then Some (False, e, w)
         else case mkRouteInfo (e_prefix e) peer att recvId
                (case old of None \<Rightarrow> None | Some a \<Rightarrow> pathIdToSend (route_at (fst w) a)) install of
           None \<Rightarrow> None
         | Some r \<Rightarrow>
             let (a, h) = new_route r (fst w);
                 h = linkRouteInfoToNexthop a nh h;
                 m = (case infos of None \<Rightarrow> [(recvId, a)] | Some m \<Rightarrow> AList.update recvId a m);
                 e' = e\<lparr>routeInfos := AList.update peerId m (routeInfos e),
                        allPathsCount := (if old = None then allPathsCount e + 1 else allPathsCount e),
                        needPathSelection := True\<rparr>;
                 w' = (case old of None \<Rightarrow> (h, snd w) | Some b \<Rightarrow> snd (unlinkFn b (h, snd w)))
             in Some (True, e', w'))"

definition updatePath ::
  "(nat \<Rightarrow> rib_store \<times> 'c \<Rightarrow> bool \<times> rib_store \<times> 'c) option \<Rightarrow> TinyPeerInfo \<Rightarrow> published_path option \<Rightarrow> bool \<Rightarrow> u32 \<Rightarrow>
   ipaddr option \<Rightarrow> RibEntry \<Rightarrow> rib_store \<times> 'c \<Rightarrow> (bool \<times> RibEntry \<times> rib_store \<times> 'c) option" where
  "updatePath unlinkFn peer attOpt install recvId nh e w =
     (case attOpt of
        None \<Rightarrow> Some (withdrawPath (unlinkRouteInfoFromNexthop unlinkFn) (t_addr peer, t_routerId peer) recvId e w)
      | Some att \<Rightarrow> announcePath (unlinkRouteInfoFromNexthop unlinkFn) peer att install recvId nh e w)"

subsection \<open>Path ids to send\<close>

text \<open>
  \<^verbatim>\<open>findLargestFreePathIdInterval\<close>: the used ids in the range with a guard on each side, sorted, and
  the first of the largest gaps. The XCHECK on the range is the \<open>None\<close> case.
\<close>

definition usedPathIds :: "rib_store \<Rightarrow> RibEntry \<Rightarrow> u32 list" where
  "usedPathIds h e = List.map_filter (\<lambda>a. pathIdToSend (route_at h a)) (getAllPaths e)"

fun largestGap :: "int list \<Rightarrow> u32 \<times> u32 \<Rightarrow> int \<Rightarrow> u32 \<times> u32" where
  "largestGap (x # y # ids) best maxGap =
     (let thisGap = y - x - 1 in
      if thisGap > maxGap then largestGap (y # ids) (word_of_int (x + 1), word_of_int (y - 1)) thisGap
      else largestGap (y # ids) best maxGap)"
| "largestGap _ best maxGap = best"

definition findLargestFreePathIdInterval :: "u32 list \<Rightarrow> u32 \<Rightarrow> u32 \<Rightarrow> (u32 \<times> u32) option" where
  "findLargestFreePathIdInterval used minPathId maxPathId =
     (if minPathId < maxPathId
      then let usedIds = [uint minPathId - 1, uint maxPathId + 1] @
                 map uint (filter (\<lambda>i. minPathId \<le> i \<and> i \<le> maxPathId) used)
           in Some (largestGap (sort usedIds) (minPathId, maxPathId) (-1))
      else None)"

definition getPathIdToSend :: "rib_store \<Rightarrow> RibEntry \<Rightarrow> (u32 \<times> RibEntry) option" where
  "getPathIdToSend h e =
     (case (if fst (freePathIdInterval e) > snd (freePathIdInterval e)
            then findLargestFreePathIdInterval (usedPathIds h e) kMinPathIDToSend kMaxPathIDToSend
            else Some (freePathIdInterval e)) of
        None \<Rightarrow> None
      | Some (left, right) \<Rightarrow> Some (left, e\<lparr>freePathIdInterval := (left + 1, right)\<rparr>))"

definition getOrAssignSendPathId :: "nat \<Rightarrow> RibEntry \<times> rib_store \<Rightarrow> (u32 \<times> RibEntry \<times> rib_store) option" where
  "getOrAssignSendPathId a s =
     (case s of (e, h) \<Rightarrow>
        case pathIdToSend (route_at h a) of
          Some i \<Rightarrow> Some (i, e, h)
        | None \<Rightarrow>
            (case getPathIdToSend h e of
               None \<Rightarrow> None
             | Some (i, e) \<Rightarrow> Some (i, e, upd_route (\<lambda>r. r\<lparr>pathIdToSend := Some i\<rparr>) a h)))"

subsection \<open>Path selection\<close>

text \<open>Phase 1: what is remembered of the entry, and the reset.\<close>

record PathSelectionInput =
  oldBestpath :: "nat option"
  oldAggregateReceivedUcmpWeight :: u32
  oldAggregateLocalUcmpWeight :: u32
  oldMultipathWeightedNexthops :: "(nat \<times> weighted_nexthops) option"
  oldNexthopAndTopoInfo :: "topo_map option"

definition snapshotAndResetForPathSelection :: "RibEntry \<Rightarrow> PathSelectionInput \<times> RibEntry" where
  "snapshotAndResetForPathSelection e =
     (\<lparr>oldBestpath = bestpath e, oldAggregateReceivedUcmpWeight = aggregateReceivedUcmpWeight e,
       oldAggregateLocalUcmpWeight = aggregateLocalUcmpWeight e,
       oldMultipathWeightedNexthops = weightedNexthops e, oldNexthopAndTopoInfo = nexthopsAndTopoInfo e\<rparr>,
      e\<lparr>needPathSelection := False, aggregateReceivedUcmpWeight := 0, aggregateLocalUcmpWeight := 0,
        nexthopsAndTopoInfo := None\<rparr>)"

text \<open>Phase 2: paths with an unresolved next hop are left out when next hops are tracked.\<close>

definition prePathSelectionFiltering ::
  "BgpBestpathFeatures \<Rightarrow> rib_store \<Rightarrow> RibEntry \<Rightarrow> nat list \<times> RibEntry" where
  "prePathSelectionFiltering ff h e =
     (let excluded = (\<lambda>a. enableNextHopTracking ff \<and> \<not> route_isResolvedForSelection h (route_at h a)) in
      (filter (\<lambda>a. \<not> excluded a) (getAllPaths e),
       e\<lparr>inactivePathCount := of_nat (length (filter excluded (getAllPaths e)))\<rparr>))"

text \<open>Phase 3: the multipath selector, and a path id for every selected path.\<close>

fun assignPathIds :: "nat list \<Rightarrow> RibEntry \<times> rib_store \<Rightarrow> (RibEntry \<times> rib_store) option" where
  "assignPathIds [] s = Some s"
| "assignPathIds (a # as) s =
     (case getOrAssignSendPathId a s of
        None \<Rightarrow> None
      | Some (_, e, h) \<Rightarrow> assignPathIds as (e, h))"

definition multiPathSelection ::
  "RouteFilter list \<Rightarrow> nat list \<Rightarrow> RibEntry \<times> rib_store \<Rightarrow> (nat list \<times> RibEntry \<times> rib_store) option" where
  "multiPathSelection multipathSelector routes s =
     (case s of (e, h) \<Rightarrow>
        case selectRoutesAndSetRejectionFilter multipathSelector routes h of
          None \<Rightarrow> None
        | Some (selected, h) \<Rightarrow>
            if selected = [] then None
            else map_option (\<lambda>(e, h). (selected, e, h)) (assignPathIds selected (e, h)))"

text \<open>
  Phase 4: the aggregated bandwidths, the multiplier for them and the topology information. An emplace
  keeps the first value of a key.
\<close>

definition BpsPerMBps :: u32 where "BpsPerMBps = 0x49742400"
definition BpsPerGBps :: u32 where "BpsPerGBps = 0x4E6E6B28"
definition f32_one :: u32 where "f32_one = 0x3F800000"

definition f32_min :: "u32 \<Rightarrow> u32 \<Rightarrow> u32" where
  "f32_min a b = (if f32_less b a then b else a)"

definition emplace :: "'k \<Rightarrow> 'v \<Rightarrow> ('k \<times> 'v) list \<Rightarrow> ('k \<times> 'v) list" where
  "emplace k v m = (if map_of m k = None then m @ [(k, v)] else m)"

definition getUcmpWeight :: "RouteInfo \<Rightarrow> u32" where
  "getUcmpWeight r = (case ucmpWeight r of None \<Rightarrow> f32_zero | Some w \<Rightarrow> w)"

text \<open>Equality of hash maps.\<close>

definition map_eq :: "('k \<times> 'v) list \<Rightarrow> ('k \<times> 'v) list \<Rightarrow> bool" where
  "map_eq m n \<longleftrightarrow> (\<forall>k\<in>set (map fst m) \<union> set (map fst n). map_of m k = map_of n k)"

record weight_acc =
  acc_received :: u32
  acc_local :: u32
  acc_multiplier :: u32
  acc_topo :: topo_map
  missingReceived :: bool
  missingLocal :: bool

definition accumulateOne :: "float_ops \<Rightarrow> rib_store \<Rightarrow> nat \<Rightarrow> weight_acc \<Rightarrow> weight_acc" where
  "accumulateOne fo h a acc =
     (let r = route_at h a; w = getUcmpWeight r; lw = t_ucmpWeight (r_peer r); bps = f_times8 fo w in
      acc\<lparr>acc_topo := (case bp_topologyInfo (route_path r) of None \<Rightarrow> acc_topo acc
            | Some t \<Rightarrow> emplace (bp_nexthop (route_path r)) t (acc_topo acc)),
          missingReceived := missingReceived acc \<or> f32_eq w f32_zero,
          acc_received := f_add fo (acc_received acc) w,
          missingLocal := missingLocal acc \<or> lw = None,
          acc_local := f_add fo (acc_local acc) (case lw of None \<Rightarrow> f32_zero | Some x \<Rightarrow> x),
          acc_multiplier :=
            (if f32_less BpsPerGBps bps then f32_min (acc_multiplier acc) BpsPerGBps
             else if f32_less BpsPerMBps bps then f32_min (acc_multiplier acc) BpsPerMBps
             else f32_one)\<rparr>)"

text \<open>The result is the multiplier and whether the topology information changed.\<close>

definition accumulateAggregateWeightsAndTopoInfo ::
  "float_ops \<Rightarrow> nat list \<Rightarrow> topo_map option \<Rightarrow> rib_store \<Rightarrow> RibEntry \<Rightarrow> u32 \<times> bool \<times> RibEntry" where
  "accumulateAggregateWeightsAndTopoInfo fo selected oldTopo h e =
     (let acc = fold (accumulateOne fo h) selected
            \<lparr>acc_received = aggregateReceivedUcmpWeight e, acc_local = aggregateLocalUcmpWeight e,
             acc_multiplier = BpsPerGBps, acc_topo = [], missingReceived = False, missingLocal = False\<rparr>;
          complete = (length (acc_topo acc) = length selected);
          changed = (complete \<and> (case oldTopo of None \<Rightarrow> True | Some t \<Rightarrow> \<not> map_eq t (acc_topo acc)))
      in (acc_multiplier acc, changed,
          e\<lparr>nexthopsAndTopoInfo := (if complete then Some (acc_topo acc) else nexthopsAndTopoInfo e),
            aggregateReceivedUcmpWeight := (if missingReceived acc then 0 else acc_received acc),
            aggregateLocalUcmpWeight :=
              (if missingLocal acc then 0
               else case f_quantize fo of None \<Rightarrow> acc_local acc | Some q \<Rightarrow> q (acc_local acc))\<rparr>))"

text \<open>Phase 5: the best path is the first of the routes the best path selector leaves.\<close>

definition bestPathSelection ::
  "RouteFilter list \<Rightarrow> nat list \<Rightarrow> RibEntry \<times> rib_store \<Rightarrow> (RibEntry \<times> rib_store) option" where
  "bestPathSelection bestpathSelector selected s =
     (case s of (e, h) \<Rightarrow>
        case selectRoutesAndSetRejectionFilter bestpathSelector selected h of
          None \<Rightarrow> None
        | Some ([], h) \<Rightarrow> None
        | Some (a # _, h) \<Rightarrow> Some (e\<lparr>bestpath := Some a, e_installToFib := installToFib (route_at h a)\<rparr>, h))"

text \<open>
  Phase 6: the multipaths by their path id, and the weights of the next hops. A path whose id is taken
  is not entered; the vector of the selected paths then holds the path that has the id. Products of
  weight and width are computed in 32 bits.
\<close>

record nexthop_acc =
  na_multipaths :: "(u32 \<times> nat) list"
  na_weights :: weighted_nexthops
  na_multiplier :: u32
  na_total :: u64

definition buildOne ::
  "float_ops \<Rightarrow> rib_store \<Rightarrow> bool \<Rightarrow> u32 \<Rightarrow> nat \<Rightarrow> nexthop_acc \<Rightarrow> nexthop_acc option" where
  "buildOne fo h setWeights lbwMultiplier a acc =
     (case pathIdToSend (route_at h a) of
        None \<Rightarrow> None
      | Some i \<Rightarrow>
          let mp = emplace i a (na_multipaths acc);
              r = route_at h (the (map_of mp i))
          in Some (if setWeights
             then let w = f_toUcmp fo (getUcmpWeight r) lbwMultiplier in
                  \<lparr>na_multipaths = mp, na_weights = emplace (bp_nexthop (route_path r)) w (na_weights acc),
                   na_multiplier = word_of_int (gcd (uint (na_multiplier acc)) (uint w)),
                   na_total = na_total acc + ucast w\<rparr>
             else acc\<lparr>na_multipaths := mp, na_weights := emplace (bp_nexthop (route_path r)) 0 (na_weights acc)\<rparr>))"

fun buildAll ::
  "float_ops \<Rightarrow> rib_store \<Rightarrow> bool \<Rightarrow> u32 \<Rightarrow> nat list \<Rightarrow> nexthop_acc \<Rightarrow> nexthop_acc option" where
  "buildAll fo h setWeights m [] acc = Some acc"
| "buildAll fo h setWeights m (a # as) acc =
     (case buildOne fo h setWeights m a acc of None \<Rightarrow> None | Some acc \<Rightarrow> buildAll fo h setWeights m as acc)"

definition normalizeWeight :: "float_ops \<Rightarrow> u32 \<Rightarrow> u32 \<Rightarrow> u64 \<Rightarrow> u32 \<Rightarrow> u32" where
  "normalizeWeight fo ucmpWidth multiplier totalUcmpWeight w =
     (let w = w div max multiplier 1 in
      if ucast ucmpWidth < totalUcmpWeight then f_scale fo (w * ucmpWidth) totalUcmpWeight else w)"

definition buildAndNormalizeWeightedNexthops ::
  "float_ops \<Rightarrow> nat list \<Rightarrow> bool \<Rightarrow> u32 \<Rightarrow> u32 \<Rightarrow> rib_store \<Rightarrow> RibEntry \<Rightarrow> (weighted_nexthops \<times> RibEntry) option" where
  "buildAndNormalizeWeightedNexthops fo selected computeUcmp ucmpWidth lbwMultiplier h e =
     (let setWeights = (computeUcmp \<and> f32_less f32_zero (aggregateReceivedUcmpWeight e)) in
      case buildAll fo h setWeights lbwMultiplier selected
             \<lparr>na_multipaths = [], na_weights = [], na_multiplier = 0, na_total = 0\<rparr> of
        None \<Rightarrow> None
      | Some acc \<Rightarrow>
          let total = na_total acc div ucast (max (na_multiplier acc) 1);
              ws = (if setWeights
                    then filter (\<lambda>(nh, w). w \<noteq> 0)
                      (map (\<lambda>(nh, w). (nh, normalizeWeight fo ucmpWidth (na_multiplier acc) total w)) (na_weights acc))
                    else na_weights acc)
          in Some (ws, e\<lparr>multipaths := na_multipaths acc,
               isUcmpActive := setWeights \<and> length (remdups (map snd ws)) > 1\<rparr>))"

text \<open>Phase 7: what changed.\<close>

definition computeChangePair ::
  "PathSelectionInput \<Rightarrow> bool \<Rightarrow> weighted_nexthops \<Rightarrow> RibEntry \<times> rib_store \<Rightarrow> (bool \<times> bool) \<times> RibEntry \<times> rib_store" where
  "computeChangePair input topoChanged newNhWtMap s =
     (let nhChanged = (case oldMultipathWeightedNexthops input of None \<Rightarrow> True
            | Some (_, m) \<Rightarrow> \<not> map_eq newNhWtMap m);
          (e, h) = (if nhChanged
            then ((fst s)\<lparr>weightedNexthops := Some (next_map (snd s), newNhWtMap)\<rparr>,
                  (snd s)\<lparr>next_map := next_map (snd s) + 1\<rparr>)
            else s);
          multipathChanged = (nhChanged \<or> topoChanged)
      in if oldBestpath input = None \<and> bestpath e = None then ((False, multipathChanged), e, h)
         else ((oldBestpath input \<noteq> bestpath e \<or>
                \<not> f32_eq (aggregateReceivedUcmpWeight e) (oldAggregateReceivedUcmpWeight input) \<or>
                \<not> f32_eq (aggregateLocalUcmpWeight e) (oldAggregateLocalUcmpWeight input), multipathChanged), e, h))"

definition selectBestPath ::
  "float_ops \<Rightarrow> BgpBestpathFeatures \<Rightarrow> RouteFilter list \<Rightarrow> RouteFilter list \<Rightarrow> bool \<Rightarrow> u32 \<Rightarrow>
   RibEntry \<times> rib_store \<Rightarrow> ((bool \<times> bool) \<times> RibEntry \<times> rib_store) option" where
  "selectBestPath fo ff multipathSelector bestpathSelector computeUcmp ucmpWidth s =
     (case s of (e, h) \<Rightarrow>
      let (input, e) = snapshotAndResetForPathSelection e;
          (routes, e) = prePathSelectionFiltering ff h e
      in if routes = []
         then Some ((oldBestpath input \<noteq> None, oldMultipathWeightedNexthops input \<noteq> None),
                e\<lparr>bestpath := None, multipaths := [], e_installToFib := True, weightedNexthops := None\<rparr>, h)
         else case multiPathSelection multipathSelector routes (e, h) of
           None \<Rightarrow> None
         | Some (selected, e, h) \<Rightarrow>
             (case accumulateAggregateWeightsAndTopoInfo fo selected (oldNexthopAndTopoInfo input) h e of
                (lbwMultiplier, topoChanged, e) \<Rightarrow>
              case bestPathSelection bestpathSelector selected (e, h) of
                None \<Rightarrow> None
              | Some (e, h) \<Rightarrow>
                  (case buildAndNormalizeWeightedNexthops fo selected computeUcmp ucmpWidth lbwMultiplier h e of
                     None \<Rightarrow> None
                   | Some (ws, e) \<Rightarrow> Some (computeChangePair input topoChanged ws (e, h)))))"

subsection \<open>Commits\<close>

definition commitBestpath :: "RibEntry \<Rightarrow> bool \<times> RibEntry" where
  "commitBestpath e =
     (let ret = (advertisedBestpath e \<noteq> bestpath e \<or>
            \<not> f32_eq (advertisedAggregateReceivedUcmpWeight e) (aggregateReceivedUcmpWeight e) \<or>
            \<not> f32_eq (advertisedAggregateLocalUcmpWeight e) (aggregateLocalUcmpWeight e) \<or>
            \<not> f32_eq (advertisedRibPolicyUcmpWeight e) (ribPolicyUcmpWeight e) \<or>
            advertisedIsPartialDrain e \<noteq> isPartialDrain e);
          e = e\<lparr>advertisedAggregateReceivedUcmpWeight := aggregateReceivedUcmpWeight e,
                advertisedAggregateLocalUcmpWeight := aggregateLocalUcmpWeight e,
                advertisedRibPolicyUcmpWeight := ribPolicyUcmpWeight e,
                advertisedIsPartialDrain := isPartialDrain e\<rparr>
      in if advertisedBestpath e = None \<and> bestpath e = None then (False, e)
         else (ret, e\<lparr>advertisedBestpath := bestpath e\<rparr>))"

definition commitMultipathNexthops :: "RibEntry \<Rightarrow> bool \<times> RibEntry" where
  "commitMultipathNexthops e =
     (map_option fst (advertisedWeightedNexthops e) \<noteq> map_option fst (weightedNexthops e),
      e\<lparr>advertisedWeightedNexthops := weightedNexthops e\<rparr>)"

definition commitMultipaths :: "RibEntry \<Rightarrow> bool \<times> RibEntry" where
  "commitMultipaths e =
     (\<not> map_eq (advertisedMultipaths e) (multipaths e), e\<lparr>advertisedMultipaths := multipaths e\<rparr>)"

end
