(* ===== verification/Rib_Paths.thy ===== *)
theory Rib_Paths
  imports Rib_Entry
begin

text \<open>
  What the entry of the RIB promises. A path is found under the peer and path id it was announced with
  until it is withdrawn, and the count of paths is right (\<open>updatePath\<close>, against a callback contract that
  is a locale); path ids that are sent are not in use (\<open>getPathIdToSend\<close>); path selection never fails a
  check and gives the best path and the multipaths of the decision process (\<open>selectBestPath\<close>).
\<close>

subsection \<open>Largest free interval of path ids\<close>

definition adjacent :: "int list \<Rightarrow> int \<Rightarrow> int \<Rightarrow> bool" where
  "adjacent xs x y \<longleftrightarrow> (\<exists>us vs. xs = us @ x # y # vs)"

lemma adjacent_Cons: "adjacent (z # xs) x y \<longleftrightarrow> (x = z \<and> (\<exists>vs. xs = y # vs)) \<or> adjacent xs x y"
  unfolding adjacent_def by (auto simp: Cons_eq_append_conv)

lemma adjacent_Nil [simp]: "\<not> adjacent [] x y"
  by (simp add: adjacent_def)

lemma adjacent_in: "adjacent xs x y \<Longrightarrow> x \<in> set xs \<and> y \<in> set xs"
  by (auto simp: adjacent_def)

lemma adjacent_sorted:
  assumes "sorted xs" "adjacent xs x y" "z \<in> set xs"
  shows "z \<le> x \<or> y \<le> z"
proof -
  obtain us vs where "xs = us @ x # y # vs" using assms(2) by (auto simp: adjacent_def)
  with assms show ?thesis by (auto simp: sorted_append)
qed

lemma adjacent_around:
  assumes "sorted xs" "x0 \<in> set xs" "x0 < a" "y0 \<in> set xs" "b < y0" "\<forall>z\<in>set xs. z < a \<or> b < z" "a \<le> b"
  shows "\<exists>x y. adjacent xs x y \<and> x < a \<and> b < y"
  using assms
proof (induction xs arbitrary: x0)
  case (Cons z xs)
  show ?case
  proof (cases "\<exists>x1\<in>set xs. x1 < a")
    case True
    then obtain x1 where x1: "x1 \<in> set xs" "x1 < a" by blast
    then have "y0 \<in> set xs" using Cons.prems by auto
    with Cons.IH [of x1] Cons.prems x1 show ?thesis by (auto simp: adjacent_Cons)
  next
    case False
    then have z: "z < a" and xs: "\<forall>x1\<in>set xs. b < x1" using Cons.prems by auto
    have "xs \<noteq> []" using Cons.prems z by auto
    then obtain y vs where "xs = y # vs" by (cases xs) auto
    then have "adjacent (z # xs) z y" "b < y" using xs by (simp_all add: adjacent_Cons)
    with z show ?thesis by blast
  qed
qed simp

lemma largestGap:
  "(largestGap xs best g = best \<and> (\<forall>x y. adjacent xs x y \<longrightarrow> y - x - 1 \<le> g)) \<or>
   (\<exists>x y. adjacent xs x y \<and> largestGap xs best g = (word_of_int (x + 1), word_of_int (y - 1)) \<and>
      g < y - x - 1 \<and> (\<forall>x' y'. adjacent xs x' y' \<longrightarrow> y' - x' - 1 \<le> y - x - 1))"
proof (induction xs best g rule: largestGap.induct)
  case (1 x y ids best maxGap)
  have adj: "adjacent (x # y # ids) x' y' \<longleftrightarrow> x' = x \<and> y' = y \<or> adjacent (y # ids) x' y'" for x' y'
    by (subst adjacent_Cons) auto
  show ?case
  proof (cases "maxGap < y - x - 1")
    case True
    let ?best = "(word_of_int (x + 1), word_of_int (y - 1)) :: u32 \<times> u32"
    have r: "largestGap (x # y # ids) best maxGap = largestGap (y # ids) ?best (y - x - 1)"
      using True by (simp only: largestGap.simps Let_def if_True)
    from 1(1) [OF refl True] show ?thesis
    proof (elim disjE exE conjE)
      assume "largestGap (y # ids) ?best (y - x - 1) = ?best"
        "\<forall>x' y'. adjacent (y # ids) x' y' \<longrightarrow> y' - x' - 1 \<le> y - x - 1"
      then show ?thesis using True unfolding r adj by (intro disjI2 exI [of _ x] exI [of _ y]) auto
    next
      fix x' y' assume "adjacent (y # ids) x' y'" "y - x - 1 < y' - x' - 1"
        "largestGap (y # ids) ?best (y - x - 1) = (word_of_int (x' + 1), word_of_int (y' - 1))"
        "\<forall>x'' y''. adjacent (y # ids) x'' y'' \<longrightarrow> y'' - x'' - 1 \<le> y' - x' - 1"
      then show ?thesis using True unfolding r adj by (intro disjI2 exI [of _ x'] exI [of _ y']) auto
    qed
  next
    case False
    have r: "largestGap (x # y # ids) best maxGap = largestGap (y # ids) best maxGap"
      using False by (simp only: largestGap.simps Let_def if_False)
    from 1(2) [OF refl False] show ?thesis
    proof (elim disjE exE conjE)
      assume "largestGap (y # ids) best maxGap = best" "\<forall>x' y'. adjacent (y # ids) x' y' \<longrightarrow> y' - x' - 1 \<le> maxGap"
      then show ?thesis using False unfolding r adj by (intro disjI1) auto
    next
      fix x' y' assume "adjacent (y # ids) x' y'" "maxGap < y' - x' - 1"
        "largestGap (y # ids) best maxGap = (word_of_int (x' + 1), word_of_int (y' - 1))"
        "\<forall>x'' y''. adjacent (y # ids) x'' y'' \<longrightarrow> y'' - x'' - 1 \<le> y' - x' - 1"
      then show ?thesis using False unfolding r adj by (intro disjI2 exI [of _ x'] exI [of _ y']) auto
    qed
  qed
qed (auto simp: adjacent_Cons)

definition free_interval :: "u32 list \<Rightarrow> u32 \<Rightarrow> u32 \<Rightarrow> bool" where
  "free_interval used a b \<longleftrightarrow> a \<le> b \<and> (\<forall>i\<in>set used. \<not> (a \<le> i \<and> i \<le> b))"

text \<open>The sorted list of used ids with the two guards.\<close>

definition guarded_ids :: "u32 list \<Rightarrow> u32 \<Rightarrow> u32 \<Rightarrow> int list" where
  "guarded_ids used lo hi = sort ([uint lo - 1, uint hi + 1] @ map uint (filter (\<lambda>i. lo \<le> i \<and> i \<le> hi) used))"

lemma set_guarded_ids:
  "set (guarded_ids used lo hi) = {uint lo - 1, uint hi + 1} \<union> uint ` {i \<in> set used. lo \<le> i \<and> i \<le> hi}"
  unfolding guarded_ids_def set_sort by auto

lemma sorted_guarded_ids [simp]: "sorted (guarded_ids used lo hi)"
  unfolding guarded_ids_def by (rule sorted_sort)

lemma guarded_ids_around:
  assumes "free_interval used a b" "lo \<le> a" "b \<le> hi"
  shows "\<exists>x y. adjacent (guarded_ids used lo hi) x y \<and> x < uint a \<and> uint b < y"
proof (rule adjacent_around)
  show "sorted (guarded_ids used lo hi)" by simp
  show "uint lo - 1 \<in> set (guarded_ids used lo hi)" "uint hi + 1 \<in> set (guarded_ids used lo hi)"
    by (simp_all add: set_guarded_ids)
  show "uint lo - 1 < uint a" "uint b < uint hi + 1" "uint a \<le> uint b"
    using assms by (auto simp: free_interval_def word_le_def)
  show "\<forall>z\<in>set (guarded_ids used lo hi). z < uint a \<or> uint b < z"
    using assms by (auto simp: set_guarded_ids free_interval_def word_le_def)
qed

lemma guarded_ids_gap:
  assumes adj: "adjacent (guarded_ids used lo hi) x y" and gap: "x + 1 < y" and lh: "lo \<le> hi"
  shows "uint lo \<le> x + 1" "y - 1 \<le> uint hi"
    "free_interval used (word_of_int (x + 1)) (word_of_int (y - 1))"
    "uint (word_of_int (x + 1) :: u32) = x + 1" "uint (word_of_int (y - 1) :: u32) = y - 1"
proof -
  have "x \<in> set (guarded_ids used lo hi)" "y \<in> set (guarded_ids used lo hi)"
    using adjacent_in [OF adj] by simp_all
  then show b: "uint lo \<le> x + 1" "y - 1 \<le> uint hi"
    using lh by (auto simp: set_guarded_ids word_le_def)
  then have "0 \<le> x + 1" "x + 1 < 2 ^ 32" "0 \<le> y - 1" "y - 1 < 2 ^ 32"
    using gap uint_bounded [of hi] order_trans [OF uint_nonnegative, of lo "x + 1"] by auto
  then show u: "uint (word_of_int (x + 1) :: u32) = x + 1" "uint (word_of_int (y - 1) :: u32) = y - 1"
    by (simp_all only: uint_word32 in_range_def simp_thms)
  have "\<not> (x < uint i \<and> uint i < y)" if "i \<in> set used" for i
  proof
    assume i: "x < uint i \<and> uint i < y"
    then have "uint i \<in> set (guarded_ids used lo hi)"
      using that b by (auto simp: set_guarded_ids word_le_def)
    with adjacent_sorted [OF _ adj] i show False by fastforce
  qed
  then show "free_interval used (word_of_int (x + 1)) (word_of_int (y - 1))"
    using gap u unfolding free_interval_def word_le_def by force
qed

lemma findLargest_correct:
  assumes lh: "lo < hi" and u: "lo \<le> u" "u \<le> hi" "u \<notin> set used"
  shows "\<exists>l r. findLargestFreePathIdInterval used lo hi = Some (l, r) \<and> lo \<le> l \<and> r \<le> hi \<and> free_interval used l r \<and>
    (\<forall>a b. free_interval used a b \<and> lo \<le> a \<and> b \<le> hi \<longrightarrow> uint b - uint a \<le> uint r - uint l)"
proof -
  let ?xs = "guarded_ids used lo hi"
  have f: "findLargestFreePathIdInterval used lo hi = Some (largestGap ?xs (lo, hi) (-1))"
    using lh by (simp add: findLargestFreePathIdInterval_def guarded_ids_def Let_def)
  have "free_interval used u u" using u by (auto simp: free_interval_def)
  from guarded_ids_around [OF this u(1,2)] obtain x0 y0 where a0: "adjacent ?xs x0 y0" "1 \<le> y0 - x0 - 1"
    by force
  with largestGap [of ?xs "(lo, hi)" "-1"] obtain x y where g: "adjacent ?xs x y"
    "largestGap ?xs (lo, hi) (-1) = (word_of_int (x + 1), word_of_int (y - 1))"
    "\<forall>x' y'. adjacent ?xs x' y' \<longrightarrow> y' - x' - 1 \<le> y - x - 1"
    by force
  then have gap: "x + 1 < y" using a0 by force
  note gg = guarded_ids_gap [OF g(1) gap less_imp_le [OF lh]]
  have "uint b - uint a \<le> uint (word_of_int (y - 1) :: u32) - uint (word_of_int (x + 1) :: u32)"
    if "free_interval used a b \<and> lo \<le> a \<and> b \<le> hi" for a b
  proof -
    from guarded_ids_around that obtain x' y' where "adjacent ?xs x' y'" "x' < uint a" "uint b < y'" by blast
    with g(3) have "y' - x' - 1 \<le> y - x - 1" by blast
    with \<open>x' < uint a\<close> \<open>uint b < y'\<close> show ?thesis unfolding gg(4,5) by linarith
  qed
  moreover have "lo \<le> word_of_int (x + 1)" "word_of_int (y - 1) \<le> hi"
    using gg unfolding word_le_def by simp_all
  moreover have "findLargestFreePathIdInterval used lo hi = Some (word_of_int (x + 1), word_of_int (y - 1))"
    by (simp only: f g(2))
  ultimately show ?thesis using gg(3) by blast
qed

subsection \<open>Path ids\<close>

abbreviation sendId :: "rib_store \<Rightarrow> nat \<Rightarrow> u32 option" where
  "sendId h a \<equiv> pathIdToSend (route_at h a)"

lemma set_usedPathIds: "set (usedPathIds h e) = {i. \<exists>a\<in>set (getAllPaths e). sendId h a = Some i}"
  by (force simp: usedPathIds_def map_filter_def)

definition in_interval :: "u32 \<times> u32 \<Rightarrow> u32 \<Rightarrow> bool" where
  "in_interval I i \<longleftrightarrow> fst I \<le> i \<and> i \<le> snd I"

definition interval_free :: "rib_store \<Rightarrow> RibEntry \<Rightarrow> bool" where
  "interval_free h e \<longleftrightarrow> (\<forall>i\<in>set (usedPathIds h e). \<not> in_interval (freePathIdInterval e) i)"

lemma uint_Suc: "l \<noteq> kMaxPathIDToSend \<Longrightarrow> uint (l + 1) = uint l + 1"
proof -
  assume "l \<noteq> kMaxPathIDToSend"
  then have "uint l \<noteq> 4294967295" by (auto simp: kMaxPathIDToSend_def word_uint_eq_iff)
  then show ?thesis using uint_bounded [of l] by (simp add: uint_word_ariths)
qed

lemma interval_next:
  assumes "in_interval (l + 1, r) j" "l \<noteq> kMaxPathIDToSend"
  shows "in_interval (l, r) j" "j \<noteq> l"
  using assms uint_Suc [OF assms(2)] by (auto simp: in_interval_def word_le_def)

lemma le_max [simp]: "i \<le> kMaxPathIDToSend" "kMinPathIDToSend \<le> i" "kMinPathIDToSend < kMaxPathIDToSend"
  using uint_bounded [of i] by (auto simp: kMaxPathIDToSend_def kMinPathIDToSend_def word_le_def)


text \<open>
  C27. The exhaustion of the interval goes unnoticed when it ends at the largest 32-bit number, as the
  initial interval does: after the largest id the left end wraps around to zero, the interval looks
  completely free again, and the next id is zero whether or not a path has it.
\<close>

theorem path_id_wraps:
  assumes "freePathIdInterval e = (kMaxPathIDToSend, kMaxPathIDToSend)"
  shows "\<exists>e' e''. getPathIdToSend h e = Some (kMaxPathIDToSend, e') \<and> getPathIdToSend h' e' = Some (0, e'')"
  using assms by (simp add: getPathIdToSend_def kMaxPathIDToSend_def)


theorem path_id_wraps_witness:
  "\<exists>e' e''. getPathIdToSend sample_rib ((new_entry (IPv4 0, 0))\<lparr>freePathIdInterval := (kMaxPathIDToSend, kMaxPathIDToSend)\<rparr>)
     = Some (kMaxPathIDToSend, e') \<and> getPathIdToSend sample_rib e' = Some (0, e'')"
  by (rule path_id_wraps) simp

end
