(* ===== verification/Rib_Update.thy ===== *)
theory Rib_Update
  imports Rib_Paths
begin

text \<open>
  Updates of the paths of a RIB entry. The two-level hash map of an entry is a map from peer and
  received path id to a route (\<open>paths\<close>); \<open>updatePath\<close> refines the update of that map, keeps the
  invariant \<open>entry_wf\<close>, and keeps the count of the paths right. What it needs of the callback that
  unlinks a route is the locale \<open>route_unlinker\<close>.
\<close>

subsection \<open>The entry as a map\<close>

definition paths :: "RibEntry \<Rightarrow> peer_id \<times> u32 \<Rightarrow> nat option" where
  "paths e k = getRouteInfo (fst k) (snd k) e"

abbreviation peerId :: "TinyPeerInfo \<Rightarrow> peer_id" where
  "peerId peer \<equiv> (t_addr peer, t_routerId peer)"

definition route_key :: "RouteInfo \<Rightarrow> peer_id \<times> u32" where
  "route_key r = (peerId (r_peer r), receivedPathId r)"

definition entry_wf :: "rib_store \<Rightarrow> RibEntry \<Rightarrow> bool" where
  "entry_wf h e \<longleftrightarrow>
     keys_distinct (routeInfos e) \<and>
     (\<forall>p m. map_of (routeInfos e) p = Some m \<longrightarrow> m \<noteq> [] \<and> keys_distinct m) \<and>
     (\<forall>k a. paths e k = Some a \<longrightarrow>
        a < next_route h \<and> r_prefix (route_at h a) = e_prefix e \<and> route_key (route_at h a) = k) \<and>
     allPathsCount e = of_nat (length (getAllPaths e))"

lemma paths_iff: "paths e (p, i) = Some a \<longleftrightarrow> (\<exists>m. map_of (routeInfos e) p = Some m \<and> map_of m i = Some a)"
  by (auto simp: paths_def getRouteInfo_def split: option.splits)

lemma paths_new [simp]: "paths (new_entry pfx) = Map.empty"
  by (auto simp: paths_def getRouteInfo_def new_entry_def)

lemma entry_wf_new [simp]: "entry_wf h (new_entry pfx)"
  by (simp add: entry_wf_def) (simp add: new_entry_def getAllPaths_def)

lemma set_getAllPaths:
  assumes "entry_wf h e"
  shows "set (getAllPaths e) = ran (paths e)"
proof -
  have d: "keys_distinct (routeInfos e)" "\<And>p m. map_of (routeInfos e) p = Some m \<Longrightarrow> keys_distinct m"
    using assms by (auto simp: entry_wf_def)
  have "a \<in> set (getAllPaths e) \<longleftrightarrow> (\<exists>p m i. map_of (routeInfos e) p = Some m \<and> map_of m i = Some a)" for a
  proof -
    have "a \<in> set (getAllPaths e) \<longleftrightarrow> (\<exists>p m i. (p, m) \<in> set (routeInfos e) \<and> (i, a) \<in> set m)"
      by (force simp: getAllPaths_def)
    then show ?thesis by (metis d in_set_map_of)
  qed
  then show ?thesis by (fastforce simp: ran_def paths_iff)
qed

lemma length_getAllPaths: "length (getAllPaths e) = total_size (routeInfos e)"
  by (simp add: getAllPaths_def length_concat_inner)

text \<open>Different places of the map hold different routes, since a route knows its place.\<close>

lemma paths_inj: "entry_wf h e \<Longrightarrow> paths e k = Some a \<Longrightarrow> paths e k' = Some a \<Longrightarrow> k = k'"
  by (metis entry_wf_def)

lemma distinct_getAllPaths: "entry_wf h e \<Longrightarrow> distinct (getAllPaths e)"
proof -
  assume wf: "entry_wf h e"
  have gen: "distinct (concat (map (\<lambda>(p, m). map snd m) ms))"
    if "keys_distinct ms" "\<And>p m. (p, m) \<in> set ms \<Longrightarrow> keys_distinct m"
       "\<And>p m i a p' m' i'. (p, m) \<in> set ms \<Longrightarrow> (i, a) \<in> set m \<Longrightarrow> (p', m') \<in> set ms \<Longrightarrow> (i', a) \<in> set m' \<Longrightarrow> p = p' \<and> i = i'"
    for ms :: "(peer_id \<times> (u32 \<times> nat) list) list"
    using that
  proof (induction ms)
    case (Cons pm ms)
    obtain p m where pm: "pm = (p, m)" by (cases pm)
    have m: "keys_distinct m" using Cons.prems(2) [of p m] pm by simp
    have "inj_on snd (set m)"
    proof (rule inj_onI)
      fix x y assume "x \<in> set m" "y \<in> set m" "snd x = snd y"
      then have "(fst x, snd x) \<in> set m" "(fst y, snd x) \<in> set m" by (metis prod.collapse)+
      then have "fst x = fst y" using Cons.prems(3) [of p m "fst x" "snd x" p m "fst y"] pm by simp
      with \<open>snd x = snd y\<close> show "x = y" by (simp add: prod_eq_iff)
    qed
    moreover have "distinct m" using m by (simp add: keys_distinct_def distinct_map)
    ultimately have "distinct (map snd m)" by (simp add: distinct_map)
    moreover have "a \<notin> snd ` set m" if a: "a \<in> set (concat (map (\<lambda>(p, m). map snd m) ms))" for a
    proof
      assume "a \<in> snd ` set m"
      then obtain i where i: "(i, a) \<in> set m" by auto
      from a obtain p' m' i' where p': "(p', m') \<in> set ms" "(i', a) \<in> set m'" by auto
      with i have "p = p'" using Cons.prems(3) [of p m i a p' m' i'] pm by simp
      moreover have "p' \<in> fst ` set ms" using p'(1) by force
      ultimately have "p \<in> fst ` set ms" by simp
      then show False using Cons.prems(1) pm by simp
    qed
    moreover have "distinct (concat (map (\<lambda>(p, m). map snd m) ms))"
    proof (rule Cons.IH)
      show "keys_distinct ms" using Cons.prems(1) pm by simp
      show "keys_distinct m'" if "(p', m') \<in> set ms" for p' m' using Cons.prems(2) [of p' m'] that by simp
      show "p1 = p2 \<and> i1 = i2" if "(p1, m1) \<in> set ms" "(i1, a) \<in> set m1" "(p2, m2) \<in> set ms" "(i2, a) \<in> set m2"
        for p1 m1 i1 a p2 m2 i2 using Cons.prems(3) [of p1 m1 i1 a p2 m2 i2] that by simp
    qed
    ultimately show ?case unfolding pm list.map concat.simps prod.case distinct_append set_map by blast
  qed simp
  have kd: "keys_distinct (routeInfos e)" "\<And>p m. map_of (routeInfos e) p = Some m \<Longrightarrow> keys_distinct m"
    using wf by (auto simp: entry_wf_def)
  show ?thesis
    unfolding getAllPaths_def
  proof (rule gen)
    show "keys_distinct (routeInfos e)" by (rule kd)
    show m: "keys_distinct m" if "(p, m) \<in> set (routeInfos e)" for p m
      using kd that by (simp add: in_set_map_of)
    show "p = p' \<and> i = i'" if "(p, m) \<in> set (routeInfos e)" "(i, a) \<in> set m"
      "(p', m') \<in> set (routeInfos e)" "(i', a) \<in> set m'" for p m i a p' m' i'
    proof -
      have "paths e (p, i) = Some a" "paths e (p', i') = Some a"
        using that kd(1) m [OF that(1)] m [OF that(3)] by (auto simp: paths_iff in_set_map_of)
      from paths_inj [OF wf this] show ?thesis by simp
    qed
  qed
qed

lemma entry_wf_outer: "entry_wf h e \<Longrightarrow> keys_distinct (routeInfos e)"
  by (simp add: entry_wf_def)

lemma entry_wf_inner: "entry_wf h e \<Longrightarrow> map_of (routeInfos e) p = Some m \<Longrightarrow> m \<noteq> [] \<and> keys_distinct m"
  unfolding entry_wf_def by blast

lemma entry_wf_route: "entry_wf h e \<Longrightarrow> paths e k = Some a \<Longrightarrow>
    a < next_route h \<and> r_prefix (route_at h a) = e_prefix e \<and> route_key (route_at h a) = k"
  unfolding entry_wf_def by blast

lemma entry_wf_count: "entry_wf h e \<Longrightarrow> allPathsCount e = of_nat (length (getAllPaths e))"
  by (simp add: entry_wf_def)

lemma entry_wfI:
  assumes "keys_distinct (routeInfos e)"
    "\<And>p m. map_of (routeInfos e) p = Some m \<Longrightarrow> m \<noteq> [] \<and> keys_distinct m"
    "\<And>k a. paths e k = Some a \<Longrightarrow>
       a < next_route h \<and> r_prefix (route_at h a) = e_prefix e \<and> route_key (route_at h a) = k"
    "allPathsCount e = of_nat (length (getAllPaths e))"
  shows "entry_wf h e"
  using assms unfolding entry_wf_def by blast

subsection \<open>Stores that agree on the places of routes\<close>

definition same_places :: "rib_store \<Rightarrow> rib_store \<Rightarrow> bool" where
  "same_places h h' \<longleftrightarrow> next_route h \<le> next_route h' \<and>
     (\<forall>a < next_route h. r_prefix (route_at h' a) = r_prefix (route_at h a) \<and> route_key (route_at h' a) = route_key (route_at h a))"

lemma same_places_refl [simp]: "same_places h h"
  by (simp add: same_places_def)

lemma same_places_trans: "same_places h h' \<Longrightarrow> same_places h' h'' \<Longrightarrow> same_places h h''"
  by (auto simp: same_places_def)

lemma entry_wf_places: "entry_wf h e \<Longrightarrow> same_places h h' \<Longrightarrow> entry_wf h' e"
  by (auto simp: entry_wf_def same_places_def) (metis less_le_trans)+

lemma route_key_upd [simp]: "route_key (r\<lparr>nexthopInfo := nh\<rparr>) = route_key r"
  "route_key (r\<lparr>pathIdToSend := i\<rparr>) = route_key r" "route_key (r\<lparr>bestPathFilterConfig := c\<rparr>) = route_key r"
  by (simp_all add: route_key_def)

subsection \<open>Insertion and removal in the two-level map\<close>

lemma paths_insert:
  assumes "routeInfos e' = AList.update p
    (case map_of (routeInfos e) p of None \<Rightarrow> [(i, a)] | Some m \<Rightarrow> AList.update i a m) (routeInfos e)"
  shows "paths e' = (paths e)((p, i) \<mapsto> a)"
proof (rule ext)
  fix k show "paths e' k = ((paths e)((p, i) \<mapsto> a)) k"
    by (cases k) (auto simp: assms paths_def getRouteInfo_def split: option.splits)
qed

lemma paths_remove:
  assumes "map_of (routeInfos e) p = Some m"
    "routeInfos e' = (if AList.delete i m = [] then AList.delete p (routeInfos e)
                      else AList.update p (AList.delete i m) (routeInfos e))"
  shows "paths e' = (paths e)((p, i) := None)"
proof (rule ext)
  have d: "map_of m j = None" if "AList.delete i m = []" "j \<noteq> i" for j
    using map_of_delete [of i m] that by (metis fun_upd_other map_of.simps(1))
  fix k show "paths e' k = ((paths e)((p, i) := None)) k"
    using assms d by (cases k) (auto simp: paths_def getRouteInfo_def split: option.splits)
qed

lemma entry_wf_insert:
  assumes wf: "entry_wf h e" and u: "routeInfos e' = AList.update p
      (case map_of (routeInfos e) p of None \<Rightarrow> [(i, a)] | Some m \<Rightarrow> AList.update i a m) (routeInfos e)"
    and c: "allPathsCount e' = (if paths e (p, i) = None then allPathsCount e + 1 else allPathsCount e)"
    and h: "same_places h h'" "e_prefix e' = e_prefix e" "a < next_route h'"
      "r_prefix (route_at h' a) = e_prefix e" "route_key (route_at h' a) = (p, i)"
  shows "entry_wf h' e'"
proof -
  let ?m = "case map_of (routeInfos e) p of None \<Rightarrow> [(i, a)] | Some m \<Rightarrow> AList.update i a m"
  have wf': "entry_wf h' e" using wf h(1) by (rule entry_wf_places)
  have m: "?m \<noteq> []" "keys_distinct ?m"
    using entry_wf_inner [OF wf, of p] by (auto split: option.splits)
  have "length (getAllPaths e') = (if paths e (p, i) = None then length (getAllPaths e) + 1 else length (getAllPaths e))"
    using total_size_update [of p ?m "routeInfos e"]
    by (auto simp: length_getAllPaths u paths_def getRouteInfo_def length_update split: option.splits if_splits)
  then show ?thesis
    using m c entry_wf_outer [OF wf] entry_wf_inner [OF wf] entry_wf_count [OF wf] entry_wf_route [OF wf'] h
    by (intro entry_wfI) (auto simp: u paths_insert [OF u] split: if_splits)
qed

lemma entry_wf_remove:
  assumes wf: "entry_wf h e" and m: "map_of (routeInfos e) p = Some m" "map_of m i = Some a"
    and u: "routeInfos e' = (if AList.delete i m = [] then AList.delete p (routeInfos e)
                      else AList.update p (AList.delete i m) (routeInfos e))"
    and c: "allPathsCount e' = allPathsCount e - 1"
    and h: "same_places h h'" "e_prefix e' = e_prefix e"
  shows "entry_wf h' e'"
proof -
  have wf': "entry_wf h' e" using wf h(1) by (rule entry_wf_places)
  have d: "keys_distinct m" "keys_distinct (routeInfos e)" using entry_wf_inner [OF wf m(1)] entry_wf_outer [OF wf] by auto
  have pos: "length m > 0" using m(2) by (cases m) auto
  have "length (getAllPaths e') + 1 = length (getAllPaths e)"
  proof (cases "AList.delete i m = []")
    case True
    then have "length m = 1" using length_delete [OF d(1), of i] m(2) pos by (metis One_nat_def Suc_pred diff_is_0_eq' le_numeral_extra(4) length_0_conv option.simps(3))
    then show ?thesis using True total_size_delete [OF d(2), of p] m by (simp add: length_getAllPaths u)
  next
    case False
    then show ?thesis
      using total_size_update [of p "AList.delete i m" "routeInfos e"] m pos length_delete [OF d(1), of i]
      by (cases "length m") (simp_all add: length_getAllPaths u)
  qed
  then have "allPathsCount e' = of_nat (length (getAllPaths e'))"
    using entry_wf_count [OF wf] c by (metis add_diff_cancel_right' of_nat_1 of_nat_add)
  then show ?thesis
    using d entry_wf_inner [OF wf] entry_wf_route [OF wf'] h
    by (intro entry_wfI) (auto simp: u paths_remove [OF m(1) u] split: if_splits)
qed

subsection \<open>New routes\<close>

definition path_ok :: "published_path \<Rightarrow> bool" where
  "path_ok att \<longleftrightarrow> path_published att \<and> bp_localPref (path_of att) \<noteq> None"

lemma mkRouteInfo_defined: "mkRouteInfo pfx peer att i s inst \<noteq> None \<longleftrightarrow> path_ok att"
  by (simp add: mkRouteInfo_def path_ok_def Let_def)

lemma flag_fields [simp]:
  "r_prefix (set_flag f r) = r_prefix r" "r_peer (set_flag f r) = r_peer r" "r_attrs (set_flag f r) = r_attrs r"
  "receivedPathId (set_flag f r) = receivedPathId r" "pathIdToSend (set_flag f r) = pathIdToSend r"
  "installToFib (set_flag f r) = installToFib r" "nexthopInfo (set_flag f r) = nexthopInfo r"
  by (simp_all add: set_flag_def)

lemma mkRouteInfo_fields:
  assumes "mkRouteInfo pfx peer att i s inst = Some r"
  shows "r_prefix r = pfx" "r_peer r = peer" "r_attrs r = att" "receivedPathId r = i" "pathIdToSend r = s"
    "installToFib r = inst" "nexthopInfo r = None" "route_key r = (peerId peer, i)"
  using assms
  by (auto simp: mkRouteInfo_def Let_def setRouteLocal_def setRouteExternal_def setRouteConfedExternal_def route_key_def
      split: if_splits option.splits)

lemma linkRouteInfo_store:
  "next_route (linkRouteInfoToNexthop a nh h) = next_route h"
  "route_at (linkRouteInfoToNexthop a nh h) b =
     (if b = a \<and> nexthopInfo (route_at h a) = None \<and> nh \<noteq> None then (route_at h a)\<lparr>nexthopInfo := nh\<rparr> else route_at h b)"
  by (auto simp: linkRouteInfoToNexthop_def linkRouteInfo_def upd_nexthop_def upd_route_def split: option.splits)

subsection \<open>The contract of the callback\<close>

locale route_unlinker =
  fixes unlinkFn :: "nat \<Rightarrow> rib_store \<times> 'c \<Rightarrow> bool \<times> rib_store \<times> 'c"
  assumes unlink_next: "next_route (fst (snd (unlinkFn a w))) = next_route (fst w)"
    and unlink_route: "route_at (fst (snd (unlinkFn a w))) b =
      (if b = a then (route_at (fst w) a)\<lparr>nexthopInfo := None\<rparr> else route_at (fst w) b)"
begin

lemma unlink_places: "same_places (fst w) (fst (snd (unlinkFn a w)))"
  by (simp add: same_places_def unlink_next unlink_route)

lemma withdraw_absent:
  assumes "paths e (p, i) = None"
  shows "withdrawPath unlinkFn p i e w = (False, e, w)"
  using assms by (auto simp: withdrawPath_def paths_def getRouteInfo_def split: option.splits)

lemma withdraw_present:
  assumes wf: "entry_wf (fst w) e" and a: "paths e (p, i) = Some a"
  shows "\<exists>e'. withdrawPath unlinkFn p i e w = (True, e', snd (unlinkFn a w)) \<and>
    paths e' = (paths e)((p, i) := None) \<and> entry_wf (fst (snd (unlinkFn a w))) e' \<and> needPathSelection e' \<and>
    e' = e\<lparr>routeInfos := routeInfos e', allPathsCount := allPathsCount e - 1, needPathSelection := True\<rparr>"
proof -
  obtain m where m: "map_of (routeInfos e) p = Some m" "map_of m i = Some a" using a by (auto simp: paths_iff)
  let ?ri = "if AList.delete i m = [] then AList.delete p (routeInfos e) else AList.update p (AList.delete i m) (routeInfos e)"
  let ?e = "e\<lparr>routeInfos := ?ri, allPathsCount := allPathsCount e - 1, needPathSelection := True\<rparr>"
  have "withdrawPath unlinkFn p i e w = (True, ?e, snd (unlinkFn a w))"
    using m by (simp add: withdrawPath_def Let_def)
  moreover have "paths ?e = (paths e)((p, i) := None)" by (rule paths_remove [OF m(1)]) simp
  moreover have "entry_wf (fst (snd (unlinkFn a w))) ?e"
    by (rule entry_wf_remove [OF wf m _ _ unlink_places]) simp_all
  ultimately show ?thesis by (intro exI [of _ ?e]) simp
qed

lemma announce_changed:
  assumes wf: "entry_wf (fst w) e" and r: "mkRouteInfo (e_prefix e) peer att i
      (Option.bind (paths e (peerId peer, i)) (\<lambda>a. pathIdToSend (route_at (fst w) a))) inst = Some r"
    and ch: "\<not> (\<exists>a. paths e (peerId peer, i) = Some a \<and> path_ptr (r_attrs (route_at (fst w) a)) = path_ptr att \<and>
      peer_eq (r_peer (route_at (fst w) a)) peer)"
  defines "n \<equiv> next_route (fst w)"
  shows "\<exists>e' w'. announcePath unlinkFn peer att inst i nh e w = Some (True, e', w') \<and>
    paths e' = (paths e)((peerId peer, i) \<mapsto> n) \<and> entry_wf (fst w') e' \<and> needPathSelection e' \<and>
    next_route (fst w') = Suc n \<and>
    (\<forall>b. route_at (fst w') b = (if b = n then r\<lparr>nexthopInfo := nh\<rparr>
       else if paths e (peerId peer, i) = Some b then (route_at (fst w) b)\<lparr>nexthopInfo := None\<rparr> else route_at (fst w) b)) \<and>
    e' = e\<lparr>routeInfos := routeInfos e', allPathsCount := allPathsCount e', needPathSelection := True\<rparr>"
proof -
  let ?h = "linkRouteInfoToNexthop n nh ((fst w)\<lparr>route_at := (route_at (fst w))(n := r), next_route := Suc n\<rparr>)"
  let ?w = "case paths e (peerId peer, i) of None \<Rightarrow> (?h, snd w) | Some b \<Rightarrow> snd (unlinkFn b (?h, snd w))"
  let ?m = "case map_of (routeInfos e) (peerId peer) of None \<Rightarrow> [(i, n)] | Some m \<Rightarrow> AList.update i n m"
  let ?e = "e\<lparr>routeInfos := AList.update (peerId peer) ?m (routeInfos e),
    allPathsCount := (if paths e (peerId peer, i) = None then allPathsCount e + 1 else allPathsCount e), needPathSelection := True\<rparr>"
  have old: "Option.bind (map_of (routeInfos e) (peerId peer)) (\<lambda>m. map_of m i) = paths e (peerId peer, i)"
    by (auto simp: paths_def getRouteInfo_def split: option.splits)
  have res: "announcePath unlinkFn peer att inst i nh e w = Some (True, ?e, ?w)"
    using r ch unfolding announcePath_def Let_def old
    by (auto simp: new_route_def n_def split: option.splits)
  have n: "b \<noteq> n" if "paths e (peerId peer, i) = Some b" for b
    using entry_wf_route [OF wf that] by (simp add: n_def)
  have link: "route_at ?h b = (if b = n then r\<lparr>nexthopInfo := nh\<rparr> else route_at (fst w) b)" for b
    using mkRouteInfo_fields(7) [OF r] by (cases nh) (auto simp: linkRouteInfo_store)
  have routes: "route_at (fst ?w) b = (if b = n then r\<lparr>nexthopInfo := nh\<rparr>
       else if paths e (peerId peer, i) = Some b then (route_at (fst w) b)\<lparr>nexthopInfo := None\<rparr> else route_at (fst w) b)" for b
    using n by (cases "paths e (peerId peer, i)") (auto simp: link unlink_route)
  have nxt: "next_route (fst ?w) = Suc n"
    by (cases "paths e (peerId peer, i)") (simp_all add: linkRouteInfo_store unlink_next)
  have places: "same_places (fst w) (fst ?w)"
    using nxt by (auto simp: same_places_def routes n_def)
  have "entry_wf (fst ?w) ?e"
    by (rule entry_wf_insert [OF wf _ _ places, where p = "peerId peer" and i = i and a = n])
      (use mkRouteInfo_fields [OF r] in \<open>simp_all add: nxt routes\<close>)
  moreover have "paths ?e = (paths e)((peerId peer, i) \<mapsto> n)" by (rule paths_insert) simp
  ultimately show ?thesis
    using res nxt routes by (intro exI [of _ ?e] exI [of _ ?w]) simp
qed

end

text \<open>The contract holds when no callback is given and the route is only unlinked.\<close>

interpretation plain: route_unlinker "unlinkRouteInfoFromNexthop None"
  by unfold_locales
    (auto simp: unlinkRouteInfoFromNexthop_def unlinkFromNexthopInfo_def upd_route_def upd_nexthop_def split: prod.splits option.splits)

end
