(* ===== verification/Rib_Select.thy ===== *)
theory Rib_Select
  imports Rib_Update
begin

text \<open>
  What path selection does to an entry and to the store: it never aborts, it selects what the decision
  process says of the paths whose next hop is resolved, it keeps the paths and everything that was
  advertised, and it reports every change of the best path and of the next hops.
\<close>

subsection \<open>The frame of path selection\<close>

text \<open>Path selection writes only the path id to send and the recorded filter of the paths of the entry.\<close>

definition same_route :: "RouteInfo \<Rightarrow> RouteInfo \<Rightarrow> bool" where
  "same_route r r' \<longleftrightarrow> r'\<lparr>pathIdToSend := pathIdToSend r, bestPathFilterConfig := bestPathFilterConfig r\<rparr> = r"

definition sel_frame :: "nat set \<Rightarrow> rib_store \<Rightarrow> rib_store \<Rightarrow> bool" where
  "sel_frame S h h' \<longleftrightarrow>
     nexthopInfoMap h' = nexthopInfoMap h \<and> next_route h' = next_route h \<and>
     (\<forall>a. same_route (route_at h a) (route_at h' a)) \<and> (\<forall>a. a \<notin> S \<longrightarrow> route_at h' a = route_at h a) \<and>
     (\<forall>a i. sendId h a = Some i \<longrightarrow> sendId h' a = Some i)"

lemma same_route_fields:
  assumes "same_route r r'"
  shows "r_prefix r' = r_prefix r" "r_peer r' = r_peer r" "r_attrs r' = r_attrs r" "receivedPathId r' = receivedPathId r"
    "installToFib r' = installToFib r" "status r' = status r" "ucmpWeight r' = ucmpWeight r" "nexthopInfo r' = nexthopInfo r"
  using arg_cong [OF assms [unfolded same_route_def], of r_prefix] arg_cong [OF assms [unfolded same_route_def], of r_peer]
    arg_cong [OF assms [unfolded same_route_def], of r_attrs] arg_cong [OF assms [unfolded same_route_def], of receivedPathId]
    arg_cong [OF assms [unfolded same_route_def], of installToFib] arg_cong [OF assms [unfolded same_route_def], of status]
    arg_cong [OF assms [unfolded same_route_def], of ucmpWeight] arg_cong [OF assms [unfolded same_route_def], of nexthopInfo]
  by simp_all

lemma same_routeI:
  assumes "r_prefix r' = r_prefix r" "r_peer r' = r_peer r" "r_attrs r' = r_attrs r" "receivedPathId r' = receivedPathId r"
    "installToFib r' = installToFib r" "status r' = status r" "ucmpWeight r' = ucmpWeight r" "nexthopInfo r' = nexthopInfo r"
  shows "same_route r r'"
  using assms by (simp add: same_route_def)

lemma same_route_trans: "same_route r r' \<Longrightarrow> same_route r' r'' \<Longrightarrow> same_route r r''"
  by (rule same_routeI) (simp_all add: same_route_fields)

lemma same_route_upd [simp]:
  "same_route r r" "same_route r (r\<lparr>pathIdToSend := i\<rparr>)" "same_route r (r\<lparr>bestPathFilterConfig := c\<rparr>)"
  by (simp_all add: same_route_def)

lemma sel_frame_refl [simp]: "sel_frame S h h"
  by (simp add: sel_frame_def)

lemma sel_frame_trans: "sel_frame S h h' \<Longrightarrow> sel_frame S h' h'' \<Longrightarrow> sel_frame S h h''"
  by (auto simp: sel_frame_def intro: same_route_trans)

lemma sel_frame_mono: "sel_frame S h h' \<Longrightarrow> S \<subseteq> T \<Longrightarrow> sel_frame T h h'"
  by (auto simp: sel_frame_def)

lemma sel_frame_map [simp]: "sel_frame S h (h'\<lparr>next_map := n\<rparr>) = sel_frame S h h'"
  by (simp add: sel_frame_def)

lemma sel_frame_fields:
  assumes "sel_frame S h h'"
  shows "r_prefix (route_at h' a) = r_prefix (route_at h a)" "r_peer (route_at h' a) = r_peer (route_at h a)"
    "r_attrs (route_at h' a) = r_attrs (route_at h a)" "receivedPathId (route_at h' a) = receivedPathId (route_at h a)"
    "installToFib (route_at h' a) = installToFib (route_at h a)" "status (route_at h' a) = status (route_at h a)"
    "ucmpWeight (route_at h' a) = ucmpWeight (route_at h a)" "nexthopInfo (route_at h' a) = nexthopInfo (route_at h a)"
    "nexthopInfoMap h' = nexthopInfoMap h" "next_route h' = next_route h"
  using assms same_route_fields [of "route_at h a" "route_at h' a"] by (simp_all add: sel_frame_def)

text \<open>What selection reads of a route is in the frame.\<close>

lemma sel_frame_reads:
  assumes "sel_frame S h h'"
  shows "decision_key ff cc h' = decision_key ff cc h" "tiebreak_key cc h' = tiebreak_key cc h"
    "route_isResolvedForSelection h' (route_at h' a) = route_isResolvedForSelection h (route_at h a)"
    "route_ok h' = route_ok h" "address_ok h' = address_ok h" "live h' = live h" "route_key (route_at h' a) = route_key (route_at h a)"
  using sel_frame_fields [OF assms]
  by (simp_all add: fun_eq_iff decision_key_def tiebreak_key_def route_isResolvedForSelection_def route_ok_def
      address_ok_def live_def route_key_def getIgpCostValue_def getBgpRouterId_def getIsRouteLocal_def getIsRouteExternal_def
      getIsRouteConfedExternal_def getIsRouteDeleted_def has_flag_def Let_def)

lemma sel_frame_places: "sel_frame S h h' \<Longrightarrow> same_places h h'"
  using sel_frame_fields(1,10) sel_frame_reads(7) by (simp add: same_places_def)

subsection \<open>The selectors\<close>

definition selectors_ok :: "BgpBestpathFeatures \<Rightarrow> bool \<Rightarrow> RouteFilter list \<Rightarrow> RouteFilter list \<Rightarrow> bool" where
  "selectors_ok ff cc mp bp \<longleftrightarrow>
     mkRouteInfoSelector ff (getBaseRouteFilterConfigsMultiPath ff cc) = Some mp \<and>
     mkRouteInfoSelector ff (getRouteFilterConfigsBestPath cc) = Some bp"

definition route_fine :: "rib_store \<Rightarrow> nat \<Rightarrow> bool" where
  "route_fine h a \<longleftrightarrow> route_ok h a \<and> address_ok h a \<and> live h a"

lemma sel_frame_fine: "sel_frame S h h' \<Longrightarrow> route_fine h' = route_fine h"
  by (simp add: fun_eq_iff route_fine_def sel_frame_reads)

lemma clear_frame: "sel_frame (set routes) h (clear_criteria routes h)"
  by (auto simp: sel_frame_def)

lemma select_frame:
  assumes "chain_ok (clear_criteria routes h) routes fs"
  shows "\<exists>h'. selectRoutesAndSetRejectionFilter fs routes h = Some (survivors (clear_criteria routes h) fs routes, h') \<and>
    sel_frame (set routes) h h' \<and> next_map h' = next_map h"
  using selectRoutesAndSet_simple [OF assms] by (auto simp: sel_frame_def)

lemma best_routes_subset: "set (best_routes key routes) \<subseteq> set routes"
  by (auto simp: best_routes_def)

lemma multipath_select:
  assumes sel: "selectors_ok ff cc mp bp" and fine: "\<forall>a\<in>set routes. route_fine h a" and ne: "routes \<noteq> []"
  shows "\<exists>h'. selectRoutesAndSetRejectionFilter mp routes h = Some (best_routes (decision_key ff cc h) routes, h') \<and>
    best_routes (decision_key ff cc h) routes \<noteq> [] \<and> sel_frame (set routes) h h' \<and> next_map h' = next_map h"
proof -
  let ?h = "clear_criteria routes h"
  note fr = clear_frame [of routes h]
  have "filter (live ?h) routes = routes" using fine by (simp add: sel_frame_reads [OF fr] route_fine_def)
  moreover have "\<forall>a\<in>set routes. route_ok ?h a" using fine by (simp add: sel_frame_reads [OF fr] route_fine_def)
  ultimately have "chain_ok ?h routes mp" "survivors ?h mp routes = best_routes (decision_key ff cc h) routes"
    "survivors ?h mp routes \<noteq> []"
    using multipath_survivors [of routes ?h ff cc] sel ne by (auto simp: selectors_ok_def sel_frame_reads [OF fr])
  with select_frame [of routes h mp] show ?thesis by auto
qed

lemma bestpath_select:
  assumes sel: "selectors_ok ff cc mp bp" and fine: "\<forall>a\<in>set routes. route_fine h a" and ne: "routes \<noteq> []"
  shows "\<exists>h'. selectRoutesAndSetRejectionFilter bp routes h = Some (best_routes (tiebreak_key cc h) routes, h') \<and>
    best_routes (tiebreak_key cc h) routes \<noteq> [] \<and> sel_frame (set routes) h h' \<and> next_map h' = next_map h"
proof -
  let ?h = "clear_criteria routes h"
  note fr = clear_frame [of routes h]
  have "\<forall>a\<in>set routes. route_ok ?h a \<and> address_ok ?h a" using fine by (simp add: sel_frame_reads [OF fr] route_fine_def)
  then have "chain_ok ?h routes bp" "survivors ?h bp routes = best_routes (tiebreak_key cc h) routes" "survivors ?h bp routes \<noteq> []"
    using bestpath_survivors [of routes ?h ff cc] sel ne by (auto simp: selectors_ok_def sel_frame_reads [OF fr])
  with select_frame [of routes h bp] show ?thesis by auto
qed

subsection \<open>The phases\<close>

text \<open>What path selection keeps of an entry: the paths and what was advertised.\<close>

definition kept :: "RibEntry \<Rightarrow> RibEntry \<Rightarrow> bool" where
  "kept e e' \<longleftrightarrow>
     e_prefix e' = e_prefix e \<and> routeInfos e' = routeInfos e \<and> allPathsCount e' = allPathsCount e \<and>
     advertisedAggregateReceivedUcmpWeight e' = advertisedAggregateReceivedUcmpWeight e \<and>
     advertisedAggregateLocalUcmpWeight e' = advertisedAggregateLocalUcmpWeight e \<and>
     ribPolicyUcmpWeight e' = ribPolicyUcmpWeight e \<and> advertisedRibPolicyUcmpWeight e' = advertisedRibPolicyUcmpWeight e \<and>
     advertisedWeightedNexthops e' = advertisedWeightedNexthops e \<and> advertisedMultipaths e' = advertisedMultipaths e \<and>
     advertisedBestpath e' = advertisedBestpath e \<and> isPartialDrain e' = isPartialDrain e \<and>
     advertisedIsPartialDrain e' = advertisedIsPartialDrain e \<and> hasFibOutState e' = hasFibOutState e \<and>
     e_ribVersion e' = e_ribVersion e"

lemma kept_trans: "kept e e' \<Longrightarrow> kept e' e'' \<Longrightarrow> kept e e''"
  by (simp add: kept_def)

lemma kept_paths: "kept e e' \<Longrightarrow> paths e' = paths e" "kept e e' \<Longrightarrow> getAllPaths e' = getAllPaths e"
  by (simp_all add: kept_def paths_def getRouteInfo_def getAllPaths_def fun_eq_iff)

lemma entry_wf_kept: "entry_wf h e \<Longrightarrow> kept e e' \<Longrightarrow> entry_wf h e'"
  using kept_paths [of e e'] by (simp add: entry_wf_def) (simp add: kept_def)

definition candidates :: "BgpBestpathFeatures \<Rightarrow> rib_store \<Rightarrow> RibEntry \<Rightarrow> nat list" where
  "candidates ff h e = fst (prePathSelectionFiltering ff h e)"

lemma candidates_subset: "set (candidates ff h e) \<subseteq> set (getAllPaths e)"
  by (auto simp: candidates_def prePathSelectionFiltering_def Let_def)

text \<open>Phase 3: every selected path gets an id.\<close>

lemma getPathIdToSend_defined: "\<exists>i I. getPathIdToSend h e = Some (i, e\<lparr>freePathIdInterval := I\<rparr>)"
proof -
  have "\<exists>l r. (if fst (freePathIdInterval e) > snd (freePathIdInterval e)
      then findLargestFreePathIdInterval (usedPathIds h e) kMinPathIDToSend kMaxPathIDToSend
      else Some (freePathIdInterval e)) = Some (l, r)"
    by (simp add: findLargestFreePathIdInterval_def Let_def prod_eq_iff)
  then show ?thesis unfolding getPathIdToSend_def by (elim exE) (simp only: option.case prod.case, blast)
qed

lemma getOrAssign_defined:
  "\<exists>i I h'. getOrAssignSendPathId a (e, h) = Some (i, e\<lparr>freePathIdInterval := I\<rparr>, h') \<and> sel_frame {a} h h' \<and>
     next_map h' = next_map h \<and> sendId h' a = Some i"
proof (cases "sendId h a")
  case None
  obtain i I where "getPathIdToSend h e = Some (i, e\<lparr>freePathIdInterval := I\<rparr>)" using getPathIdToSend_defined by blast
  then show ?thesis
    using None by (intro exI [of _ i] exI [of _ I]) (auto simp: getOrAssignSendPathId_def sel_frame_def upd_route_def)
next
  case (Some i)
  then show ?thesis
    by (intro exI [of _ i] exI [of _ "freePathIdInterval e"] exI [of _ h]) (simp add: getOrAssignSendPathId_def)
qed

lemma assignPathIds_defined:
  "\<exists>I h'. assignPathIds as (e, h) = Some (e\<lparr>freePathIdInterval := I\<rparr>, h') \<and> sel_frame (set as) h h' \<and>
     next_map h' = next_map h \<and> (\<forall>a\<in>set as. sendId h' a \<noteq> None)"
proof (induction as arbitrary: e h)
  case Nil
  then show ?case by (intro exI [of _ "freePathIdInterval e"] exI [of _ h]) simp
next
  case (Cons a as)
  obtain i I h1 where 1: "getOrAssignSendPathId a (e, h) = Some (i, e\<lparr>freePathIdInterval := I\<rparr>, h1)" "sel_frame {a} h h1"
    "next_map h1 = next_map h" "sendId h1 a = Some i" using getOrAssign_defined by blast
  obtain J h2 where 2: "assignPathIds as (e\<lparr>freePathIdInterval := I\<rparr>, h1) = Some (e\<lparr>freePathIdInterval := J\<rparr>, h2)"
    "sel_frame (set as) h1 h2" "next_map h2 = next_map h1" "\<forall>a\<in>set as. sendId h2 a \<noteq> None"
    using Cons.IH [of "e\<lparr>freePathIdInterval := I\<rparr>" h1] by auto
  have "sel_frame (set (a # as)) h h2"
    using sel_frame_mono [OF 1(2), of "set (a # as)"] sel_frame_mono [OF 2(2), of "set (a # as)"]
    by (auto intro: sel_frame_trans)
  moreover have "sendId h2 a = Some i" using 1(4) 2(2) by (simp add: sel_frame_def)
  ultimately show ?case
    using 1 2 by (intro exI [of _ J] exI [of _ h2]) auto
qed

lemma multiPathSelection_defined:
  assumes sel: "selectors_ok ff cc mp bp" and fine: "\<forall>a\<in>set routes. route_fine h a" and ne: "routes \<noteq> []"
  shows "\<exists>I h'. multiPathSelection mp routes (e, h) =
      Some (best_routes (decision_key ff cc h) routes, e\<lparr>freePathIdInterval := I\<rparr>, h') \<and>
    best_routes (decision_key ff cc h) routes \<noteq> [] \<and> sel_frame (set routes) h h' \<and> next_map h' = next_map h \<and>
    (\<forall>a\<in>set (best_routes (decision_key ff cc h) routes). sendId h' a \<noteq> None)"
proof -
  let ?s = "best_routes (decision_key ff cc h) routes"
  obtain h1 where 1: "selectRoutesAndSetRejectionFilter mp routes h = Some (?s, h1)" "?s \<noteq> []"
    "sel_frame (set routes) h h1" "next_map h1 = next_map h" using multipath_select [OF assms] by blast
  obtain I h2 where 2: "assignPathIds ?s (e, h1) = Some (e\<lparr>freePathIdInterval := I\<rparr>, h2)" "sel_frame (set ?s) h1 h2"
    "next_map h2 = next_map h1" "\<forall>a\<in>set ?s. sendId h2 a \<noteq> None" using assignPathIds_defined by blast
  have "sel_frame (set routes) h h2"
    by (rule sel_frame_trans [OF 1(3) sel_frame_mono [OF 2(2) best_routes_subset]])
  with 1 2 show ?thesis by (intro exI [of _ I] exI [of _ h2]) (simp add: multiPathSelection_def)
qed

text \<open>Phases 4 to 6.\<close>

lemma accumulate_kept:
  assumes "accumulateAggregateWeightsAndTopoInfo fo selected oldTopo h e = (m, t, e')"
  shows "kept e e'" "needPathSelection e' = needPathSelection e" "weightedNexthops e' = weightedNexthops e"
  using assms by (auto simp: accumulateAggregateWeightsAndTopoInfo_def Let_def kept_def)

lemma bestPathSelection_defined:
  assumes sel: "selectors_ok ff cc mp bp" and fine: "\<forall>a\<in>set routes. route_fine h a" and ne: "routes \<noteq> []"
  shows "\<exists>h' b. bestPathSelection bp routes (e, h) =
      Some (e\<lparr>bestpath := Some (hd (best_routes (tiebreak_key cc h) routes)), e_installToFib := b\<rparr>, h') \<and>
    sel_frame (set routes) h h' \<and> next_map h' = next_map h"
proof -
  let ?s = "best_routes (tiebreak_key cc h) routes"
  obtain h' where 1: "selectRoutesAndSetRejectionFilter bp routes h = Some (?s, h')" "?s \<noteq> []"
    "sel_frame (set routes) h h'" "next_map h' = next_map h" using bestpath_select [OF assms] by blast
  then obtain a as where as: "?s = a # as" by (cases ?s) simp_all
  show ?thesis unfolding bestPathSelection_def prod.case 1(1) as using 1(3,4)
    by (intro exI [of _ h'] exI [of _ "installToFib (route_at h' a)"]) simp
qed

lemma set_emplace: "set (emplace k v m) \<subseteq> insert (k, v) (set m)"
  by (auto simp: emplace_def)

lemma buildAll_defined:
  assumes "\<forall>a\<in>set as. sendId h a \<noteq> None"
  shows "\<exists>acc'. buildAll fo h sw m as acc = Some acc' \<and>
    set (na_multipaths acc') \<subseteq> set (na_multipaths acc) \<union> {(i, a). a \<in> set as \<and> sendId h a = Some i}"
  using assms
proof (induction as arbitrary: acc)
  case (Cons a as)
  obtain i where i: "sendId h a = Some i" using Cons.prems by auto
  obtain acc1 where 1: "buildOne fo h sw m a acc = Some acc1" "na_multipaths acc1 = emplace i a (na_multipaths acc)"
    using i by (simp add: buildOne_def Let_def)
  obtain acc2 where 2: "buildAll fo h sw m as acc1 = Some acc2"
    "set (na_multipaths acc2) \<subseteq> set (na_multipaths acc1) \<union> {(i, a). a \<in> set as \<and> sendId h a = Some i}"
    using Cons.IH [of acc1] Cons.prems by auto
  then have "set (na_multipaths acc2) \<subseteq> set (na_multipaths acc) \<union> {(i, b). b \<in> set (a # as) \<and> sendId h b = Some i}"
    using set_emplace [of i a "na_multipaths acc"] 1(2) i by auto
  then show ?case using 1 2 by auto
qed simp

lemma build_defined:
  assumes "\<forall>a\<in>set selected. sendId h a \<noteq> None"
  shows "\<exists>ws e'. buildAndNormalizeWeightedNexthops fo selected cu w m h e = Some (ws, e') \<and> kept e e' \<and>
    needPathSelection e' = needPathSelection e \<and> weightedNexthops e' = weightedNexthops e \<and> bestpath e' = bestpath e \<and>
    aggregateReceivedUcmpWeight e' = aggregateReceivedUcmpWeight e \<and>
    aggregateLocalUcmpWeight e' = aggregateLocalUcmpWeight e \<and>
    (\<forall>(i, a)\<in>set (multipaths e'). a \<in> set selected \<and> sendId h a = Some i)"
proof -
  let ?sw = "cu \<and> f32_less f32_zero (aggregateReceivedUcmpWeight e)"
  obtain acc where acc: "buildAll fo h ?sw m selected \<lparr>na_multipaths = [], na_weights = [], na_multiplier = 0, na_total = 0\<rparr> = Some acc"
    "set (na_multipaths acc) \<subseteq> {(i, a). a \<in> set selected \<and> sendId h a = Some i}"
    using buildAll_defined [OF assms, of fo ?sw m "\<lparr>na_multipaths = [], na_weights = [], na_multiplier = 0, na_total = 0\<rparr>"]
    by auto
  have "buildAndNormalizeWeightedNexthops fo selected cu w m h e \<noteq> None"
    unfolding buildAndNormalizeWeightedNexthops_def Let_def acc(1) by simp
  then obtain ws e' where res: "buildAndNormalizeWeightedNexthops fo selected cu w m h e = Some (ws, e')" by auto
  then have "\<exists>b. e' = e\<lparr>multipaths := na_multipaths acc, isUcmpActive := b\<rparr>"
    unfolding buildAndNormalizeWeightedNexthops_def Let_def acc(1) option.case option.inject prod.inject by blast
  with acc(2) show ?thesis by (intro exI [of _ ws] exI [of _ e']) (auto simp: res kept_def)
qed

subsection \<open>Path selection\<close>

definition select_spec ::
  "BgpBestpathFeatures \<Rightarrow> bool \<Rightarrow> rib_store \<Rightarrow> RibEntry \<Rightarrow> bool \<Rightarrow> bool \<Rightarrow> RibEntry \<Rightarrow> rib_store \<Rightarrow> bool" where
  "select_spec ff cc h e bestpathChanged nexthopChanged e' h' \<longleftrightarrow>
     (let sel = best_routes (decision_key ff cc h) (candidates ff h e) in
     sel_frame (set (getAllPaths e)) h h' \<and> kept e e' \<and> \<not> needPathSelection e' \<and>
     bestpath e' = (if candidates ff h e = [] then None else Some (hd (best_routes (tiebreak_key cc h) sel))) \<and>
     (\<forall>a. bestpath e' = Some a \<longrightarrow> a \<in> set (best_routes (tiebreak_key cc h) sel)) \<and>
     (\<forall>(i, a)\<in>set (multipaths e'). a \<in> set sel \<and> sendId h' a = Some i) \<and>
     (weightedNexthops e' = None \<longleftrightarrow> candidates ff h e = []) \<and>
     (next_map h' = next_map h \<and> (weightedNexthops e' = None \<or> weightedNexthops e' = weightedNexthops e) \<or>
      next_map h' = Suc (next_map h) \<and> (\<exists>m. weightedNexthops e' = Some (next_map h, m))) \<and>
     (\<not> nexthopChanged \<longrightarrow> weightedNexthops e' = weightedNexthops e) \<and>
     (\<not> bestpathChanged \<longrightarrow> bestpath e' = bestpath e \<and>
        (bestpath e \<noteq> None \<longrightarrow> f32_eq (aggregateReceivedUcmpWeight e') (aggregateReceivedUcmpWeight e) \<and>
           f32_eq (aggregateLocalUcmpWeight e') (aggregateLocalUcmpWeight e))))"

lemma snapshot_kept:
  assumes "snapshotAndResetForPathSelection e = (input, e')"
  shows "kept e e'" "\<not> needPathSelection e'" "oldBestpath input = bestpath e"
    "oldAggregateReceivedUcmpWeight input = aggregateReceivedUcmpWeight e"
    "oldAggregateLocalUcmpWeight input = aggregateLocalUcmpWeight e"
    "oldMultipathWeightedNexthops input = weightedNexthops e" "weightedNexthops e' = weightedNexthops e"
  using assms by (auto simp: snapshotAndResetForPathSelection_def kept_def)

lemma filtering_kept:
  assumes "prePathSelectionFiltering ff h e = (routes, e')"
  shows "kept e e'" "needPathSelection e' = needPathSelection e" "routes = candidates ff h e"
    "weightedNexthops e' = weightedNexthops e"
  using assms by (auto simp: prePathSelectionFiltering_def candidates_def Let_def kept_def)

lemma candidates_kept: "kept e e' \<Longrightarrow> candidates ff h e' = candidates ff h e"
  by (simp add: candidates_def prePathSelectionFiltering_def kept_paths)

lemma changePair_spec:
  assumes "computeChangePair input t ws (e, h) = ((bc, nc), e', h')" "bestpath e \<noteq> None"
    "weightedNexthops e = oldMultipathWeightedNexthops input"
  shows "kept e e'" "needPathSelection e' = needPathSelection e" "bestpath e' = bestpath e" "multipaths e' = multipaths e"
    "weightedNexthops e' \<noteq> None"
    "next_map h' = next_map h \<and> weightedNexthops e' = weightedNexthops e \<or>
     next_map h' = Suc (next_map h) \<and> (\<exists>m. weightedNexthops e' = Some (next_map h, m))"
    "\<exists>n. h' = h\<lparr>next_map := n\<rparr>"
    "\<not> nc \<Longrightarrow> weightedNexthops e' = weightedNexthops e"
    "\<not> bc \<Longrightarrow> bestpath e' = oldBestpath input \<and>
       f32_eq (aggregateReceivedUcmpWeight e') (oldAggregateReceivedUcmpWeight input) \<and>
       f32_eq (aggregateLocalUcmpWeight e') (oldAggregateLocalUcmpWeight input)"
proof -
  let ?n = "case oldMultipathWeightedNexthops input of None \<Rightarrow> True | Some (_, m) \<Rightarrow> \<not> map_eq ws m"
  have old: "\<not> ?n \<Longrightarrow> oldMultipathWeightedNexthops input \<noteq> None" by (auto split: option.splits)
  have e': "e' = (if ?n then e\<lparr>weightedNexthops := Some (next_map h, ws)\<rparr> else e)"
    and h': "h' = (if ?n then h\<lparr>next_map := next_map h + 1\<rparr> else h)"
    and nc: "nc = (?n \<or> t)"
    and bc: "\<not> bc \<Longrightarrow> oldBestpath input = bestpath e' \<and> f32_eq (aggregateReceivedUcmpWeight e') (oldAggregateReceivedUcmpWeight input) \<and>
       f32_eq (aggregateLocalUcmpWeight e') (oldAggregateLocalUcmpWeight input)"
    using assms(1,2) by (cases ?n; auto simp: computeChangePair_def Let_def split: if_splits)+
  show "kept e e'" "needPathSelection e' = needPathSelection e" "bestpath e' = bestpath e" "multipaths e' = multipaths e"
    by (simp_all add: e' kept_def)
  show "weightedNexthops e' \<noteq> None" using old assms(3) by (cases ?n) (simp_all add: e')
  show "next_map h' = next_map h \<and> weightedNexthops e' = weightedNexthops e \<or>
     next_map h' = Suc (next_map h) \<and> (\<exists>m. weightedNexthops e' = Some (next_map h, m))" by (cases ?n) (simp_all add: e' h')
  show "\<exists>n. h' = h\<lparr>next_map := n\<rparr>" by (cases ?n) (auto simp: h' intro: exI [of _ "next_map h"])
  show "\<not> nc \<Longrightarrow> weightedNexthops e' = weightedNexthops e" by (simp add: nc e')
  show "\<not> bc \<Longrightarrow> bestpath e' = oldBestpath input \<and>
       f32_eq (aggregateReceivedUcmpWeight e') (oldAggregateReceivedUcmpWeight input) \<and>
       f32_eq (aggregateLocalUcmpWeight e') (oldAggregateLocalUcmpWeight input)" using bc by simp
qed

lemma select_none:
  assumes "candidates ff h e = []"
  shows "\<exists>bc nc e'. selectBestPath fo ff mp bp cu w (e, h) = Some ((bc, nc), e', h) \<and> select_spec ff cc h e bc nc e' h"
proof -
  obtain input e1 where 1: "snapshotAndResetForPathSelection e = (input, e1)" by (cases "snapshotAndResetForPathSelection e")
  obtain routes e2 where 2: "prePathSelectionFiltering ff h e1 = (routes, e2)" by (cases "prePathSelectionFiltering ff h e1")
  have r: "routes = []" using filtering_kept(3) [OF 2] candidates_kept [OF snapshot_kept(1) [OF 1]] assms by simp
  have k: "kept e e2" by (rule kept_trans [OF snapshot_kept(1) [OF 1] filtering_kept(1) [OF 2]])
  let ?e = "e2\<lparr>bestpath := None, multipaths := [], e_installToFib := True, weightedNexthops := None\<rparr>"
  have "kept e2 ?e" by (simp add: kept_def)
  then have "kept e ?e" by (rule kept_trans [OF k])
  then show ?thesis
    using assms snapshot_kept [OF 1] filtering_kept(2) [OF 2]
    by (cases "weightedNexthops e") (auto simp: selectBestPath_def 1 2 r select_spec_def Let_def)
qed

lemma select_some:
  assumes sel: "selectors_ok ff cc mp bp" and fine: "\<forall>a\<in>set (getAllPaths e). route_fine h a" and ne: "candidates ff h e \<noteq> []"
  shows "\<exists>bc nc e' h'. selectBestPath fo ff mp bp cu w (e, h) = Some ((bc, nc), e', h') \<and> select_spec ff cc h e bc nc e' h'"
proof -
  let ?c = "candidates ff h e" let ?S = "set (getAllPaths e)"
  let ?s = "best_routes (decision_key ff cc h) ?c"
  obtain input e1 where 1: "snapshotAndResetForPathSelection e = (input, e1)" by (cases "snapshotAndResetForPathSelection e")
  obtain routes e2 where 2: "prePathSelectionFiltering ff h e1 = (routes, e2)" by (cases "prePathSelectionFiltering ff h e1")
  have r: "routes = ?c" using filtering_kept(3) [OF 2] candidates_kept [OF snapshot_kept(1) [OF 1]] by simp
  have cS: "set ?c \<subseteq> ?S" by (rule candidates_subset)
  have cf: "\<forall>a\<in>set ?c. route_fine h a" using fine cS by blast
  obtain I h3 where 3: "multiPathSelection mp ?c (e2, h) = Some (?s, e2\<lparr>freePathIdInterval := I\<rparr>, h3)" "?s \<noteq> []"
    "sel_frame (set ?c) h h3" "next_map h3 = next_map h" "\<forall>a\<in>set ?s. sendId h3 a \<noteq> None"
    using multiPathSelection_defined [OF sel cf ne, of e2] by blast
  let ?e3 = "e2\<lparr>freePathIdInterval := I\<rparr>"
  obtain m t e4 where 4: "accumulateAggregateWeightsAndTopoInfo fo ?s (oldNexthopAndTopoInfo input) h3 ?e3 = (m, t, e4)"
    by (metis prod_cases3)
  have sc: "set ?s \<subseteq> set ?c" by (rule best_routes_subset)
  then have sf: "\<forall>a\<in>set ?s. route_fine h3 a" using cf sel_frame_fine [OF 3(3)] by auto
  let ?b = "hd (best_routes (tiebreak_key cc h) ?s)"
  have b: "?b \<in> set (best_routes (tiebreak_key cc h) ?s)"
    using bestpath_select [OF sel sf 3(2)] sel_frame_reads(2) [OF 3(3), of cc] by auto
  obtain h5 f where 5: "bestPathSelection bp ?s (e4, h3) = Some (e4\<lparr>bestpath := Some ?b, e_installToFib := f\<rparr>, h5)"
    "sel_frame (set ?s) h3 h5" "next_map h5 = next_map h3"
    using bestPathSelection_defined [OF sel sf 3(2), of e4] sel_frame_reads(2) [OF 3(3), of cc] by auto
  let ?e5 = "e4\<lparr>bestpath := Some ?b, e_installToFib := f\<rparr>"
  have "\<forall>a\<in>set ?s. sendId h5 a \<noteq> None" using 3(5) 5(2) by (auto simp: sel_frame_def)
  from build_defined [OF this, of fo cu w m ?e5]
  obtain ws e6 where 6: "buildAndNormalizeWeightedNexthops fo ?s cu w m h5 ?e5 = Some (ws, e6)" "kept ?e5 e6"
    "needPathSelection e6 = needPathSelection e4" "weightedNexthops e6 = weightedNexthops e4" "bestpath e6 = Some ?b"
    "\<forall>(i, a)\<in>set (multipaths e6). a \<in> set ?s \<and> sendId h5 a = Some i" by auto
  obtain bc nc e7 h7 where 7: "computeChangePair input t ws (e6, h5) = ((bc, nc), e7, h7)" by (metis prod_cases3 prod.collapse)
  have w6: "weightedNexthops e6 = weightedNexthops e"
    using 6(4) accumulate_kept(3) [OF 4] filtering_kept(4) [OF 2] snapshot_kept(7) [OF 1] by simp
  note c = changePair_spec [OF 7, unfolded 6(5) w6 snapshot_kept(6) [OF 1], simplified]
  have "selectBestPath fo ff mp bp cu w (e, h) = Some ((bc, nc), e7, h7)"
    using ne by (simp add: selectBestPath_def 1 2 r 3(1) 4 5(1) 6(1) 7 del: split_paired_Ex)
  moreover have "kept e e7"
  proof -
    have "kept e e2" by (rule kept_trans [OF snapshot_kept(1) [OF 1] filtering_kept(1) [OF 2]])
    moreover have "kept e2 e4" using accumulate_kept(1) [OF 4] by (simp add: kept_def)
    moreover have "kept e4 ?e5" by (simp add: kept_def)
    ultimately show ?thesis using 6(2) c(1) by (blast intro: kept_trans)
  qed
  moreover have "sel_frame ?S h h7"
  proof -
    have "sel_frame ?S h h5"
      by (rule sel_frame_trans [OF sel_frame_mono [OF 3(3) cS] sel_frame_mono [OF 5(2)]]) (use sc cS in blast)
    then show ?thesis using c(7) by auto
  qed
  moreover have "\<not> needPathSelection e7"
    using c(2) 6(3) accumulate_kept(2) [OF 4] filtering_kept(2) [OF 2] snapshot_kept(2) [OF 1] by simp
  moreover have "\<forall>(i, a)\<in>set (multipaths e7). a \<in> set ?s \<and> sendId h7 a = Some i" using c(4,7) 6(6) by auto
  ultimately show ?thesis
    using ne b c(3,5,6,8,9) snapshot_kept(3,4,5) [OF 1] 3(4) 5(3)
    by (intro exI [of _ bc] exI [of _ nc] exI [of _ e7] exI [of _ h7]) (auto simp: select_spec_def)
qed

lemma selectBestPath_spec:
  assumes "selectors_ok ff cc mp bp" "\<forall>a\<in>set (getAllPaths e). route_fine h a"
  shows "\<exists>bc nc e' h'. selectBestPath fo ff mp bp cu w (e, h) = Some ((bc, nc), e', h') \<and> select_spec ff cc h e bc nc e' h'"
  using select_none [of ff h e] select_some [OF assms] by (cases "candidates ff h e = []") blast+

lemma select_specD:
  assumes "select_spec ff cc h e bc nc e' h'"
  shows "sel_frame (set (getAllPaths e)) h h'" "kept e e'" "\<not> needPathSelection e'"
    "bestpath e' = (if candidates ff h e = [] then None
       else Some (hd (best_routes (tiebreak_key cc h) (best_routes (decision_key ff cc h) (candidates ff h e)))))"
    "(i, a) \<in> set (multipaths e') \<Longrightarrow> a \<in> set (best_routes (decision_key ff cc h) (candidates ff h e)) \<and> sendId h' a = Some i"
    "weightedNexthops e' = None \<longleftrightarrow> candidates ff h e = []"
    "next_map h' = next_map h \<and> (weightedNexthops e' = None \<or> weightedNexthops e' = weightedNexthops e) \<or>
      next_map h' = Suc (next_map h) \<and> (\<exists>m. weightedNexthops e' = Some (next_map h, m))"
    "\<not> nc \<Longrightarrow> weightedNexthops e' = weightedNexthops e"
    "\<not> bc \<Longrightarrow> bestpath e' = bestpath e"
    "\<not> bc \<Longrightarrow> bestpath e \<noteq> None \<Longrightarrow> f32_eq (aggregateReceivedUcmpWeight e') (aggregateReceivedUcmpWeight e) \<and>
       f32_eq (aggregateLocalUcmpWeight e') (aggregateLocalUcmpWeight e)"
    "bestpath e' = Some a \<Longrightarrow> a \<in> set (best_routes (tiebreak_key cc h) (best_routes (decision_key ff cc h) (candidates ff h e)))"
  using assms unfolding select_spec_def Let_def by blast+

text \<open>
  C6. Path selection never aborts. The best path is one that the tie-break leaves of the paths the
  decision process prefers among those whose next hop is resolved, every multipath is one that the
  decision process prefers, and without such a path there is neither a best path nor a map of next
  hops. The paths of the entry stay, and a change of the best path or of the next hops is reported.
\<close>

theorem selectBestPath_correct:
  assumes sel: "selectors_ok ff cc mp bp" and fine: "\<forall>a\<in>set (getAllPaths e). route_fine h a"
  shows "\<exists>bestpathChanged nexthopChanged e' h'.
    selectBestPath fo ff mp bp cu w (e, h) = Some ((bestpathChanged, nexthopChanged), e', h') \<and>
    (let cands = filter (\<lambda>a. enableNextHopTracking ff \<longrightarrow> route_isResolvedForSelection h (route_at h a)) (getAllPaths e);
         best = best_routes (decision_key ff cc h) cands
     in (cands = [] \<longrightarrow> bestpath e' = None \<and> weightedNexthops e' = None) \<and>
        (cands \<noteq> [] \<longrightarrow> weightedNexthops e' \<noteq> None \<and> (\<exists>a\<in>set (best_routes (tiebreak_key cc h) best). bestpath e' = Some a)) \<and>
        snd ` set (multipaths e') \<subseteq> set best) \<and>
    getAllPaths e' = getAllPaths e \<and> \<not> needPathSelection e' \<and>
    (bestpath e' \<noteq> bestpath e \<longrightarrow> bestpathChanged) \<and> (weightedNexthops e' \<noteq> weightedNexthops e \<longrightarrow> nexthopChanged)"
proof -
  let ?c = "candidates ff h e" let ?s = "best_routes (decision_key ff cc h) ?c"
  obtain bc nc e' h' where res: "selectBestPath fo ff mp bp cu w (e, h) = Some ((bc, nc), e', h')"
    and spec: "select_spec ff cc h e bc nc e' h'" using selectBestPath_spec [OF assms, of fo cu w] by blast
  have c: "?c = filter (\<lambda>a. enableNextHopTracking ff \<longrightarrow> route_isResolvedForSelection h (route_at h a)) (getAllPaths e)"
    by (simp add: candidates_def prePathSelectionFiltering_def Let_def)
  note d = select_specD [OF spec]
  have 1: "?c = [] \<longrightarrow> bestpath e' = None \<and> weightedNexthops e' = None" using d(4,6) by simp
  have 2: "?c \<noteq> [] \<longrightarrow> weightedNexthops e' \<noteq> None \<and> (\<exists>a\<in>set (best_routes (tiebreak_key cc h) ?s). bestpath e' = Some a)"
    using d(4,6) d(11) by simp
  have 3: "snd ` set (multipaths e') \<subseteq> set ?s" using d(5) by auto
  have 4: "getAllPaths e' = getAllPaths e" "\<not> needPathSelection e'" by (rule kept_paths(2) [OF d(2)], rule d(3))
  have 5: "bestpath e' \<noteq> bestpath e \<longrightarrow> bc" "weightedNexthops e' \<noteq> weightedNexthops e \<longrightarrow> nc" using d(8,9) by blast+
  show ?thesis unfolding Let_def c [symmetric] using res 1 2 3 4 5 by blast
qed

definition sample_entry :: RibEntry where
  "sample_entry = (new_entry (IPv4 0x0A000000, 8))
     \<lparr>routeInfos := [((IPv4 1, 1), [(0, 0)]), ((IPv4 2, 2), [(0, 1)]), ((IPv4 3, 3), [(0, 2)])], allPathsCount := 3\<rparr>"

lemma sample_paths: "getAllPaths sample_entry = [0, 1, 2]"
  by (simp add: sample_entry_def getAllPaths_def)

lemma sample_routes_fine: "\<forall>a\<in>set (getAllPaths sample_entry). route_fine sample_rib a"
proof -
  have "\<forall>a\<in>set [0, 1, 2]. route_ok sample_rib a \<and> address_ok sample_rib a" using sample_routes_ok by auto
  then show ?thesis using sample_live unfolding sample_paths route_fine_def by blast
qed

lemma selectors_exist: "\<exists>mp bp. selectors_ok ff cc mp bp"
  using multipath_selector [of ff cc] bestpath_selector [of ff cc] by (auto simp: selectors_ok_def)

definition sample_floats :: float_ops where
  "sample_floats = \<lparr>f_add = (\<lambda>x y. x + y), f_times8 = (\<lambda>x. 8 * x), f_toUcmp = (\<lambda>x y. x), f_scale = (\<lambda>x y. x), f_quantize = None\<rparr>"

theorem selectBestPath_correct_witness:
  "\<exists>mp bp bc nc e' h'. selectors_ok sample_features False mp bp \<and>
     selectBestPath sample_floats sample_features mp bp False 128 (sample_entry, sample_rib) = Some ((bc, nc), e', h') \<and>
     bestpath e' = Some 1 \<and> bc \<and> nc \<and> snd ` set (multipaths e') \<subseteq> {1, 2}"
proof -
  let ?h = sample_rib
  obtain mp bp where sel: "selectors_ok sample_features False mp bp" using selectors_exist by blast
  note b = sample_decision sample_tiebreak
  have c: "filter (\<lambda>a. enableNextHopTracking sample_features \<longrightarrow> route_isResolvedForSelection ?h (route_at ?h a)) [0, 1, 2] = [0, 1, 2]"
    by (simp add: sample_features_def)
  have n: "bestpath sample_entry = None" "weightedNexthops sample_entry = None" by (simp_all add: sample_entry_def new_entry_def)
  from selectBestPath_correct [OF sel sample_routes_fine, of sample_floats False 128]
  obtain bc nc e' h' where "selectBestPath sample_floats sample_features mp bp False 128 (sample_entry, ?h) = Some ((bc, nc), e', h')"
    "weightedNexthops e' \<noteq> None" "bestpath e' = Some 1" "snd ` set (multipaths e') \<subseteq> {1, 2}"
    "bestpath e' \<noteq> None \<longrightarrow> bc" "weightedNexthops e' \<noteq> None \<longrightarrow> nc"
    unfolding sample_paths Let_def c b n by auto
  with sel show ?thesis by blast
qed

end
