(* ===== verification/Rib_Nexthop.thy ===== *)
theory Rib_Nexthop
  imports Rib_Select
begin

text \<open>
  Next hops in the RIB: \<^verbatim>\<open>nexthopInfoMap_\<close> with the routes that use each next hop, and its
  registration in the cache (\<^verbatim>\<open>getNexthopInfo\<close>, \<^verbatim>\<open>unlinkRouteInfoAndCleanupNexthop\<close>,
  \<^verbatim>\<open>checkAndDeleteNexthopInfo\<close>, \<^verbatim>\<open>deleteNexthopInfo\<close> and
  \<^verbatim>\<open>deleteUnusedNexthopInfos\<close> of \<^verbatim>\<open>rib/RibBase.cpp\<close>).

  The operations work on a store and the cache. Log lines, counters and the time stamps of a
  \<^verbatim>\<open>NexthopInfo\<close> are left out, and so is the call of the registration hook of the cache, which
  only wakes up another thread.
\<close>

subsection \<open>Operations\<close>

text \<open>\<^verbatim>\<open>IPAddress::isZero\<close>; it throws for an address without family, which ends the process here.\<close>

fun ip_isZero :: "ipaddr \<Rightarrow> bool option" where
  "ip_isZero (IPv4 a) = Some (a = 0)"
| "ip_isZero (IPv6 a) = Some (a = 0)"
| "ip_isZero IPEmpty = None"

definition mkNexthopInfo :: "NexthopStatus \<Rightarrow> NexthopInfo" where
  "mkNexthopInfo st = \<lparr>ni_status = st, nexthopAssociationList = []\<rparr>"

text \<open>
  The result is the next hop the route is to be linked to, if it is tracked, and whether its info is
  new.
\<close>

definition getNexthopInfo ::
  "ipaddr \<Rightarrow> rib_store \<times> NexthopCache \<Rightarrow> (ipaddr option \<times> bool \<times> rib_store \<times> NexthopCache) option" where
  "getNexthopInfo nh w =
     (case ip_isZero nh of
        None \<Rightarrow> None
      | Some True \<Rightarrow> Some (None, False, w)
      | Some False \<Rightarrow>
          (case w of (h, c) \<Rightarrow>
             if map_of (nexthopInfoMap h) nh \<noteq> None then Some (Some nh, False, w)
             else case registerAndGetNexthopStatus nh c of
               (st, hook, c) \<Rightarrow>
                 Some (Some nh, True, h\<lparr>nexthopInfoMap := emplace nh (mkNexthopInfo st) (nexthopInfoMap h)\<rparr>, c)))"

definition deleteNexthopInfo :: "ipaddr \<Rightarrow> rib_store \<times> NexthopCache \<Rightarrow> rib_store \<times> NexthopCache" where
  "deleteNexthopInfo nh w =
     (case w of (h, c) \<Rightarrow>
        (h\<lparr>nexthopInfoMap := AList.delete nh (nexthopInfoMap h)\<rparr>, snd (unregisterAndRemoveNexthopStatus nh c)))"

text \<open>\<open>batchEmpty\<close>: no entry of the RIB waits for the FIB.\<close>

definition checkAndDeleteNexthopInfo ::
  "bool \<Rightarrow> ipaddr \<Rightarrow> rib_store \<times> NexthopCache \<Rightarrow> bool \<times> rib_store \<times> NexthopCache" where
  "checkAndDeleteNexthopInfo batchEmpty nh w =
     (case map_of (nexthopInfoMap (fst w)) nh of
        None \<Rightarrow> (False, w)
      | Some ni \<Rightarrow>
          if nexthopAssociationList ni \<noteq> [] then (False, w)
          else if \<not> batchEmpty then (False, w)
          else (True, deleteNexthopInfo nh w))"

definition unlinkRouteInfoAndCleanupNexthop ::
  "bool \<Rightarrow> nat \<Rightarrow> rib_store \<times> NexthopCache \<Rightarrow> bool \<times> rib_store \<times> NexthopCache" where
  "unlinkRouteInfoAndCleanupNexthop batchEmpty a w =
     (case w of (h, c) \<Rightarrow>
        let nh = bp_nexthop (route_path (route_at h a)) in
        case unlinkFromNexthopInfo a h of
          (False, h) \<Rightarrow> (False, h, c)
        | (True, h) \<Rightarrow> (True, snd (checkAndDeleteNexthopInfo batchEmpty nh (h, c))))"

definition deleteUnusedNexthopInfos :: "rib_store \<times> NexthopCache \<Rightarrow> rib_store \<times> NexthopCache" where
  "deleteUnusedNexthopInfos w =
     fold (\<lambda>(nh, ni) w. if nexthopAssociationList ni = [] then deleteNexthopInfo nh w else w) (nexthopInfoMap (fst w)) w"

text \<open>The callback the RIB gives to \<open>updatePath\<close> keeps the contract.\<close>

lemma delete_routes [simp]:
  "route_at (fst (deleteNexthopInfo nh w)) = route_at (fst w)" "next_route (fst (deleteNexthopInfo nh w)) = next_route (fst w)"
  "next_map (fst (deleteNexthopInfo nh w)) = next_map (fst w)"
  by (simp_all add: deleteNexthopInfo_def split: prod.splits)

lemma check_routes [simp]:
  "route_at (fst (snd (checkAndDeleteNexthopInfo b nh w))) = route_at (fst w)"
  "next_route (fst (snd (checkAndDeleteNexthopInfo b nh w))) = next_route (fst w)"
  "next_map (fst (snd (checkAndDeleteNexthopInfo b nh w))) = next_map (fst w)"
  by (simp_all add: checkAndDeleteNexthopInfo_def split: option.splits)

lemma unlink_routes:
  "next_route (snd (unlinkFromNexthopInfo a h)) = next_route h"
  "next_map (snd (unlinkFromNexthopInfo a h)) = next_map h"
  "route_at (snd (unlinkFromNexthopInfo a h)) b = (if b = a then (route_at h a)\<lparr>nexthopInfo := None\<rparr> else route_at h b)"
  by (auto simp: unlinkFromNexthopInfo_def upd_route_def upd_nexthop_def split: option.splits)

interpretation tracked: route_unlinker "unlinkRouteInfoFromNexthop (Some (unlinkRouteInfoAndCleanupNexthop b))"
proof
  fix a a' :: nat and w :: "rib_store \<times> NexthopCache"
  obtain h c where w: "w = (h, c)" by (cases w)
  obtain u h' where u: "unlinkFromNexthopInfo a h = (u, h')" by (cases "unlinkFromNexthopInfo a h")
  show "next_route (fst (snd (unlinkRouteInfoFromNexthop (Some (unlinkRouteInfoAndCleanupNexthop b)) a w))) = next_route (fst w)"
    using u unlink_routes(1) [of a h]
    by (cases u) (simp_all add: unlinkRouteInfoFromNexthop_def unlinkRouteInfoAndCleanupNexthop_def w)
  show "route_at (fst (snd (unlinkRouteInfoFromNexthop (Some (unlinkRouteInfoAndCleanupNexthop b)) a w))) a' =
      (if a' = a then (route_at (fst w) a)\<lparr>nexthopInfo := None\<rparr> else route_at (fst w) a')"
    using u unlink_routes(3) [of a h a']
    by (cases u) (simp_all add: unlinkRouteInfoFromNexthop_def unlinkRouteInfoAndCleanupNexthop_def w)
qed

subsection \<open>Links between routes and next hops\<close>

text \<open>
  A route is in the list of a next hop exactly when it points to it, and that next hop is the one of its
  path.
\<close>

definition linked :: "rib_store \<Rightarrow> ipaddr \<Rightarrow> nat \<Rightarrow> bool" where
  "linked h nh a \<longleftrightarrow> (\<exists>ni. map_of (nexthopInfoMap h) nh = Some ni \<and> a \<in> set (nexthopAssociationList ni))"

definition links_wf :: "rib_store \<Rightarrow> bool" where
  "links_wf h \<longleftrightarrow> keys_distinct (nexthopInfoMap h) \<and>
     (\<forall>nh ni. map_of (nexthopInfoMap h) nh = Some ni \<longrightarrow> distinct (nexthopAssociationList ni)) \<and>
     (\<forall>nh a. linked h nh a \<longrightarrow> a < next_route h \<and> nexthopInfo (route_at h a) = Some nh) \<and>
     (\<forall>nh a. a < next_route h \<and> nexthopInfo (route_at h a) = Some nh \<longrightarrow>
        linked h nh a \<and> bp_nexthop (route_path (route_at h a)) = nh)"

lemma links_wfI:
  assumes "keys_distinct (nexthopInfoMap h)" "\<And>nh ni. map_of (nexthopInfoMap h) nh = Some ni \<Longrightarrow> distinct (nexthopAssociationList ni)"
    "\<And>nh a. linked h nh a \<Longrightarrow> a < next_route h \<and> nexthopInfo (route_at h a) = Some nh"
    "\<And>nh a. a < next_route h \<Longrightarrow> nexthopInfo (route_at h a) = Some nh \<Longrightarrow>
        linked h nh a \<and> bp_nexthop (route_path (route_at h a)) = nh"
  shows "links_wf h"
  using assms unfolding links_wf_def by blast

lemma links_wfD:
  assumes "links_wf h"
  shows "map_of (nexthopInfoMap h) nh = Some ni \<Longrightarrow> distinct (nexthopAssociationList ni)"
    "linked h nh a \<Longrightarrow> a < next_route h" "linked h nh a \<Longrightarrow> nexthopInfo (route_at h a) = Some nh"
    "a < next_route h \<Longrightarrow> nexthopInfo (route_at h a) = Some nh \<Longrightarrow> linked h nh a"
    "a < next_route h \<Longrightarrow> nexthopInfo (route_at h a) = Some nh \<Longrightarrow> bp_nexthop (route_path (route_at h a)) = nh"
  using assms unfolding links_wf_def by blast+

lemma links_wf_keys: "links_wf h \<Longrightarrow> keys_distinct (nexthopInfoMap h)"
  by (simp add: links_wf_def)

lemma links_wf_frame:
  assumes wf: "links_wf h" and eq: "nexthopInfoMap h' = nexthopInfoMap h" "next_route h' = next_route h"
    "\<And>a. nexthopInfo (route_at h' a) = nexthopInfo (route_at h a)" "\<And>a. r_attrs (route_at h' a) = r_attrs (route_at h a)"
  shows "links_wf h'"
proof -
  have l: "linked h' = linked h" by (simp add: fun_eq_iff linked_def eq)
  show ?thesis using wf unfolding links_wf_def l eq .
qed

lemma linked_upd_nexthop:
  assumes "\<And>ni. nexthopAssociationList (f ni) = g (nexthopAssociationList ni)"
  shows "linked (upd_nexthop f nh h) nh' a \<longleftrightarrow>
    (if nh' = nh then \<exists>ni. map_of (nexthopInfoMap h) nh = Some ni \<and> a \<in> set (g (nexthopAssociationList ni)) else linked h nh' a)"
  by (auto simp: linked_def upd_nexthop_def assms split: option.splits)

lemma linked_upd_route [simp]: "linked (upd_route f b h) nh a = linked h nh a"
  by (simp add: linked_def upd_route_def)

lemma upd_nexthop_other [simp]:
  "route_at (upd_nexthop f nh h) = route_at h" "next_route (upd_nexthop f nh h) = next_route h"
  "next_map (upd_nexthop f nh h) = next_map h"
  by (simp_all add: upd_nexthop_def split: option.splits)

lemma upd_route_other [simp]:
  "nexthopInfoMap (upd_route f a h) = nexthopInfoMap h" "next_route (upd_route f a h) = next_route h"
  "next_map (upd_route f a h) = next_map h"
  "route_at (upd_route f a h) b = (if b = a then f (route_at h a) else route_at h b)"
  by (simp_all add: upd_route_def)

lemma distinct_upd_nexthop:
  assumes "map_of (nexthopInfoMap (upd_nexthop f nh h)) nh' = Some ni"
  shows "(if nh' = nh then \<exists>ni'. map_of (nexthopInfoMap h) nh = Some ni' \<and> ni = f ni' else map_of (nexthopInfoMap h) nh' = Some ni)"
  using assms by (auto simp: upd_nexthop_def split: option.splits if_splits)

text \<open>A step that keeps the links of the routes in \<open>P\<close> and drops the others.\<close>

lemma links_wf_step:
  assumes wf: "links_wf h" and k: "keys_distinct (nexthopInfoMap h')"
    and d: "\<And>nh ni. map_of (nexthopInfoMap h') nh = Some ni \<Longrightarrow> distinct (nexthopAssociationList ni)"
    and l: "\<And>nh a. linked h' nh a \<longleftrightarrow> linked h nh a \<and> P a"
    and r: "\<And>a. nexthopInfo (route_at h' a) = (if P a then nexthopInfo (route_at h a) else None)"
    and eq: "\<And>a. r_attrs (route_at h' a) = r_attrs (route_at h a)" "next_route h' = next_route h"
  shows "links_wf h'"
proof (rule links_wfI)
  show "a < next_route h' \<and> nexthopInfo (route_at h' a) = Some nh" if "linked h' nh a" for nh a
    using that links_wfD(2,3) [OF wf, of nh a] unfolding l eq r by simp
  show "linked h' nh a \<and> bp_nexthop (route_path (route_at h' a)) = nh"
    if "a < next_route h'" "nexthopInfo (route_at h' a) = Some nh" for nh a
  proof (cases "P a")
    case True
    then show ?thesis using that links_wfD(4,5) [OF wf, of a nh] unfolding l eq r by simp
  qed (use that r in simp)
qed (rule k, rule d)

lemma upd_nexthop_keys: "links_wf h \<Longrightarrow> keys_distinct (nexthopInfoMap (upd_nexthop f nh h))"
  by (simp add: upd_nexthop_def links_wf_keys split: option.splits)

lemma links_wf_status:
  assumes wf: "links_wf h"
  shows "links_wf (upd_nexthop (\<lambda>ni. ni\<lparr>ni_status := st\<rparr>) nh h)"
proof (rule links_wf_step [OF wf, where P = "\<lambda>_. True"])
  show "linked (upd_nexthop (\<lambda>ni. ni\<lparr>ni_status := st\<rparr>) nh h) nh' a \<longleftrightarrow> linked h nh' a \<and> True" for nh' a
    by (auto simp: linked_def upd_nexthop_def split: option.splits)
  show "distinct (nexthopAssociationList ni)" if "map_of (nexthopInfoMap (upd_nexthop (\<lambda>ni. ni\<lparr>ni_status := st\<rparr>) nh h)) nh' = Some ni" for nh' ni
    using distinct_upd_nexthop [OF that] links_wfD(1) [OF wf] by (auto split: if_splits)
qed (simp_all add: upd_nexthop_keys [OF wf])

lemma links_wf_unlink:
  assumes wf: "links_wf h"
  shows "links_wf (snd (unlinkFromNexthopInfo a h))"
proof (cases "nexthopInfo (route_at h a)")
  case None
  then show ?thesis using wf by (simp add: unlinkFromNexthopInfo_def)
next
  case (Some nh)
  let ?f = "\<lambda>ni. ni\<lparr>nexthopAssociationList := remove1 a (nexthopAssociationList ni)\<rparr>"
  let ?h = "upd_route (\<lambda>r. r\<lparr>nexthopInfo := None\<rparr>) a (upd_nexthop ?f nh h)"
  have "links_wf ?h"
  proof (rule links_wf_step [OF wf, where P = "\<lambda>b. b \<noteq> a"])
    show "linked ?h nh' b \<longleftrightarrow> linked h nh' b \<and> b \<noteq> a" for nh' b
    proof (cases "nh' = nh")
      case True
      then show ?thesis
        using links_wfD(1) [OF wf, of nh] linked_upd_nexthop [of ?f "remove1 a" nh h nh b] by (auto simp: linked_def)
    next
      case False
      then have "\<not> linked h nh' a" using Some links_wfD(3) [OF wf, of nh' a] by auto
      then show ?thesis using False linked_upd_nexthop [of ?f "remove1 a" nh h nh' b] by auto
    qed
    show "distinct (nexthopAssociationList ni)" if "map_of (nexthopInfoMap ?h) nh' = Some ni" for nh' ni
      using distinct_upd_nexthop [of ?f nh h nh' ni] that links_wfD(1) [OF wf] by (auto split: if_splits)
  qed (simp_all add: upd_nexthop_keys [OF wf])
  then show ?thesis using Some by (simp add: unlinkFromNexthopInfo_def)
qed

lemma links_wf_delete:
  assumes wf: "links_wf (fst w)" and e: "\<And>a. \<not> linked (fst w) nh a"
  shows "links_wf (fst (deleteNexthopInfo nh w))"
proof -
  have m: "map_of (nexthopInfoMap (fst (deleteNexthopInfo nh w))) = (map_of (nexthopInfoMap (fst w)))(nh := None)"
    by (simp add: deleteNexthopInfo_def split: prod.splits)
  have k: "keys_distinct (nexthopInfoMap (fst (deleteNexthopInfo nh w)))"
    using links_wf_keys [OF wf] by (auto simp: deleteNexthopInfo_def split: prod.splits)
  show ?thesis
  proof (rule links_wf_step [OF wf k, where P = "\<lambda>_. True"])
    show "linked (fst (deleteNexthopInfo nh w)) nh' a \<longleftrightarrow> linked (fst w) nh' a \<and> True" for nh' a
      using e [of a] by (auto simp: linked_def m)
    show "distinct (nexthopAssociationList ni)" if "map_of (nexthopInfoMap (fst (deleteNexthopInfo nh w))) nh' = Some ni" for nh' ni
      using that links_wfD(1) [OF wf] by (auto simp: m split: if_splits)
  qed simp_all
qed

text \<open>What a route sees of its next hop: the cost and whether it can be selected.\<close>

definition rating :: "NexthopInfo \<Rightarrow> u32 option \<times> bool" where
  "rating ni = (ns_igpCost (ni_status ni), isResolvedForSelection (ni_status ni))"

lemma rating_list [simp]: "rating (ni\<lparr>nexthopAssociationList := as\<rparr>) = rating ni"
  by (simp add: rating_def)

definition seen :: "rib_store \<Rightarrow> nat \<Rightarrow> (u32 option \<times> bool) option" where
  "seen h a = Option.bind (nexthopInfo (route_at h a)) (\<lambda>nh. map_option rating (map_of (nexthopInfoMap h) nh))"

lemma seen_reads:
  "getIgpCostValue h (route_at h a) =
     (case Option.bind (seen h a) fst of None \<Rightarrow> 0xFFFFFFFF | Some c \<Rightarrow> c)"
  "route_isResolvedForSelection h (route_at h a) =
     (getIsRouteLocal (route_at h a) \<or> (case seen h a of None \<Rightarrow> False | Some st \<Rightarrow> snd st))"
  by (auto simp: seen_def rating_def getIgpCostValue_def route_isResolvedForSelection_def split: option.splits bind_splits)

lemma seen_linked:
  "links_wf h \<Longrightarrow> a < next_route h \<Longrightarrow> seen h a =
     (case nexthopInfo (route_at h a) of None \<Rightarrow> None
      | Some nh \<Rightarrow> (if linked h nh a then map_option rating (map_of (nexthopInfoMap h) nh) else None))"
  using links_wfD(4) [of h a] by (auto simp: seen_def split: option.splits)

text \<open>Two stores agree on a route up to the path id and the recorded filter.\<close>

definition agree_on :: "rib_store \<Rightarrow> rib_store \<Rightarrow> nat \<Rightarrow> bool" where
  "agree_on h h' a \<longleftrightarrow> same_route (route_at h a) (route_at h' a) \<and> seen h' a = seen h a"

lemma agree_refl [simp]: "agree_on h h a"
  by (simp add: agree_on_def)

lemma agree_trans: "agree_on h h' a \<Longrightarrow> agree_on h' h'' a \<Longrightarrow> agree_on h h'' a"
  by (auto simp: agree_on_def intro: same_route_trans)

lemma agree_frame: "sel_frame S h h' \<Longrightarrow> agree_on h h' a"
  using sel_frame_fields(8,9) [of S h h'] by (simp add: agree_on_def seen_def sel_frame_def)

lemma agree_same: "route_at h' a = route_at h a \<Longrightarrow> seen h' a = seen h a \<Longrightarrow> agree_on h h' a"
  by (simp add: agree_on_def)

lemma agree_reads:
  assumes "agree_on h h' a"
  shows "decision_key ff cc h' a = decision_key ff cc h a" "tiebreak_key cc h' a = tiebreak_key cc h a"
    "route_isResolvedForSelection h' (route_at h' a) = route_isResolvedForSelection h (route_at h a)"
    "route_fine h' a = route_fine h a"
proof -
  have r: "same_route (route_at h a) (route_at h' a)" and s: "seen h' a = seen h a" using assms by (simp_all add: agree_on_def)
  note f = same_route_fields [OF r]
  have c: "getIgpCostValue h' (route_at h' a) = getIgpCostValue h (route_at h a)" unfolding seen_reads s ..
  have fl: "getIsRouteLocal (route_at h' a) = getIsRouteLocal (route_at h a)"
    "getIsRouteExternal (route_at h' a) = getIsRouteExternal (route_at h a)"
    "getIsRouteConfedExternal (route_at h' a) = getIsRouteConfedExternal (route_at h a)"
    "getIsRouteDeleted (route_at h' a) = getIsRouteDeleted (route_at h a)"
    by (simp_all add: getIsRouteLocal_def getIsRouteExternal_def getIsRouteConfedExternal_def getIsRouteDeleted_def has_flag_def f)
  show "decision_key ff cc h' a = decision_key ff cc h a" by (simp add: decision_key_def Let_def c fl f)
  show "tiebreak_key cc h' a = tiebreak_key cc h a" by (simp add: tiebreak_key_def Let_def getBgpRouterId_def f)
  show "route_isResolvedForSelection h' (route_at h' a) = route_isResolvedForSelection h (route_at h a)"
    unfolding seen_reads s fl ..
  show "route_fine h' a = route_fine h a"
    by (simp add: route_fine_def route_ok_def address_ok_def live_def Let_def f fl)
qed

lemma best_routes_cong: "(\<And>a. a \<in> set routes \<Longrightarrow> k' a = k a) \<Longrightarrow> best_routes k' routes = best_routes k routes"
  unfolding best_routes_def by (rule filter_cong) auto

lemma agree_candidates:
  assumes "\<And>a. a \<in> set (getAllPaths e) \<Longrightarrow> agree_on h h' a"
  shows "candidates ff h' e = candidates ff h e"
  unfolding candidates_def prePathSelectionFiltering_def Let_def fst_conv
  by (rule filter_cong [OF refl]) (simp add: agree_reads(3) [OF assms])

subsection \<open>What the operations keep\<close>

lemma agree_unlink: "b \<noteq> a \<Longrightarrow> agree_on h (snd (unlinkFromNexthopInfo a h)) b"
  by (rule agree_same)
    (auto simp: unlinkFromNexthopInfo_def seen_def upd_nexthop_def upd_route_def split: option.splits bind_splits)

lemma agree_delete:
  assumes wf: "links_wf (fst w)" and e: "\<And>a. \<not> linked (fst w) nh a" and a: "a < next_route (fst w)"
  shows "agree_on (fst w) (fst (deleteNexthopInfo nh w)) a"
proof (rule agree_same)
  have "nexthopInfo (route_at (fst w) a) \<noteq> Some nh" using links_wfD(4) [OF wf a] e by blast
  then show "seen (fst (deleteNexthopInfo nh w)) a = seen (fst w) a"
    by (auto simp: seen_def deleteNexthopInfo_def split: prod.splits bind_splits)
qed simp

lemma check_cases:
  "checkAndDeleteNexthopInfo b nh w = (False, w) \<or>
   checkAndDeleteNexthopInfo b nh w = (True, deleteNexthopInfo nh w) \<and> (\<forall>a. \<not> linked (fst w) nh a)"
  by (auto simp: checkAndDeleteNexthopInfo_def linked_def split: option.splits)

lemma check_keeps:
  assumes wf: "links_wf (fst w)"
  shows "links_wf (fst (snd (checkAndDeleteNexthopInfo b nh w)))"
    "a < next_route (fst w) \<Longrightarrow> agree_on (fst w) (fst (snd (checkAndDeleteNexthopInfo b nh w))) a"
  using check_cases [of b nh w] links_wf_delete [OF wf, of nh] agree_delete [OF wf, of nh a] wf by auto

lemma cleanup_keeps:
  assumes wf: "links_wf (fst w)"
  shows "links_wf (fst (snd (unlinkRouteInfoAndCleanupNexthop b a w)))"
    "c \<noteq> a \<Longrightarrow> c < next_route (fst w) \<Longrightarrow> agree_on (fst w) (fst (snd (unlinkRouteInfoAndCleanupNexthop b a w))) c"
    "next_map (fst (snd (unlinkRouteInfoAndCleanupNexthop b a w))) = next_map (fst w)"
proof -
  obtain h k where w: "w = (h, k)" by (cases w)
  obtain u h' where u: "unlinkFromNexthopInfo a h = (u, h')" by (cases "unlinkFromNexthopInfo a h")
  have h': "links_wf h'" "c \<noteq> a \<Longrightarrow> agree_on h h' c" "next_route h' = next_route h" "next_map h' = next_map h"
    using links_wf_unlink [of h a] agree_unlink [of c a h] unlink_routes(1,2) [of a h] wf u w by simp_all
  let ?r = "snd (unlinkRouteInfoAndCleanupNexthop b a w)"
  have r: "?r = (h', k) \<or> (\<exists>nh. ?r = snd (checkAndDeleteNexthopInfo b nh (h', k)))"
    using u w by (cases u) (auto simp: unlinkRouteInfoAndCleanupNexthop_def)
  note c1 = check_keeps [of "(h', k)", unfolded fst_conv, OF h'(1)]
  show "links_wf (fst ?r)" using r c1(1) h'(1) by auto
  show "agree_on (fst w) (fst ?r) c" if "c \<noteq> a" "c < next_route (fst w)"
    using r c1(2) h'(2) [OF that(1)] h'(3) that(2) w by (auto intro: agree_trans)
  show "next_map (fst ?r) = next_map (fst w)" using r h'(4) w by (auto simp: check_routes)
qed

lemma getNexthopInfo_keeps:
  assumes r: "getNexthopInfo nh (h, c) = Some (nh', new, h', c')" and wf: "links_wf h"
  shows "links_wf h'" "a < next_route h \<Longrightarrow> agree_on h h' a" "route_at h' = route_at h" "next_route h' = next_route h"
    "next_map h' = next_map h" "nh' = None \<or> nh' = Some nh \<and> map_of (nexthopInfoMap h') nh \<noteq> None"
proof -
  have h': "h' = h \<or> map_of (nexthopInfoMap h) nh = None \<and>
      (\<exists>st. h' = h\<lparr>nexthopInfoMap := nexthopInfoMap h @ [(nh, mkNexthopInfo st)]\<rparr>)"
    and "nh' = None \<or> nh' = Some nh \<and> map_of (nexthopInfoMap h') nh \<noteq> None"
    using r by (auto simp: getNexthopInfo_def emplace_def split: option.splits bool.splits if_splits prod.splits)
  then show "nh' = None \<or> nh' = Some nh \<and> map_of (nexthopInfoMap h') nh \<noteq> None" by simp
  show eq: "route_at h' = route_at h" "next_route h' = next_route h" "next_map h' = next_map h" using h' by auto
  have l: "linked h' = linked h"
    using h' by (auto simp: fun_eq_iff linked_def map_add_Some_iff mkNexthopInfo_def split: if_splits)
  have "keys_distinct (nexthopInfoMap h')"
    using h' links_wf_keys [OF wf] by (auto simp: keys_distinct_def map_of_eq_None_iff)
  then show "links_wf h'"
  proof (rule links_wf_step [OF wf, where P = "\<lambda>_. True"])
    show "distinct (nexthopAssociationList ni)" if "map_of (nexthopInfoMap h') nh2 = Some ni" for nh2 ni
      using that h' links_wfD(1) [OF wf, of nh2 ni] by (auto simp: map_add_Some_iff mkNexthopInfo_def split: if_splits)
  qed (simp_all add: l eq)
  show "agree_on h h' a" if "a < next_route h"
  proof (rule agree_same)
    have "\<not> (\<exists>nh2. nexthopInfo (route_at h a) = Some nh2 \<and> map_of (nexthopInfoMap h) nh2 = None)"
      using links_wfD(4) [OF wf that] unfolding linked_def by auto
    then show "seen h' a = seen h a"
      using h' by (auto simp: seen_def eq map_add_def split: option.splits bind_splits)
  qed (simp add: eq)
qed

lemma deleteUnused_keeps:
  assumes wf: "links_wf (fst w)"
  shows "links_wf (fst (deleteUnusedNexthopInfos w))" "a < next_route (fst w) \<Longrightarrow> agree_on (fst w) (fst (deleteUnusedNexthopInfos w)) a"
    "route_at (fst (deleteUnusedNexthopInfos w)) = route_at (fst w)"
    "next_route (fst (deleteUnusedNexthopInfos w)) = next_route (fst w)"
    "next_map (fst (deleteUnusedNexthopInfos w)) = next_map (fst w)"
proof -
  let ?f = "\<lambda>(nh, ni) w. if nexthopAssociationList ni = [] then deleteNexthopInfo nh w else w"
  have gen: "links_wf (fst (fold ?f xs w)) \<and> (\<forall>a < next_route (fst w). agree_on (fst w) (fst (fold ?f xs w)) a) \<and>
      route_at (fst (fold ?f xs w)) = route_at (fst w) \<and> next_route (fst (fold ?f xs w)) = next_route (fst w) \<and>
      next_map (fst (fold ?f xs w)) = next_map (fst w)"
    if "links_wf (fst w)" "\<forall>(nh, ni)\<in>set xs. nexthopAssociationList ni = [] \<longrightarrow> (\<forall>a. \<not> linked (fst w) nh a)" for xs and w :: "rib_store \<times> NexthopCache"
    using that
  proof (induction xs arbitrary: w)
    case (Cons x xs)
    obtain nh ni where x: "x = (nh, ni)" by (cases x)
    show ?case
    proof (cases "nexthopAssociationList ni = []")
      case True
      let ?w = "deleteNexthopInfo nh w"
      have e: "\<not> linked (fst w) nh a" for a using Cons.prems(2) True x by auto
      have wf: "links_wf (fst ?w)" by (rule links_wf_delete [OF Cons.prems(1) e])
      have m: "map_of (nexthopInfoMap (fst ?w)) = (map_of (nexthopInfoMap (fst w)))(nh := None)"
        by (simp add: deleteNexthopInfo_def split: prod.splits)
      have "linked (fst ?w) nh2 a \<Longrightarrow> linked (fst w) nh2 a" for nh2 a by (auto simp: linked_def m split: if_splits)
      then have "\<forall>(nh, ni)\<in>set xs. nexthopAssociationList ni = [] \<longrightarrow> (\<forall>a. \<not> linked (fst ?w) nh a)"
        using Cons.prems(2) by fastforce
      with Cons.IH [OF wf] show ?thesis
        using agree_delete [OF Cons.prems(1) e] by (simp add: x True) (blast intro: agree_trans)
    next
      case False
      then show ?thesis using Cons x by simp
    qed
  qed simp
  have "\<forall>(nh, ni)\<in>set (nexthopInfoMap (fst w)). nexthopAssociationList ni = [] \<longrightarrow> (\<forall>a. \<not> linked (fst w) nh a)"
    using in_set_map_of [OF links_wf_keys [OF wf]] by (auto simp: linked_def)
  note g = gen [OF wf this, folded deleteUnusedNexthopInfos_def]
  show "links_wf (fst (deleteUnusedNexthopInfos w))" "a < next_route (fst w) \<Longrightarrow> agree_on (fst w) (fst (deleteUnusedNexthopInfos w)) a"
    "route_at (fst (deleteUnusedNexthopInfos w)) = route_at (fst w)"
    "next_route (fst (deleteUnusedNexthopInfos w)) = next_route (fst w)"
    "next_map (fst (deleteUnusedNexthopInfos w)) = next_map (fst w)" using g by auto
qed

subsection \<open>Updates of a path, with the links\<close>

text \<open>Routes stay as they are once made, up to the link, the filter and a path id that was not yet given.\<close>

definition keeps_routes :: "rib_store \<Rightarrow> rib_store \<Rightarrow> bool" where
  "keeps_routes h h' \<longleftrightarrow> next_route h \<le> next_route h' \<and>
     (\<forall>a < next_route h. r_prefix (route_at h' a) = r_prefix (route_at h a) \<and> r_peer (route_at h' a) = r_peer (route_at h a) \<and>
        r_attrs (route_at h' a) = r_attrs (route_at h a) \<and> receivedPathId (route_at h' a) = receivedPathId (route_at h a) \<and>
        (\<forall>i. sendId h a = Some i \<longrightarrow> sendId h' a = Some i))"

lemma keeps_routes_refl [simp]: "keeps_routes h h"
  by (simp add: keeps_routes_def)

lemma keeps_routes_trans: "keeps_routes h h' \<Longrightarrow> keeps_routes h' h'' \<Longrightarrow> keeps_routes h h''"
  by (auto simp: keeps_routes_def)

lemma keeps_routes_same: "route_at h' = route_at h \<Longrightarrow> next_route h' = next_route h \<Longrightarrow> keeps_routes h h'"
  by (simp add: keeps_routes_def)

lemma keeps_routes_frame: "sel_frame S h h' \<Longrightarrow> keeps_routes h h'"
proof -
  assume fr: "sel_frame S h h'"
  then have "sendId h' a = Some i" if "sendId h a = Some i" for a i using that by (simp add: sel_frame_def)
  then show ?thesis by (simp add: keeps_routes_def sel_frame_fields [OF fr])
qed

lemma keeps_routes_places: "keeps_routes h h' \<Longrightarrow> same_places h h'"
  by (auto simp: keeps_routes_def same_places_def route_key_def)

text \<open>A new route, linked to the next hop of its path.\<close>

lemma link_new:
  assumes wf: "links_wf h" and r: "nexthopInfo r = None"
    and nh: "nh = None \<or> nh = Some (bp_nexthop (route_path r)) \<and> map_of (nexthopInfoMap h) (bp_nexthop (route_path r)) \<noteq> None"
  defines "h' \<equiv> linkRouteInfoToNexthop (next_route h) nh (snd (new_route r h))"
  shows "links_wf h'" "a < next_route h \<Longrightarrow> agree_on h h' a" "a < next_route h \<Longrightarrow> route_at h' a = route_at h a"
    "next_route h' = Suc (next_route h)" "next_map h' = next_map h"
proof -
  let ?n = "next_route h" let ?h = "snd (new_route r h)"
  have new: "nexthopInfoMap ?h = nexthopInfoMap h" "next_route ?h = Suc ?n" "next_map ?h = next_map h"
    "route_at ?h = (route_at h)(?n := r)" by (simp_all add: new_route_def)
  show nr: "next_route h' = Suc ?n" by (simp add: h'_def linkRouteInfo_store new)
  show "next_map h' = next_map h"
    by (simp add: h'_def linkRouteInfoToNexthop_def linkRouteInfo_def new split: option.splits)
  show old: "a < ?n \<Longrightarrow> route_at h' a = route_at h a" for a by (simp add: h'_def linkRouteInfo_store new)
  have at_n: "route_at h' ?n = r\<lparr>nexthopInfo := nh\<rparr>" using r by (cases nh) (simp_all add: h'_def linkRouteInfo_store new)
  have st: "map_option rating (map_of (nexthopInfoMap h') x) = map_option rating (map_of (nexthopInfoMap h) x)" for x
    by (auto simp: h'_def linkRouteInfoToNexthop_def linkRouteInfo_def upd_nexthop_def new split: option.splits)
  have lk: "linked h' x a \<longleftrightarrow> linked h x a \<or> nh = Some x \<and> a = ?n" for x a
    using nh r
    by (auto simp: linked_def h'_def linkRouteInfoToNexthop_def linkRouteInfo_def upd_nexthop_def new split: option.splits)
  show "a < ?n \<Longrightarrow> agree_on h h' a" for a
    by (rule agree_same) (simp_all add: old seen_def st cong: bind_option_cong)
  have n_free: "\<not> linked h x ?n" for x using links_wfD(2) [OF wf, of x ?n] by auto
  show "links_wf h'"
  proof (rule links_wfI)
    show "keys_distinct (nexthopInfoMap h')"
      using links_wf_keys [OF wf]
      by (simp add: h'_def linkRouteInfoToNexthop_def linkRouteInfo_def upd_nexthop_def new split: option.splits)
    show "distinct (nexthopAssociationList ni)" if "map_of (nexthopInfoMap h') x = Some ni" for x ni
      using that links_wfD(1) [OF wf, of x] n_free [of x] r
      by (auto simp: linked_def h'_def linkRouteInfoToNexthop_def linkRouteInfo_def upd_nexthop_def new split: option.splits if_splits)
    show "a < next_route h' \<and> nexthopInfo (route_at h' a) = Some x" if "linked h' x a" for x a
      using that links_wfD(2,3) [OF wf, of x a] old [of a] at_n by (auto simp: lk nr)
    show "linked h' x a \<and> bp_nexthop (route_path (route_at h' a)) = x"
      if "a < next_route h'" "nexthopInfo (route_at h' a) = Some x" for x a
    proof (cases "a = ?n")
      case True
      then show ?thesis using that nh at_n by (auto simp: lk)
    next
      case False
      then have "a < ?n" using that(1) nr by simp
      then show ?thesis using that(2) links_wfD(4,5) [OF wf, of a x] old [of a] by (simp add: lk)
    qed
  qed
qed

lemma cleanup_map: "next_map (fst (snd (unlinkRouteInfoAndCleanupNexthop b a w))) = next_map (fst w)"
proof -
  obtain h k where w: "w = (h, k)" by (cases w)
  obtain u h' where u: "unlinkFromNexthopInfo a h = (u, h')" by (cases "unlinkFromNexthopInfo a h")
  then show ?thesis
    using unlink_routes(2) [of a h] by (cases u) (simp_all add: w unlinkRouteInfoAndCleanupNexthop_def check_routes)
qed


locale link_unlinker = route_unlinker +
  assumes unlink_links: "links_wf (fst w) \<Longrightarrow> links_wf (fst (snd (unlinkFn a w)))"
    and unlink_agree: "links_wf (fst w) \<Longrightarrow> b \<noteq> a \<Longrightarrow> b < next_route (fst w) \<Longrightarrow> agree_on (fst w) (fst (snd (unlinkFn a w))) b"
    and unlink_map: "next_map (fst (snd (unlinkFn a w))) = next_map (fst w)"
begin

lemma unlink_keeps: "keeps_routes (fst w) (fst (snd (unlinkFn a w)))"
  by (simp add: keeps_routes_def unlink_next unlink_route)

lemma announce_links:
  assumes res: "announcePath unlinkFn peer att inst i nh e w = Some (ch, e', w')"
    and wf: "entry_wf (fst w) e" "links_wf (fst w)"
    and nh: "nh = None \<or> nh = Some (bp_nexthop (path_of att)) \<and> map_of (nexthopInfoMap (fst w)) (bp_nexthop (path_of att)) \<noteq> None"
  shows "links_wf (fst w')" "keeps_routes (fst w) (fst w')" "next_map (fst w') = next_map (fst w)"
    "a < next_route (fst w) \<Longrightarrow> paths e (peerId peer, i) \<noteq> Some a \<Longrightarrow> agree_on (fst w) (fst w') a"
proof -
  let ?n = "next_route (fst w)"
  have old: "Option.bind (map_of (routeInfos e) (peerId peer)) (\<lambda>m. map_of m i) = paths e (peerId peer, i)"
    by (auto simp: paths_def getRouteInfo_def split: option.splits)
  consider "w' = w" | r s where "mkRouteInfo (e_prefix e) peer att i s inst = Some r"
      "w' = (case paths e (peerId peer, i) of None \<Rightarrow> (linkRouteInfoToNexthop ?n nh (snd (new_route r (fst w))), snd w)
         | Some b \<Rightarrow> snd (unlinkFn b (linkRouteInfoToNexthop ?n nh (snd (new_route r (fst w))), snd w)))"
    using res unfolding announcePath_def Let_def old
    by (auto simp: new_route_def split: if_splits option.splits)
  then have "links_wf (fst w') \<and> keeps_routes (fst w) (fst w') \<and> next_map (fst w') = next_map (fst w) \<and>
    (a < next_route (fst w) \<longrightarrow> paths e (peerId peer, i) \<noteq> Some a \<longrightarrow> agree_on (fst w) (fst w') a)"
  proof cases
    case (2 r s)
    let ?h = "linkRouteInfoToNexthop ?n nh (snd (new_route r (fst w)))"
    note f = mkRouteInfo_fields [OF 2(1)]
    have new: "links_wf ?h" "a < ?n \<Longrightarrow> agree_on (fst w) ?h a" "\<And>a. a < ?n \<Longrightarrow> route_at ?h a = route_at (fst w) a"
      "next_route ?h = Suc ?n" "next_map ?h = next_map (fst w)"
      using link_new [OF wf(2) f(7), of nh] nh by (simp_all add: f(3))
    then have k: "keeps_routes (fst w) ?h" by (simp add: keeps_routes_def)
    show ?thesis
    proof (cases "paths e (peerId peer, i)")
      case (Some b)
      then show ?thesis
        using 2(2) new k unlink_links [of "(?h, snd w)" b] unlink_keeps [of "(?h, snd w)" b] unlink_map [of b "(?h, snd w)"]
          unlink_agree [of "(?h, snd w)" a b] by (auto intro: keeps_routes_trans agree_trans)
    qed (use 2(2) new k in auto)
  qed (use wf in simp)
  then show "links_wf (fst w')" "keeps_routes (fst w) (fst w')" "next_map (fst w') = next_map (fst w)"
    "a < next_route (fst w) \<Longrightarrow> paths e (peerId peer, i) \<noteq> Some a \<Longrightarrow> agree_on (fst w) (fst w') a" by blast+
qed

end

interpretation tracked: link_unlinker "unlinkRouteInfoFromNexthop (Some (unlinkRouteInfoAndCleanupNexthop b))"
  by unfold_locales (simp_all add: unlinkRouteInfoFromNexthop_def cleanup_keeps cleanup_map)

text \<open>What a path and a peer must be for their route to take part in the decision process.\<close>

definition att_fine :: "TinyPeerInfo \<Rightarrow> published_path \<Rightarrow> bool" where
  "att_fine peer att \<longleftrightarrow> path_ok att \<and> t_addr peer \<noteq> IPEmpty \<and> bp_nexthop (path_of att) \<noteq> IPEmpty \<and>
     int (getBgpAsPathLen (path_of att)) < 2 ^ 31 \<and> int (getBgpAsPathLenWithConfed (path_of att)) < 2 ^ 31 \<and>
     int (length (bp_clusterList (path_of att))) < 2 ^ 63"

lemma mkRouteInfo_live: "mkRouteInfo pfx peer att i s inst = Some r \<Longrightarrow> \<not> getIsRouteDeleted r"
  by (auto simp: mkRouteInfo_def Let_def getIsRouteDeleted_def has_flag_def setRouteLocal_def setRouteExternal_def
      setRouteConfedExternal_def set_flag_def route_flags split: if_splits option.splits)

lemma mkRouteInfo_fine:
  assumes "mkRouteInfo pfx peer att i s inst = Some r" "att_fine peer att" "route_at h a = r\<lparr>nexthopInfo := nh\<rparr>"
  shows "route_fine h a"
  using assms mkRouteInfo_fields [OF assms(1)] mkRouteInfo_live [OF assms(1)]
  by (simp add: route_fine_def route_ok_def address_ok_def live_def Let_def att_fine_def path_ok_def getIsRouteDeleted_def has_flag_def)

text \<open>Only the paths of the entry, their count and the request for a selection differ.\<close>

definition paths_only :: "RibEntry \<Rightarrow> RibEntry \<Rightarrow> bool" where
  "paths_only e e' \<longleftrightarrow>
     e' = e\<lparr>routeInfos := routeInfos e', allPathsCount := allPathsCount e', needPathSelection := needPathSelection e'\<rparr>"

lemma paths_only_refl [simp]: "paths_only e e"
  by (simp add: paths_only_def)

lemma paths_onlyI: "e' = e\<lparr>routeInfos := m, allPathsCount := c, needPathSelection := b\<rparr> \<Longrightarrow> paths_only e e'"
  by (simp add: paths_only_def)

definition update_spec ::
  "TinyPeerInfo \<Rightarrow> published_path option \<Rightarrow> u32 \<Rightarrow> RibEntry \<Rightarrow> rib_store \<Rightarrow> bool \<Rightarrow> RibEntry \<Rightarrow> rib_store \<Rightarrow> bool" where
  "update_spec peer attOpt i e h ch e' h' \<longleftrightarrow>
     entry_wf h' e' \<and> links_wf h' \<and> keeps_routes h h' \<and> next_map h' = next_map h \<and>
     (\<forall>a < next_route h. paths e (peerId peer, i) \<noteq> Some a \<longrightarrow> agree_on h h' a) \<and>
     paths_only e e' \<and> (if ch then needPathSelection e' else e' = e \<and> h' = h) \<and>
     (case attOpt of
        None \<Rightarrow> paths e' = (paths e)((peerId peer, i) := None)
      | Some att \<Rightarrow>
          if ch then paths e' = (paths e)((peerId peer, i) \<mapsto> next_route h) \<and> next_route h < next_route h' \<and>
            r_peer (route_at h' (next_route h)) = peer \<and> r_attrs (route_at h' (next_route h)) = att \<and>
            (att_fine peer att \<longrightarrow> route_fine h' (next_route h))
          else \<exists>a. paths e (peerId peer, i) = Some a \<and> path_ptr (r_attrs (route_at h a)) = path_ptr att \<and>
            peer_eq (r_peer (route_at h a)) peer)"

lemma withdraw_spec:
  assumes wf: "entry_wf (fst w) e" "links_wf (fst w)"
  shows "\<exists>ch e' w'. updatePath (Some (unlinkRouteInfoAndCleanupNexthop b)) peer None inst i nh e w = Some (ch, e', w') \<and>
    update_spec peer None i e (fst w) ch e' (fst w')"
proof (cases "paths e (peerId peer, i)")
  case None
  have "paths e = (paths e)((peerId peer, i) := None)" using None by (simp add: fun_eq_iff)
  then have "update_spec peer None i e (fst w) False e (fst w)" using wf by (simp add: update_spec_def)
  then show ?thesis
    by (intro exI [of _ False] exI [of _ e] exI [of _ w]) (simp add: updatePath_def tracked.withdraw_absent [OF None])
next
  case (Some a)
  let ?u = "unlinkRouteInfoFromNexthop (Some (unlinkRouteInfoAndCleanupNexthop b))"
  from tracked.withdraw_present [OF wf(1) Some, of b] obtain e' where e': "withdrawPath ?u (peerId peer) i e w = (True, e', snd (?u a w))"
    "paths e' = (paths e)((peerId peer, i) := None)" "entry_wf (fst (snd (?u a w))) e'" "needPathSelection e'"
    "e' = e\<lparr>routeInfos := routeInfos e', allPathsCount := allPathsCount e - 1, needPathSelection := True\<rparr>"
    by (elim exE conjE)
  have "paths_only e e'" by (rule paths_onlyI [OF e'(5)])
  then have "update_spec peer None i e (fst w) True e' (fst (snd (?u a w)))"
    unfolding update_spec_def if_True option.case
    by (intro conjI allI impI tracked.unlink_links [OF wf(2)] tracked.unlink_keeps tracked.unlink_map tracked.unlink_agree [OF wf(2)]
        e'(2-4)) (use Some in auto)
  then show ?thesis
    by (intro exI [of _ True] exI [of _ e'] exI [of _ "snd (?u a w)"]) (simp add: updatePath_def e'(1))
qed

lemma announce_spec:
  assumes wf: "entry_wf (fst w) e" "links_wf (fst w)" and ok: "path_ok att"
    and nh: "nh = None \<or> nh = Some (bp_nexthop (path_of att)) \<and> map_of (nexthopInfoMap (fst w)) (bp_nexthop (path_of att)) \<noteq> None"
  shows "\<exists>ch e' w'. updatePath (Some (unlinkRouteInfoAndCleanupNexthop b)) peer (Some att) inst i nh e w = Some (ch, e', w') \<and>
    update_spec peer (Some att) i e (fst w) ch e' (fst w')"
proof -
  let ?u = "unlinkRouteInfoFromNexthop (Some (unlinkRouteInfoAndCleanupNexthop b))"
  let ?old = "paths e (peerId peer, i)"
  have old: "Option.bind (map_of (routeInfos e) (peerId peer)) (\<lambda>m. map_of m i) = ?old"
    by (auto simp: paths_def getRouteInfo_def split: option.splits)
  show ?thesis
  proof (cases "\<exists>a. ?old = Some a \<and> path_ptr (r_attrs (route_at (fst w) a)) = path_ptr att \<and> peer_eq (r_peer (route_at (fst w) a)) peer")
    case True
    then have "announcePath ?u peer att inst i nh e w = Some (False, e, w)"
      unfolding announcePath_def Let_def old by auto
    moreover have "update_spec peer (Some att) i e (fst w) False e (fst w)" using True wf by (simp add: update_spec_def)
    ultimately show ?thesis by (intro exI [of _ False] exI [of _ e] exI [of _ w]) (simp add: updatePath_def)
  next
    case False
    obtain r where r: "mkRouteInfo (e_prefix e) peer att i (Option.bind ?old (\<lambda>a. sendId (fst w) a)) inst = Some r"
      using mkRouteInfo_defined ok by blast
    let ?n = "next_route (fst w)"
    from tracked.announce_changed [OF wf(1) r False, of b nh] obtain e' w' where e': "announcePath ?u peer att inst i nh e w = Some (True, e', w')"
      "paths e' = (paths e)((peerId peer, i) \<mapsto> ?n)" "entry_wf (fst w') e'" "needPathSelection e'" "next_route (fst w') = Suc ?n"
      "\<forall>b. route_at (fst w') b = (if b = ?n then r\<lparr>nexthopInfo := nh\<rparr>
         else if ?old = Some b then (route_at (fst w) b)\<lparr>nexthopInfo := None\<rparr> else route_at (fst w) b)"
      "e' = e\<lparr>routeInfos := routeInfos e', allPathsCount := allPathsCount e', needPathSelection := True\<rparr>"
      by (elim exE conjE)
    note l = tracked.announce_links [OF e'(1) wf nh]
    have n: "route_at (fst w') ?n = r\<lparr>nexthopInfo := nh\<rparr>" using e'(6) by simp
    have "paths_only e e'" by (rule paths_onlyI [OF e'(7)])
    then have "update_spec peer (Some att) i e (fst w) True e' (fst w')"
      unfolding update_spec_def using e'(2-5) l mkRouteInfo_fields(2,3) [OF r] mkRouteInfo_fine [OF r _ n] by (simp add: n)
    then show ?thesis by (intro exI [of _ True] exI [of _ e'] exI [of _ w']) (simp add: updatePath_def e'(1))
  qed
qed

lemma card_paths:
  assumes "entry_wf h e"
  shows "finite (dom (paths e))" "card (dom (paths e)) = length (getAllPaths e)"
proof -
  have inj: "inj_on (the \<circ> paths e) (dom (paths e))"
  proof (rule inj_onI)
    fix k k' assume "k \<in> dom (paths e)" "k' \<in> dom (paths e)" "(the \<circ> paths e) k = (the \<circ> paths e) k'"
    then obtain a where "paths e k = Some a" "paths e k' = Some a" unfolding dom_def by auto
    then show "k = k'" by (rule paths_inj [OF assms])
  qed
  have img: "(the \<circ> paths e) ` dom (paths e) = ran (paths e)" by (force simp: ran_def image_iff dom_def)
  have "ran (paths e) = set (getAllPaths e)" by (rule set_getAllPaths [OF assms, symmetric])
  then have b: "bij_betw (the \<circ> paths e) (dom (paths e)) (set (getAllPaths e))" using inj img by (simp add: bij_betw_def)
  show "finite (dom (paths e))" using bij_betw_finite [OF b] by simp
  show "card (dom (paths e)) = length (getAllPaths e)"
    using bij_betw_same_card [OF b] distinct_card [OF distinct_getAllPaths [OF assms]] by simp
qed

lemma updatePath_spec:
  assumes wf: "entry_wf (fst w) e" "links_wf (fst w)"
    and ok: "\<And>att. attOpt = Some att \<Longrightarrow> path_ok att \<and>
      (nh = None \<or> nh = Some (bp_nexthop (path_of att)) \<and> map_of (nexthopInfoMap (fst w)) (bp_nexthop (path_of att)) \<noteq> None)"
  shows "\<exists>ch e' w'. updatePath (Some (unlinkRouteInfoAndCleanupNexthop b)) peer attOpt inst i nh e w = Some (ch, e', w') \<and>
    update_spec peer attOpt i e (fst w) ch e' (fst w')"
proof (cases attOpt)
  case None
  show ?thesis unfolding None by (rule withdraw_spec [OF wf])
next
  case (Some att)
  show ?thesis unfolding Some using ok [OF Some] by (intro announce_spec [OF wf]) simp_all
qed

text \<open>
  C7. \<^verbatim>\<open>updatePath\<close> refines the update of a map from peer and received path id to a route: it never
  aborts on a published path with a local preference, a withdrawal removes the key, and an announcement
  maps it to a route with the attributes and the peer announced, which is the old route when nothing
  changed. The counter is the number of paths, modulo the width of the counter, and the links between
  routes and next hops stay consistent.
\<close>

theorem updatePath_refines:
  assumes wf: "entry_wf h e" "links_wf h"
    and ok: "\<And>att. attOpt = Some att \<Longrightarrow> path_ok att \<and>
      (nh = None \<or> nh = Some (bp_nexthop (path_of att)) \<and> map_of (nexthopInfoMap h) (bp_nexthop (path_of att)) \<noteq> None)"
  shows "\<exists>ch e' h' c'. updatePath (Some (unlinkRouteInfoAndCleanupNexthop b)) peer attOpt inst i nh e (h, c) = Some (ch, e', h', c') \<and>
    entry_wf h' e' \<and> links_wf h' \<and> allPathsCount e' = of_nat (card (dom (paths e'))) \<and>
    (case attOpt of
       None \<Rightarrow> paths e' = (paths e)((peerId peer, i) := None)
     | Some att \<Rightarrow> \<exists>a. paths e' = (paths e)((peerId peer, i) \<mapsto> a) \<and> path_ptr (r_attrs (route_at h' a)) = path_ptr att \<and>
         (r_peer (route_at h' a) = peer \<or> peer_eq (r_peer (route_at h' a)) peer))"
proof -
  obtain ch e' w' where res: "updatePath (Some (unlinkRouteInfoAndCleanupNexthop b)) peer attOpt inst i nh e (h, c) = Some (ch, e', w')"
    and spec: "update_spec peer attOpt i e h ch e' (fst w')"
    using updatePath_spec [of "(h, c)" e attOpt nh b peer inst i, unfolded fst_conv, OF wf ok] by blast
  have e': "entry_wf (fst w') e'" "links_wf (fst w')" using spec by (simp_all add: update_spec_def)
  have "allPathsCount e' = of_nat (card (dom (paths e')))"
    using entry_wf_count [OF e'(1)] card_paths(2) [OF e'(1)] by simp
  moreover have "case attOpt of
       None \<Rightarrow> paths e' = (paths e)((peerId peer, i) := None)
     | Some att \<Rightarrow> \<exists>a. paths e' = (paths e)((peerId peer, i) \<mapsto> a) \<and> path_ptr (r_attrs (route_at (fst w') a)) = path_ptr att \<and>
         (r_peer (route_at (fst w') a) = peer \<or> peer_eq (r_peer (route_at (fst w') a)) peer)"
  proof (cases attOpt)
    case None
    then show ?thesis using spec by (simp add: update_spec_def)
  next
    case (Some att)
    show ?thesis
    proof (cases ch)
      case True
      then show ?thesis using spec Some by (auto simp: update_spec_def)
    next
      case False
      then obtain a where a: "e' = e" "fst w' = h" "paths e (peerId peer, i) = Some a" "path_ptr (r_attrs (route_at h a)) = path_ptr att"
        "peer_eq (r_peer (route_at h a)) peer" using spec Some by (auto simp: update_spec_def)
      then have "paths e' = (paths e)((peerId peer, i) \<mapsto> a)" by (simp add: fun_upd_idem)
      then show ?thesis using a Some by auto
    qed
  qed
  ultimately show ?thesis using res e' by (intro exI [of _ ch] exI [of _ e'] exI [of _ "fst w'"] exI [of _ "snd w'"]) simp
qed

lemma sample_entry_wf: "entry_wf sample_rib sample_entry"
proof (rule entry_wfI)
  show "keys_distinct (routeInfos sample_entry)" by (simp add: sample_entry_def)
  show "m \<noteq> [] \<and> keys_distinct m" if "map_of (routeInfos sample_entry) p = Some m" for p m
    using that by (auto simp: sample_entry_def split: if_splits)
  have "\<forall>a\<in>set [0, 1, 2]. a < next_route sample_rib \<and> r_prefix (route_at sample_rib a) = (IPv4 0x0A000000, 8)" by code_simp
  moreover have "route_key (route_at sample_rib 0) = ((IPv4 1, 1), 0)" "route_key (route_at sample_rib 1) = ((IPv4 2, 2), 0)"
    "route_key (route_at sample_rib 2) = ((IPv4 3, 3), 0)" by code_simp+
  ultimately show "a < next_route sample_rib \<and> r_prefix (route_at sample_rib a) = e_prefix sample_entry \<and> route_key (route_at sample_rib a) = k"
    if "paths sample_entry k = Some a" for k a
    using that by (cases k) (auto simp: sample_entry_def new_entry_def paths_def getRouteInfo_def split: option.splits if_splits)
  show "allPathsCount sample_entry = of_nat (length (getAllPaths sample_entry))"
    unfolding sample_paths by (simp add: sample_entry_def)
qed

lemma new_route_unlinked: "path_ok att \<Longrightarrow> nexthopInfo (the (mkRouteInfo pfx peer att i s inst)) = None"
  using mkRouteInfo_defined [of pfx peer att i s inst] mkRouteInfo_fields(7) by fastforce

lemma sample_links_wf: "links_wf sample_rib"
proof -
  have "nexthopInfo (sample_route lp asns nh p i) = None" for lp asns nh p i
    unfolding sample_route_def by (rule new_route_unlinked) (simp add: path_ok_def)
  then show ?thesis by (intro links_wfI) (auto simp: sample_rib_def linked_def split: if_splits)
qed

theorem updatePath_refines_witness:
  "\<exists>ch e' h' c'. updatePath (Some (unlinkRouteInfoAndCleanupNexthop True)) (r_peer (route_at sample_rib 1)) None True 0 None sample_entry
     (sample_rib, \<lparr>nexthopStatusMap = [], lastEpoch = 0, onNexthopRegistered = False\<rparr>) = Some (ch, e', h', c') \<and>
   paths e' = (paths sample_entry)(((IPv4 2, 2), 0) := None) \<and> entry_wf h' e' \<and> allPathsCount e' = of_nat (card (dom (paths e')))"
proof -
  have p: "peerId (r_peer (route_at sample_rib 1)) = (IPv4 2, 2)" by code_simp
  show ?thesis
    using updatePath_refines [OF sample_entry_wf sample_links_wf, where attOpt = None and nh = None and b = True and i = 0 and inst = True
        and peer = "r_peer (route_at sample_rib 1)" and c = "\<lparr>nexthopStatusMap = [], lastEpoch = 0, onNexthopRegistered = False\<rparr>", unfolded p]
    by (simp only: option.case option.distinct) blast
qed

end
