(* ===== verification/Rib_Base.thy ===== *)
theory Rib_Base
  imports Rib_Nexthop "HOL-Library.Monad_Syntax"
begin

text \<open>
  The RIB itself, \<^verbatim>\<open>rib/RibBase.{h,cpp}\<close>, with the development FIB \<^verbatim>\<open>rib/FibDev.cpp\<close> that
  \<^verbatim>\<open>RibBase::createFib\<close> makes: announcements and withdrawals of peers, aggregate routes, updates
  of next hops, pauses, the initial path computation, path selection for a batch of prefixes, the loop
  that programs the FIB and the handling of its acknowledgements.

  All of this runs on one event base, one handler at a time; \<open>Rib\<close> is the state between two handlers.
  A timer is a flag that says whether it is scheduled, a queue is a list with its head first. Hash maps
  are association lists, whose order is the order of iteration. The hooks that only \<^verbatim>\<open>RibDC\<close>
  overrides do nothing here, as in \<^verbatim>\<open>RibBase\<close>. Counters, log lines, time stamps and the payload
  that is kept for the inspection of the FIB are left out. \<open>None\<close> as a result means that a check failed
  or a null pointer was followed.
\<close>

subsection \<open>Messages\<close>

datatype RibPauseResumeCause =
    SAFE_MODE | ROUTE_CHURN | ROUTE_FILTER_POLICY_UPDATE | ROUTING_POLICY_UPDATE | BACKPRESSURE

type_synonym PrefixPathId = "cidr \<times> u32"

record RibOutAnnouncementEntry =
  oa_prefix :: cidr
  oa_pathIdToSend :: u32
  oa_peer :: TinyPeerInfo
  oa_attrs :: published_path
  oa_switchId :: "nat option"
  oa_multiPathSize :: "nat option"
  oa_aggregateReceivedUcmpWeight :: "u32 option"
  oa_aggregateLocalUcmpWeight :: "u32 option"
  oa_ribPolicyUcmpWeight :: "u32 option"
  oa_newlyInstalledInLocalRib :: bool
  oa_ribVersion :: u64
  oa_isPartialDrain :: bool

record RibOutWithdrawalEntry =
  ow_prefix :: cidr
  ow_pathIdToSend :: u32
  ow_nh :: "ipaddr option"
  ow_ribVersion :: u64

record RibOutAnnouncement =
  an_entries :: "RibOutAnnouncementEntry list"
  sendWithEoR :: bool
  initialDump :: bool
  an_addPathEntries :: "RibOutAnnouncementEntry list"

record RibOutWithdrawal =
  wd_entries :: "RibOutWithdrawalEntry list"
  wd_addPathEntries :: "RibOutWithdrawalEntry list"

text \<open>The RIB sends no \<^verbatim>\<open>ShadowRibOut\<close> messages.\<close>

datatype RibOutMessage =
    OutAnnouncement RibOutAnnouncement
  | OutWithdrawal RibOutWithdrawal
  | RibInitialAnnouncementStart

definition empty_announcement :: RibOutAnnouncement where
  "empty_announcement = \<lparr>an_entries = [], sendWithEoR = False, initialDump = False, an_addPathEntries = []\<rparr>"

definition empty_withdrawal :: RibOutWithdrawal where
  "empty_withdrawal = \<lparr>wd_entries = [], wd_addPathEntries = []\<rparr>"

definition kRibChunkSize :: nat where "kRibChunkSize = 160"
definition kDefaultPathID :: u32 where "kDefaultPathID = 0"
definition kPlaceholderPathID :: u32 where "kPlaceholderPathID = 0"

definition kV4LocalPeerInfo :: TinyPeerInfo where
  "kV4LocalPeerInfo =
     \<lparr>t_addr = kLocalRoutePeerAddr, t_asn = 0, t_routerId = 0, t_sessionType = IBGP, t_isRrClient = False,
      t_isRedistributePeer = False, t_ucmpWeight = None, t_description = []\<rparr>"

record PathIdEntry =
  oldPathId :: "u32 option"
  newPathId :: u32
  pe_attrs :: published_path

record PrefixPathIdBatch =
  pb_prefix :: cidr
  pb_withdrawals :: "u32 list"
  pb_entries :: "PathIdEntry list"

datatype RibInMessage =
    RibInAnnouncement TinyPeerInfo published_path "PrefixPathId list"
  | RibInWithdrawal TinyPeerInfo "PrefixPathId list"
  | RibInInitialPathComputation int
  | RibInNexthopUpdate "NexthopStatus list"
  | PauseBestPathAndFibProgramming RibPauseResumeCause
  | ResumeBestPathAndFibProgramming RibPauseResumeCause
  | NexthopResolutionUpdate "ipaddr list" "ipaddr list"
  | RibInAddPathGrUpdate TinyPeerInfo "PrefixPathIdBatch list"

subsection \<open>The development FIB\<close>

text \<open>
  A request is acknowledged with the pointer to the map of next hops it had; the requests are grouped by
  the attributes of the best path, a pointer that may be null.
\<close>

type_synonym fib_nexthops = "(nat \<times> weighted_nexthops) option"
type_synonym FibProgrammedPfxs = "(nat option \<times> (cidr \<times> fib_nexthops) list) list"

datatype FibMessage = FibProgrammedMessage FibProgrammedPfxs bool | FibSyncReq

record FibDev =
  waitForAck :: FibProgrammedPfxs
  initialFibSynced :: bool
  fullSynced :: bool

definition updateUnicastRoute :: "cidr \<Rightarrow> nat option \<Rightarrow> fib_nexthops \<Rightarrow> FibDev \<Rightarrow> FibDev" where
  "updateUnicastRoute pfx attrsToBeAdvertised wnh f =
     (let group = (case map_of (waitForAck f) attrsToBeAdvertised of None \<Rightarrow> [] | Some g \<Rightarrow> g) in
      f\<lparr>waitForAck := AList.update attrsToBeAdvertised (AList.update pfx wnh group) (waitForAck f)\<rparr>)"

definition fib_program :: "bool \<Rightarrow> FibDev \<Rightarrow> FibMessage \<times> FibDev" where
  "fib_program isSync f =
     (FibProgrammedMessage (waitForAck f) isSync,
      f\<lparr>waitForAck := [], initialFibSynced := initialFibSynced f \<or> isSync, fullSynced := fullSynced f \<or> isSync\<rparr>)"

subsection \<open>State\<close>

record LocalRoute =
  minimum_supporting_routes :: "int option"
  install_to_fib :: "bool option"
  require_nexthop_resolution :: "bool option"
  supportPfxCnt :: int
  lr_attrs :: published_path

definition getMinSupportRoutes :: "LocalRoute \<Rightarrow> int" where
  "getMinSupportRoutes lr = (case minimum_supporting_routes lr of None \<Rightarrow> 0 | Some n \<Rightarrow> n)"

definition getInstallToFib :: "LocalRoute \<Rightarrow> bool" where
  "getInstallToFib lr = (case install_to_fib lr of None \<Rightarrow> False | Some b \<Rightarrow> b)"

definition getRequireNhResolution :: "LocalRoute \<Rightarrow> bool" where
  "getRequireNhResolution lr = (case require_nexthop_resolution lr of None \<Rightarrow> False | Some b \<Rightarrow> b)"

text \<open>What is fixed when the RIB is made.\<close>

record RibConfig =
  features :: BgpBestpathFeatures
  enableNexthopTracking :: bool
  multipathSelector :: "RouteFilter list"
  bestpathSelector :: "RouteFilter list"
  computeUcmpFromLbwComm :: bool
  cfg_ucmpWidth :: u32
  floats :: float_ops
  switchId :: "nat option"
  ribOutQHighWatermark :: nat
  nexthopSubscribeRequester :: bool
  highWatermarkForRouteChurn :: u64
  lowWatermarkForRouteChurn :: u64

record Rib =
  ribEntries :: "(cidr \<times> RibEntry) list"
  localRoutes :: "(cidr \<times> LocalRoute) list"
  conditionalLocalRoutes :: "(ipaddr \<times> cidr list) list"
  fibBatchList :: "cidr list"
  store :: rib_store
  nexthopCache :: NexthopCache
  requestedNexthops :: "ipaddr list"
  pendingNexthopSubscriptions :: "ipaddr list"
  ribEoRReceived :: bool
  initialEorSent :: bool
  pendingInitialPathComputation :: bool
  firstNexthopResolutionProcessed :: bool
  nexthopResolutionTimer :: bool
  fibBatchTimer :: bool
  ribPauseTimer :: bool
  pauseBestPathAndFibProgramming :: bool
  pausedBy :: "RibPauseResumeCause list"
  fibSyncReqPending :: bool
  prefixCountForRouteChurn :: u64
  routeChurnDetected :: bool
  churnMonitor :: bool
  ribVersion :: u64
  toFibMessageQ :: "bool list"
  fromFibMessageQ :: "FibMessage list"
  fib :: FibDev
  ribOutQ :: "RibOutMessage list"

text \<open>The fold of a step that may abort.\<close>

fun fold_opt :: "('a \<Rightarrow> 's \<Rightarrow> 's option) \<Rightarrow> 'a list \<Rightarrow> 's \<Rightarrow> 's option" where
  "fold_opt f [] s = Some s"
| "fold_opt f (x # xs) s = (case f x s of None \<Rightarrow> None | Some s \<Rightarrow> fold_opt f xs s)"

definition set_entry :: "cidr \<Rightarrow> RibEntry \<Rightarrow> Rib \<Rightarrow> Rib" where
  "set_entry pfx e rib = rib\<lparr>ribEntries := AList.update pfx e (ribEntries rib)\<rparr>"

text \<open>The hook of the batch list unlinks itself when its entry is destroyed.\<close>

definition erase_entry :: "cidr \<Rightarrow> Rib \<Rightarrow> Rib" where
  "erase_entry pfx rib =
     rib\<lparr>ribEntries := AList.delete pfx (ribEntries rib), fibBatchList := filter (\<lambda>p. p \<noteq> pfx) (fibBatchList rib)\<rparr>"

definition batch_entry :: "cidr \<Rightarrow> Rib \<Rightarrow> Rib" where
  "batch_entry pfx rib =
     (if pfx \<in> set (fibBatchList rib) then rib else rib\<lparr>fibBatchList := fibBatchList rib @ [pfx]\<rparr>)"

subsection \<open>Pauses and the queue to the peers\<close>

definition processPauseBestPathAndFibProgramming :: "RibPauseResumeCause \<Rightarrow> Rib \<Rightarrow> Rib" where
  "processPauseBestPathAndFibProgramming taskName rib =
     (if taskName \<in> set (pausedBy rib) then rib
      else let rib = rib\<lparr>pausedBy := taskName # pausedBy rib\<rparr>;
               rib = (if \<not> pauseBestPathAndFibProgramming rib
                      then rib\<lparr>pauseBestPathAndFibProgramming := True, fibBatchTimer := False\<rparr> else rib)
           in if taskName = BACKPRESSURE then rib else rib\<lparr>ribPauseTimer := True\<rparr>)"

definition ribOutQPush :: "RibConfig \<Rightarrow> RibOutMessage \<Rightarrow> Rib \<Rightarrow> Rib" where
  "ribOutQPush cfg msg rib =
     (let rib = rib\<lparr>ribOutQ := ribOutQ rib @ [msg]\<rparr> in
      if length (ribOutQ rib) > ribOutQHighWatermark cfg
      then processPauseBestPathAndFibProgramming BACKPRESSURE rib else rib)"

definition schedulePrepareFibProgrammingTimer :: "Rib \<Rightarrow> Rib" where
  "schedulePrepareFibProgrammingTimer rib =
     (if pauseBestPathAndFibProgramming rib \<or> fibBatchTimer rib then rib else rib\<lparr>fibBatchTimer := True\<rparr>)"

definition incrementRibVersion :: "Rib \<Rightarrow> u64 \<times> Rib" where
  "incrementRibVersion rib = (ribVersion rib + 1, rib\<lparr>ribVersion := ribVersion rib + 1\<rparr>)"

subsection \<open>Announcements and withdrawals\<close>

text \<open>\<^verbatim>\<open>getNexthopInfo\<close> with the request to subscribe to a next hop that is seen for the first time.\<close>

definition rib_getNexthopInfo :: "RibConfig \<Rightarrow> ipaddr \<Rightarrow> Rib \<Rightarrow> (ipaddr option \<times> Rib) option" where
  "rib_getNexthopInfo cfg nhAddr rib =
     (case getNexthopInfo nhAddr (store rib, nexthopCache rib) of
        None \<Rightarrow> None
      | Some (nh, new, h, c) \<Rightarrow>
          let rib = rib\<lparr>store := h, nexthopCache := c\<rparr> in
          Some (nh, if new \<and> nexthopSubscribeRequester cfg \<and> nhAddr \<notin> set (requestedNexthops rib)
                    then rib\<lparr>requestedNexthops := nhAddr # requestedNexthops rib,
                             pendingNexthopSubscriptions := pendingNexthopSubscriptions rib @ [nhAddr]\<rparr>
                    else rib))"

definition maybeFlushNexthopSubscriptions :: "Rib \<Rightarrow> Rib" where
  "maybeFlushNexthopSubscriptions rib = rib\<lparr>pendingNexthopSubscriptions := []\<rparr>"

definition isSubnet :: "cidr \<Rightarrow> cidr \<Rightarrow> bool" where
  "isSubnet subPfx parentPfx \<longleftrightarrow>
     isV4 (fst subPfx) = isV4 (fst parentPfx) \<and> inSubnet (fst subPfx) (fst parentPfx) (snd parentPfx) \<and>
     snd subPfx \<ge> snd parentPfx"

text \<open>The update of one local route, and the aggregate to announce or withdraw.\<close>

definition aggregateOne ::
  "cidr \<Rightarrow> bool \<Rightarrow> cidr \<times> LocalRoute \<Rightarrow> (cidr \<times> LocalRoute) \<times> (cidr \<times> published_path option) list" where
  "aggregateOne pfx announcement l =
     (case l of (localPrefix, lr) \<Rightarrow>
      if \<not> isSubnet pfx localPrefix then (l, [])
      else if getMinSupportRoutes lr = 0 then (l, [])
      else if \<not> announcement \<and> supportPfxCnt lr = 0 then (l, [])
      else if \<not> announcement
        then let lr' = lr\<lparr>supportPfxCnt := supportPfxCnt lr - 1\<rparr> in
             ((localPrefix, lr'),
              if supportPfxCnt lr' = getMinSupportRoutes lr - 1 then [(localPrefix, None)] else [])
        else let lr' = lr\<lparr>supportPfxCnt := supportPfxCnt lr + 1\<rparr> in
             ((localPrefix, lr'),
              if supportPfxCnt lr' = getMinSupportRoutes lr then [(localPrefix, Some (lr_attrs lr))] else []))"

definition aggregateRoute :: "cidr \<Rightarrow> bool \<Rightarrow> Rib \<Rightarrow> (cidr \<times> published_path option) list \<times> Rib" where
  "aggregateRoute pfx announcement rib =
     (let rs = map (aggregateOne pfx announcement) (localRoutes rib) in
      (concat (map snd rs), rib\<lparr>localRoutes := map fst rs\<rparr>))"

definition checkWithdrawalBeforeRouteProgrammed :: "cidr \<Rightarrow> RibEntry \<Rightarrow> Rib \<Rightarrow> Rib" where
  "checkWithdrawalBeforeRouteProgrammed pfx e rib =
     (if \<not> hasFibOutState e \<and> routeInfos e = [] then erase_entry pfx rib else rib)"

text \<open>The update of the entry, after the early returns; the path counts before and after.\<close>

definition updateRibEntry ::
  "RibConfig \<Rightarrow> TinyPeerInfo \<Rightarrow> published_path option \<Rightarrow> bool \<Rightarrow> PrefixPathId \<Rightarrow> RibEntry \<Rightarrow> Rib \<Rightarrow> (RibEntry \<times> Rib) option" where
  "updateRibEntry cfg peer attOpt install pfxPid e rib =
     do {
       (nh, rib) \<leftarrow> (case attOpt of
          Some att \<Rightarrow> if enableNexthopTracking cfg then rib_getNexthopInfo cfg (bp_nexthop (path_of att)) rib else Some (None, rib)
        | None \<Rightarrow> Some (None, rib));
       (changed, e, h, c) \<leftarrow> updatePath (Some (unlinkRouteInfoAndCleanupNexthop (fibBatchList rib = [])))
          peer attOpt install (snd pfxPid) nh e (store rib, nexthopCache rib);
       Some (e, set_entry (fst pfxPid) e (rib\<lparr>store := h, nexthopCache := c\<rparr>))
     }"

definition processSingleRibInUpdate ::
  "RibConfig \<Rightarrow> TinyPeerInfo \<Rightarrow> published_path option \<Rightarrow> PrefixPathId \<Rightarrow> Rib \<Rightarrow>
   ((cidr \<times> published_path option) list \<times> Rib) option" where
  "processSingleRibInUpdate cfg peer attOpt pfxPid rib =
     (let pfx = fst pfxPid;
          found = map_of (ribEntries rib) pfx;
          e = (case found of None \<Rightarrow> new_entry pfx | Some e \<Rightarrow> e);
          oldAllPathCnt = allPathsCount e;
          lr = (if peer_eq peer kV4LocalPeerInfo then map_of (localRoutes rib) pfx else None);
          install = (case lr of None \<Rightarrow> \<not> t_isRedistributePeer peer | Some l \<Rightarrow> getInstallToFib l);
          isAggRoute = (case lr of None \<Rightarrow> False | Some l \<Rightarrow> getMinSupportRoutes l > 0)
      in if attOpt = None \<and> (found = None \<or> oldAllPathCnt = 0) then Some ([], rib)
         else do {
           (e, rib) \<leftarrow> updateRibEntry cfg peer attOpt install pfxPid e rib;
           let newAllPathCnt = allPathsCount e;
           let rib = (if attOpt = None then checkWithdrawalBeforeRouteProgrammed pfx e rib else rib);
           let sameAsLocalRoute = (map_of (localRoutes rib) pfx \<noteq> None);
           let supportingRouteWithdrawn =
             (\<not> sameAsLocalRoute \<and> oldAllPathCnt = 1 \<and> newAllPathCnt = 0 \<or>
              sameAsLocalRoute \<and> newAllPathCnt = oldAllPathCnt - 1);
           let supportingRouteAnnouncement =
             (\<not> sameAsLocalRoute \<and> oldAllPathCnt = 0 \<and> newAllPathCnt = 1 \<or>
              sameAsLocalRoute \<and> newAllPathCnt = oldAllPathCnt + 1);
           Some (if isAggRoute then ([], rib)
                 else if supportingRouteWithdrawn \<or> supportingRouteAnnouncement
                 then aggregateRoute pfx supportingRouteAnnouncement rib
                 else ([], rib))
         })"

text \<open>One round of the loop over the prefixes of a message: the update, then the aggregates it causes.\<close>

definition processAggregate :: "RibConfig \<Rightarrow> cidr \<times> published_path option \<Rightarrow> Rib \<Rightarrow> Rib option" where
  "processAggregate cfg agg rib =
     map_option snd (processSingleRibInUpdate cfg kV4LocalPeerInfo (snd agg) (fst agg, kDefaultPathID) rib)"

definition processPrefix :: "RibConfig \<Rightarrow> TinyPeerInfo \<Rightarrow> published_path option \<Rightarrow> PrefixPathId \<Rightarrow> Rib \<Rightarrow> Rib option" where
  "processPrefix cfg peer attOpt pfxPid rib =
     do {
       (aggs, rib) \<leftarrow> processSingleRibInUpdate cfg peer attOpt pfxPid rib;
       fold_opt (processAggregate cfg) aggs rib
     }"

definition incrementPrefixCountForRouteChurn :: "nat \<Rightarrow> Rib \<Rightarrow> Rib" where
  "incrementPrefixCountForRouteChurn n rib =
     rib\<lparr>prefixCountForRouteChurn := prefixCountForRouteChurn rib + of_nat n\<rparr>"

definition processRibInAnnouncement ::
  "RibConfig \<Rightarrow> TinyPeerInfo \<Rightarrow> published_path \<Rightarrow> PrefixPathId list \<Rightarrow> Rib \<Rightarrow> Rib option" where
  "processRibInAnnouncement cfg peer att pfxPathIds rib =
     do {
       rib \<leftarrow> fold_opt (processPrefix cfg peer (Some att)) pfxPathIds rib;
       let rib = maybeFlushNexthopSubscriptions rib;
       Some (if ribEoRReceived rib
             then schedulePrepareFibProgrammingTimer (incrementPrefixCountForRouteChurn (length pfxPathIds) rib)
             else rib)
     }"

definition processRibInWithdrawal :: "RibConfig \<Rightarrow> TinyPeerInfo \<Rightarrow> PrefixPathId list \<Rightarrow> Rib \<Rightarrow> Rib option" where
  "processRibInWithdrawal cfg peer pfxPathIds rib =
     do {
       rib \<leftarrow> fold_opt (processPrefix cfg peer None) pfxPathIds rib;
       let rib = maybeFlushNexthopSubscriptions rib;
       Some (if ribEoRReceived rib
             then schedulePrepareFibProgrammingTimer (incrementPrefixCountForRouteChurn (length pfxPathIds) rib)
             else rib)
     }"

subsection \<open>Path selection for the FIB\<close>

definition runBestPathSelection ::
  "RibConfig \<Rightarrow> RibEntry \<times> rib_store \<Rightarrow> ((bool \<times> bool) \<times> RibEntry \<times> rib_store) option" where
  "runBestPathSelection cfg =
     selectBestPath (floats cfg) (features cfg) (multipathSelector cfg) (bestpathSelector cfg)
       (computeUcmpFromLbwComm cfg) (cfg_ucmpWidth cfg)"

definition multipathChanged :: "RibEntry \<Rightarrow> bool" where
  "multipathChanged e \<longleftrightarrow> \<not> map_eq (advertisedMultipaths e) (multipaths e)"

text \<open>
  The withdrawal of every advertised next hop for the peers with add-path, in chunks; the version is
  taken anew after each chunk that is sent.
\<close>

definition addPathWithdrawOne ::
  "RibConfig \<Rightarrow> cidr \<Rightarrow> ipaddr \<Rightarrow> Rib \<times> RibOutWithdrawal \<times> u64 \<Rightarrow> Rib \<times> RibOutWithdrawal \<times> u64" where
  "addPathWithdrawOne cfg pfx nh s =
     (case s of (rib, w, v) \<Rightarrow>
      let (rib, w, v) =
        (if length (wd_addPathEntries w) = kRibChunkSize
         then case incrementRibVersion (ribOutQPush cfg (OutWithdrawal w) rib) of
                (v, rib) \<Rightarrow> (rib, empty_withdrawal, v)
         else (rib, w, v))
      in (rib, w\<lparr>wd_addPathEntries := wd_addPathEntries w @
            [\<lparr>ow_prefix = pfx, ow_pathIdToSend = kPlaceholderPathID, ow_nh = Some nh, ow_ribVersion = v\<rparr>]\<rparr>, v))"

definition handleFullAddPathWithdrawal ::
  "RibConfig \<Rightarrow> RibEntry \<Rightarrow> Rib \<times> RibOutWithdrawal \<times> u64 \<Rightarrow> Rib \<times> RibOutWithdrawal \<times> u64" where
  "handleFullAddPathWithdrawal cfg e s =
     (case advertisedWeightedNexthops e of
        None \<Rightarrow> s
      | Some (_, ws) \<Rightarrow> fold (\<lambda>(nh, _). addPathWithdrawOne cfg (e_prefix e) nh) ws s)"

text \<open>The state of the loop: the RIB, and the withdrawals that are collected without and with add-path.\<close>

type_synonym prepare_state = "Rib \<times> RibOutWithdrawal \<times> RibOutWithdrawal"

definition withdrawEntry :: "RibConfig \<Rightarrow> cidr \<Rightarrow> RibEntry \<Rightarrow> prepare_state \<Rightarrow> prepare_state" where
  "withdrawEntry cfg pfx e s =
     (case s of (rib, w, wAdd) \<Rightarrow>
      let (rib, w) = (if length (wd_entries w) = kRibChunkSize
                      then (ribOutQPush cfg (OutWithdrawal w) rib, empty_withdrawal) else (rib, w));
          (v, rib) = incrementRibVersion rib;
          (rib, wAdd, v) = handleFullAddPathWithdrawal cfg e (rib, wAdd, v);
          w = w\<lparr>wd_entries := wd_entries w @
            [\<lparr>ow_prefix = pfx, ow_pathIdToSend = kDefaultPathID, ow_nh = None, ow_ribVersion = v\<rparr>]\<rparr>;
          e = snd (commitBestpath (e\<lparr>e_ribVersion := v\<rparr>))
      in (set_entry pfx e rib, w, wAdd))"

definition batch_in :: "cidr \<Rightarrow> prepare_state \<Rightarrow> prepare_state" where
  "batch_in pfx s = (case s of (rib, w, wAdd) \<Rightarrow> (batch_entry pfx rib, w, wAdd))"

definition prepareOne :: "RibConfig \<Rightarrow> bool \<Rightarrow> cidr \<Rightarrow> prepare_state \<Rightarrow> prepare_state option" where
  "prepareOne cfg fullSync pfx s =
     (case s of (rib, w, wAdd) \<Rightarrow>
      case map_of (ribEntries rib) pfx of
        None \<Rightarrow> Some s
      | Some e \<Rightarrow>
          if \<not> fullSync \<and> \<not> needPathSelection e then Some s
          else (case runBestPathSelection cfg (e, store rib) of
            None \<Rightarrow> None
          | Some ((bestpathChanged, nexthopChanged), e, h) \<Rightarrow>
              let rib = set_entry pfx e (rib\<lparr>store := h\<rparr>);
                  rib = (if fullSync then rib\<lparr>fibBatchList := fibBatchList rib @ [pfx]\<rparr> else rib)
              in Some (
                if \<not> bestpathChanged \<and> \<not> nexthopChanged \<and> multipathChanged e
                then batch_in pfx (rib, w, wAdd)
                else let s = (if nexthopChanged \<or> bestpathChanged
                       then batch_in pfx
                         (if weightedNexthops e = None \<or> bestpathChanged \<and> bestpath e = None
                          then withdrawEntry cfg pfx e (rib, w, wAdd) else (rib, w, wAdd))
                       else (rib, w, wAdd))
                     in if allPathsCount e = 0 \<and> hasFibOutState e then batch_in pfx s else s)))"

definition prepareFibProgramming :: "RibConfig \<Rightarrow> bool \<Rightarrow> Rib \<Rightarrow> Rib option" where
  "prepareFibProgramming cfg fullSync rib =
     do {
       let rib = (if fullSync then rib\<lparr>fibBatchList := []\<rparr> else rib);
       (rib, w, wAdd) \<leftarrow> fold_opt (prepareOne cfg fullSync) (map fst (ribEntries rib)) (rib, empty_withdrawal, empty_withdrawal);
       let w = w\<lparr>wd_addPathEntries := wd_addPathEntries wAdd\<rparr>;
       let rib = (if wd_entries w \<noteq> [] \<or> wd_addPathEntries w \<noteq> [] then ribOutQPush cfg (OutWithdrawal w) rib else rib);
       Some (if fibBatchList rib = [] \<and> \<not> fullSync then rib else rib\<lparr>toFibMessageQ := toFibMessageQ rib @ [fullSync]\<rparr>)
     }"

subsection \<open>Programming of the FIB\<close>

definition programOne :: "cidr \<Rightarrow> Rib \<Rightarrow> Rib" where
  "programOne pfx rib =
     (case map_of (ribEntries rib) pfx of
        None \<Rightarrow> rib
      | Some e \<Rightarrow>
          set_entry pfx (e\<lparr>hasFibOutState := True\<rparr>)
            (rib\<lparr>fib := updateUnicastRoute pfx
              (map_option (\<lambda>a. path_ptr (r_attrs (route_at (store rib) a))) (bestpath e)) (weightedNexthops e) (fib rib)\<rparr>))"

text \<open>
  One round of the loop: it drains the queue of requests, which is not empty, and then takes the batch.
  The development FIB is always connected.
\<close>

definition processFibProgrammingMsg :: "Rib \<Rightarrow> Rib" where
  "processFibProgrammingMsg rib =
     (let fullSync = (True \<in> set (toFibMessageQ rib));
          rib = rib\<lparr>toFibMessageQ := []\<rparr>
      in if \<not> fullSynced (fib rib) \<and> \<not> fullSync then rib
         else let toFibTotal = length (fibBatchList rib);
                  rib = fold programOne (fibBatchList rib) rib;
                  rib = rib\<lparr>fibBatchList := []\<rparr>;
                  (h, c) = deleteUnusedNexthopInfos (store rib, nexthopCache rib);
                  rib = rib\<lparr>store := h, nexthopCache := c\<rparr>
              in if fullSync \<or> toFibTotal \<noteq> 0
                 then case fib_program fullSync (fib rib) of
                        (msg, f) \<Rightarrow> rib\<lparr>fib := f, fromFibMessageQ := fromFibMessageQ rib @ [msg]\<rparr>
                 else rib)"

subsection \<open>Acknowledgements of the FIB\<close>

text \<open>The order of \<^verbatim>\<open>FibProgrammedPrefixIterator\<close>: first the prefixes of local routes.\<close>

definition fibProgrammedOrder ::
  "(cidr \<times> LocalRoute) list \<Rightarrow> (cidr \<times> fib_nexthops) list \<Rightarrow> (cidr \<times> fib_nexthops) list" where
  "fibProgrammedOrder locals pfxNhs =
     List.map_filter (\<lambda>(p, _). map_option (Pair p) (map_of pfxNhs p)) locals @
     filter (\<lambda>(p, _). map_of locals p = None) pfxNhs"

record ack_state =
  ack_rib :: Rib
  announcement :: RibOutAnnouncement
  announcementAddPath :: RibOutAnnouncement
  ack_withdrawal :: RibOutWithdrawal

definition flushAnnouncementChunk :: "RibConfig \<Rightarrow> bool \<Rightarrow> RibOutAnnouncement \<Rightarrow> Rib \<Rightarrow> Rib" where
  "flushAnnouncementChunk cfg eor a rib =
     ribOutQPush cfg (OutAnnouncement (if eor then a\<lparr>initialDump := True\<rparr> else a)) rib"

definition mkAnnouncementEntry ::
  "RibConfig \<Rightarrow> cidr \<Rightarrow> u32 \<Rightarrow> RouteInfo \<Rightarrow> RibEntry \<Rightarrow> bool \<Rightarrow> u64 \<Rightarrow> RibOutAnnouncementEntry" where
  "mkAnnouncementEntry cfg pfx i r e newly v =
     \<lparr>oa_prefix = pfx, oa_pathIdToSend = i, oa_peer = r_peer r, oa_attrs = r_attrs r, oa_switchId = switchId cfg,
      oa_multiPathSize = Some (length (multipaths e)),
      oa_aggregateReceivedUcmpWeight = Some (aggregateReceivedUcmpWeight e),
      oa_aggregateLocalUcmpWeight = Some (aggregateLocalUcmpWeight e),
      oa_ribPolicyUcmpWeight = Some (ribPolicyUcmpWeight e), oa_newlyInstalledInLocalRib = newly,
      oa_ribVersion = v, oa_isPartialDrain = isPartialDrain e\<rparr>"

text \<open>A path for the peers with add-path; the path must have an id.\<close>

definition addPathAnnounceOne ::
  "RibConfig \<Rightarrow> bool \<Rightarrow> cidr \<Rightarrow> RibEntry \<Rightarrow> bool \<Rightarrow> nat \<Rightarrow> ack_state \<times> u64 \<Rightarrow> (ack_state \<times> u64) option" where
  "addPathAnnounceOne cfg eor pfx e newly a sv =
     (case sv of (s, v) \<Rightarrow>
      let (s, v) =
        (if length (an_addPathEntries (announcementAddPath s)) = kRibChunkSize
         then case incrementRibVersion (flushAnnouncementChunk cfg eor (announcementAddPath s) (ack_rib s)) of
                (v, rib) \<Rightarrow> (s\<lparr>ack_rib := rib, announcementAddPath := empty_announcement\<rparr>, v)
         else (s, v));
          r = route_at (store (ack_rib s)) a
      in case pathIdToSend r of
           None \<Rightarrow> None
         | Some i \<Rightarrow>
             Some (s\<lparr>announcementAddPath := (announcementAddPath s)
               \<lparr>an_addPathEntries := an_addPathEntries (announcementAddPath s) @
                 [mkAnnouncementEntry cfg pfx i r e newly v]\<rparr>\<rparr>, v))"

text \<open>The withdrawal of a next hop that is not used any more.\<close>

definition ackWithdrawOne :: "RibConfig \<Rightarrow> cidr \<Rightarrow> ipaddr \<Rightarrow> ack_state \<times> u64 \<Rightarrow> ack_state \<times> u64" where
  "ackWithdrawOne cfg pfx nh sv =
     (case sv of (s, v) \<Rightarrow>
      case addPathWithdrawOne cfg pfx nh (ack_rib s, ack_withdrawal s, v) of
        (rib, w, v) \<Rightarrow> (s\<lparr>ack_rib := rib, ack_withdrawal := w\<rparr>, v))"

definition announceMultipaths ::
  "RibConfig \<Rightarrow> bool \<Rightarrow> cidr \<Rightarrow> RibEntry \<Rightarrow> fib_nexthops \<Rightarrow> bool \<Rightarrow> ack_state \<times> u64 \<Rightarrow> (ack_state \<times> u64) option" where
  "announceMultipaths cfg eor pfx e oldNhs newly sv =
     do {
       sv \<leftarrow> fold_opt (addPathAnnounceOne cfg eor pfx e newly) (map snd (advertisedMultipaths e)) sv;
       Some (case (oldNhs, advertisedWeightedNexthops e) of
          (Some (_, old), Some (_, new)) \<Rightarrow>
            (if map_eq old new then sv
             else fold (ackWithdrawOne cfg pfx) (filter (\<lambda>nh. map_of new nh = None) (map fst old)) sv)
        | _ \<Rightarrow> sv)
     }"

text \<open>The announcement of the best path, to the peers without add-path.\<close>

definition announceBestpath :: "RibConfig \<Rightarrow> bool \<Rightarrow> cidr \<Rightarrow> RibEntry \<Rightarrow> bool \<Rightarrow> u64 \<Rightarrow> ack_state \<Rightarrow> ack_state option" where
  "announceBestpath cfg eor pfx e newly v s =
     (case advertisedBestpath e of
        None \<Rightarrow> None
      | Some a \<Rightarrow>
          let s = (if length (an_entries (announcement s)) = kRibChunkSize
                   then s\<lparr>ack_rib := flushAnnouncementChunk cfg eor (announcement s) (ack_rib s), announcement := empty_announcement\<rparr>
                   else s)
          in Some (s\<lparr>announcement := (announcement s)\<lparr>an_entries := an_entries (announcement s) @
               [mkAnnouncementEntry cfg pfx kDefaultPathID (route_at (store (ack_rib s)) a) e newly v]\<rparr>\<rparr>))"

text \<open>
  A prefix whose next hops are the ones the entry still has: its multipaths and its best path are
  committed and announced.
\<close>

definition commitEntry :: "RibConfig \<Rightarrow> bool \<Rightarrow> cidr \<Rightarrow> RibEntry \<Rightarrow> ack_state \<Rightarrow> ack_state option" where
  "commitEntry cfg eor pfx e s =
     (let (v, rib) = incrementRibVersion (ack_rib s);
          s = s\<lparr>ack_rib := rib\<rparr>;
          oldNhs = advertisedWeightedNexthops e;
          e = snd (commitMultipathNexthops e);
          newly = (advertisedBestpath e = None);
          (multipathsChanged, e) = commitMultipaths e
      in do {
        (s, v) \<leftarrow> (if multipathsChanged \<and> bestpath e \<noteq> None then announceMultipaths cfg eor pfx e oldNhs newly (s, v)
                   else Some (s, v));
        let (bestpathChanged, e) = commitBestpath (e\<lparr>e_ribVersion := v\<rparr>);
        let s = s\<lparr>ack_rib := set_entry pfx e (ack_rib s)\<rparr>;
        if bestpathChanged then announceBestpath cfg eor pfx e newly v s else Some s
      })"

definition ackOne :: "RibConfig \<Rightarrow> bool \<Rightarrow> cidr \<times> fib_nexthops \<Rightarrow> ack_state \<Rightarrow> ack_state option" where
  "ackOne cfg eor pn s =
     (case pn of (pfx, wnh) \<Rightarrow>
      case map_of (ribEntries (ack_rib s)) pfx of
        None \<Rightarrow> Some s
      | Some e \<Rightarrow>
          if wnh = None
          then Some (if allPathsCount e = 0 \<and> pfx \<notin> set (fibBatchList (ack_rib s))
                     then s\<lparr>ack_rib := erase_entry pfx (ack_rib s)\<rparr> else s)
          else if map_option fst (weightedNexthops e) \<noteq> map_option fst wnh then Some s
          else commitEntry cfg eor pfx e s)"

definition handleFibProgrammedMessage :: "RibConfig \<Rightarrow> FibProgrammedPfxs \<Rightarrow> bool \<Rightarrow> Rib \<Rightarrow> Rib option" where
  "handleFibProgrammedMessage cfg pfxs isSync rib =
     (let eor = (isSync \<and> \<not> initialEorSent rib);
          rib = (if eor then rib\<lparr>initialEorSent := True, ribOutQ := ribOutQ rib @ [RibInitialAnnouncementStart]\<rparr> else rib)
      in do {
        s \<leftarrow> fold_opt (ackOne cfg eor) (concat (map (\<lambda>(_, g). fibProgrammedOrder (localRoutes rib) g) pfxs))
               \<lparr>ack_rib = rib, announcement = empty_announcement, announcementAddPath = empty_announcement,
                ack_withdrawal = empty_withdrawal\<rparr>;
        let rib = (if wd_addPathEntries (ack_withdrawal s) \<noteq> []
                   then ribOutQPush cfg (OutWithdrawal (ack_withdrawal s)) (ack_rib s) else ack_rib s);
        let a = (announcement s)\<lparr>an_addPathEntries := an_addPathEntries (announcementAddPath s)\<rparr>;
        Some (if eor \<or> an_entries a \<noteq> [] \<or> an_addPathEntries a \<noteq> []
              then ribOutQPush cfg (OutAnnouncement (if eor then a\<lparr>initialDump := True, sendWithEoR := True\<rparr> else a)) rib
              else rib)
      })"

definition handleFibSyncReq :: "RibConfig \<Rightarrow> Rib \<Rightarrow> Rib option" where
  "handleFibSyncReq cfg rib =
     (if \<not> ribEoRReceived rib then Some rib
      else if pauseBestPathAndFibProgramming rib then Some (rib\<lparr>fibSyncReqPending := True\<rparr>)
      else prepareFibProgramming cfg True rib)"

subsection \<open>Resumption and the initial path computation\<close>

definition requirePathSelection :: "RibEntry \<Rightarrow> RibEntry" where
  "requirePathSelection e = e\<lparr>needPathSelection := True\<rparr>"

definition mayResumeBestPathAndFibProgramming :: "RibConfig \<Rightarrow> RibPauseResumeCause option \<Rightarrow> Rib \<Rightarrow> Rib option" where
  "mayResumeBestPathAndFibProgramming cfg cause rib =
     (if \<not> pauseBestPathAndFibProgramming rib then Some rib
      else if cause = None \<and> BACKPRESSURE \<in> set (pausedBy rib) then Some (rib\<lparr>pausedBy := [BACKPRESSURE]\<rparr>)
      else let rib = (if cause = None then rib\<lparr>pausedBy := []\<rparr> else rib);
               rib = rib\<lparr>pauseBestPathAndFibProgramming := False,
                         ribEntries := map (\<lambda>(p, e). (p, requirePathSelection e)) (ribEntries rib)\<rparr>
           in if ribEoRReceived rib
              then map_option schedulePrepareFibProgrammingTimer
                (prepareFibProgramming cfg (fibSyncReqPending rib) (rib\<lparr>fibSyncReqPending := False\<rparr>))
              else Some rib)"

definition processResumeBestPathAndFibProgramming :: "RibConfig \<Rightarrow> RibPauseResumeCause \<Rightarrow> Rib \<Rightarrow> Rib option" where
  "processResumeBestPathAndFibProgramming cfg taskName rib =
     (let rib = rib\<lparr>pausedBy := filter (\<lambda>c. c \<noteq> taskName) (pausedBy rib)\<rparr> in
      if pausedBy rib \<noteq> [] then Some rib
      else mayResumeBestPathAndFibProgramming cfg (Some taskName) rib)"

definition areAllRegisteredNexthopsResolved :: "Rib \<Rightarrow> bool" where
  "areAllRegisteredNexthopsResolved rib \<longleftrightarrow>
     (\<forall>(nh, ni)\<in>set (nexthopInfoMap (store rib)). isResolvedForSelection (ni_status ni))"

definition isInitialPathComputationReady :: "Rib \<Rightarrow> bool" where
  "isInitialPathComputationReady rib \<longleftrightarrow>
     areAllRegisteredNexthopsResolved rib \<and>
     (conditionalLocalRoutes rib = [] \<or> firstNexthopResolutionProcessed rib)"

definition runInitialPathComputation :: "RibConfig \<Rightarrow> Rib \<Rightarrow> Rib option" where
  "runInitialPathComputation cfg rib =
     (let rib = rib\<lparr>pendingInitialPathComputation := False, nexthopResolutionTimer := False\<rparr> in
      if fibBatchList rib \<noteq> [] then None
      else map_option (\<lambda>rib. rib\<lparr>churnMonitor := True\<rparr>)
        (prepareFibProgramming cfg True (rib\<lparr>ribEoRReceived := True\<rparr>)))"

definition processRibInInitialPathComputation :: "RibConfig \<Rightarrow> int \<Rightarrow> Rib \<Rightarrow> Rib option" where
  "processRibInInitialPathComputation cfg nexthopResolutionTimeout rib =
     (if ribEoRReceived rib then Some rib
      else if nexthopResolutionTimeout > 0 \<and> \<not> isInitialPathComputationReady rib
        then Some (rib\<lparr>pendingInitialPathComputation := True, nexthopResolutionTimer := True\<rparr>)
      else runInitialPathComputation cfg rib)"

definition maybeRunPendingInitialPathComputation :: "RibConfig \<Rightarrow> Rib \<Rightarrow> Rib option" where
  "maybeRunPendingInitialPathComputation cfg rib =
     (if \<not> pendingInitialPathComputation rib \<or> \<not> isInitialPathComputationReady rib then Some rib
      else runInitialPathComputation cfg rib)"

definition onNexthopResolutionTimeout :: "RibConfig \<Rightarrow> Rib \<Rightarrow> Rib option" where
  "onNexthopResolutionTimeout cfg rib =
     (if \<not> pendingInitialPathComputation rib then Some rib else runInitialPathComputation cfg rib)"

subsection \<open>Updates of next hops\<close>

text \<open>\<^verbatim>\<open>getRibEntry\<close> of a route that is linked: the entry of its prefix.\<close>

definition requireSelectionOfRoute :: "nat \<Rightarrow> Rib \<Rightarrow> Rib" where
  "requireSelectionOfRoute a rib =
     (let pfx = r_prefix (route_at (store rib) a) in
      case map_of (ribEntries rib) pfx of
        None \<Rightarrow> rib
      | Some e \<Rightarrow> set_entry pfx (requirePathSelection e) rib)"

definition nexthopUpdateOne :: "NexthopStatus \<Rightarrow> bool \<times> Rib \<Rightarrow> bool \<times> Rib" where
  "nexthopUpdateOne queuedStatus s =
     (case s of (needSelection, rib) \<Rightarrow>
      let nexthopIp = ns_nexthop queuedStatus in
      case map_of (nexthopInfoMap (store rib)) nexthopIp of
        None \<Rightarrow> s
      | Some ni \<Rightarrow>
          if ns_epoch queuedStatus \<noteq> 0 \<and> ns_epoch (ni_status ni) > ns_epoch queuedStatus then s
          else (case getNexthopStatus nexthopIp (nexthopCache rib) of
            None \<Rightarrow> s
          | Some st \<Rightarrow>
              let isIgpCostChanged = (ns_igpCost (ni_status ni) \<noteq> ns_igpCost st);
                  isResolvabilityChanged = (isResolvedForSelection (ni_status ni) \<noteq> isResolvedForSelection st);
                  rib = rib\<lparr>store := upd_nexthop (\<lambda>ni. ni\<lparr>ni_status := st\<rparr>) nexthopIp (store rib)\<rparr>
              in if \<not> (isIgpCostChanged \<or> isResolvabilityChanged) \<or> \<not> ribEoRReceived rib then (needSelection, rib)
                 else (needSelection \<or> nexthopAssociationList ni \<noteq> [],
                       fold requireSelectionOfRoute (nexthopAssociationList ni) rib)))"

definition processRibInNexthopUpdate :: "RibConfig \<Rightarrow> NexthopStatus list \<Rightarrow> Rib \<Rightarrow> Rib option" where
  "processRibInNexthopUpdate cfg nexthopStatuses rib =
     (if \<not> enableNexthopTracking cfg then Some rib
      else case fold nexthopUpdateOne nexthopStatuses (False, rib) of
        (needSelection, rib) \<Rightarrow>
          maybeRunPendingInitialPathComputation cfg
            (if needSelection then schedulePrepareFibProgrammingTimer rib else rib))"

subsection \<open>Route churn\<close>

definition isRouteChurnDetected :: "RibConfig \<Rightarrow> Rib \<Rightarrow> bool \<times> Rib" where
  "isRouteChurnDetected cfg rib =
     (let detected = (prefixCountForRouteChurn rib > highWatermarkForRouteChurn cfg \<or>
            routeChurnDetected rib \<and> prefixCountForRouteChurn rib \<ge> lowWatermarkForRouteChurn cfg)
      in (detected, rib\<lparr>routeChurnDetected := detected\<rparr>))"

text \<open>One round of the loop, which sleeps between two rounds.\<close>

definition monitorRouteChurn :: "RibConfig \<Rightarrow> Rib \<Rightarrow> Rib option" where
  "monitorRouteChurn cfg rib =
     (let (detected, rib) = isRouteChurnDetected cfg rib in
      map_option (\<lambda>rib. rib\<lparr>prefixCountForRouteChurn := 0\<rparr>)
        (if detected then Some (processPauseBestPathAndFibProgramming ROUTE_CHURN rib)
         else if ROUTE_CHURN \<in> set (pausedBy rib) then processResumeBestPathAndFibProgramming cfg ROUTE_CHURN rib
         else Some rib))"

subsection \<open>Dispatch of messages\<close>

text \<open>The local routes that are announced at the start, as messages of the input queue.\<close>

definition processLocalRoutesRoutine :: "Rib \<Rightarrow> RibInMessage list" where
  "processLocalRoutesRoutine rib =
     List.map_filter (\<lambda>(pfx, lr).
       if getMinSupportRoutes lr = 0 \<and> \<not> getRequireNhResolution lr
       then Some (RibInAnnouncement kV4LocalPeerInfo (lr_attrs lr) [(pfx, kDefaultPathID)]) else None) (localRoutes rib)"

definition processRibInMsg :: "RibConfig \<Rightarrow> RibInMessage \<Rightarrow> Rib \<Rightarrow> Rib option" where
  "processRibInMsg cfg msg rib =
     (case msg of
        RibInAnnouncement peer att pfxPathIds \<Rightarrow> processRibInAnnouncement cfg peer att pfxPathIds rib
      | RibInWithdrawal peer pfxPathIds \<Rightarrow> processRibInWithdrawal cfg peer pfxPathIds rib
      | RibInInitialPathComputation timeout \<Rightarrow> processRibInInitialPathComputation cfg timeout rib
      | RibInNexthopUpdate statuses \<Rightarrow> processRibInNexthopUpdate cfg statuses rib
      | PauseBestPathAndFibProgramming taskName \<Rightarrow> Some (processPauseBestPathAndFibProgramming taskName rib)
      | ResumeBestPathAndFibProgramming taskName \<Rightarrow> processResumeBestPathAndFibProgramming cfg taskName rib
      | NexthopResolutionUpdate resolved unresolved \<Rightarrow> Some rib
      | RibInAddPathGrUpdate peer batches \<Rightarrow> Some rib)"

definition processFibMsg :: "RibConfig \<Rightarrow> FibMessage \<Rightarrow> Rib \<Rightarrow> Rib option" where
  "processFibMsg cfg msg rib =
     (case msg of
        FibProgrammedMessage pfxs isSync \<Rightarrow> handleFibProgrammedMessage cfg pfxs isSync rib
      | FibSyncReq \<Rightarrow> handleFibSyncReq cfg rib)"

end
