(* ===== verification/Rib_Pipeline.thy ===== *)
theory Rib_Pipeline
  imports Rib_Base
begin

text \<open>
  The invariant of the path from the RIB through the FIB to the peers. Every entry is in one of three
  states: what is advertised is the best path, or the entry waits to be programmed, or the FIB is about
  to acknowledge the next hops the entry has. What the peers see, once they have taken the messages
  that are on their way, is the advertised best path of every prefix.
\<close>

subsection \<open>What the peers see\<close>

type_synonym best_view = "cidr \<Rightarrow> (TinyPeerInfo \<times> published_path) option"

fun best_events :: "RibOutMessage \<Rightarrow> (cidr \<times> (TinyPeerInfo \<times> published_path) option) list" where
  "best_events (OutAnnouncement a) = map (\<lambda>x. (oa_prefix x, Some (oa_peer x, oa_attrs x))) (an_entries a)"
| "best_events (OutWithdrawal w) = map (\<lambda>x. (ow_prefix x, None)) (wd_entries w)"
| "best_events RibInitialAnnouncementStart = []"

definition apply_events :: "(cidr \<times> (TinyPeerInfo \<times> published_path) option) list \<Rightarrow> best_view \<Rightarrow> best_view" where
  "apply_events evs V = fold (\<lambda>(p, x) V. V(p := x)) evs V"

abbreviation queue_events :: "RibOutMessage list \<Rightarrow> (cidr \<times> (TinyPeerInfo \<times> published_path) option) list" where
  "queue_events q \<equiv> concat (map best_events q)"

lemma apply_append [simp]: "apply_events (xs @ ys) V = apply_events ys (apply_events xs V)"
  by (simp add: apply_events_def)

lemma apply_Nil [simp]: "apply_events [] V = V"
  by (simp add: apply_events_def)

lemma apply_single [simp]: "apply_events [(p, x)] V = V(p := x)"
  by (simp add: apply_events_def)

definition route_view :: "rib_store \<Rightarrow> nat \<Rightarrow> TinyPeerInfo \<times> published_path" where
  "route_view h a = (r_peer (route_at h a), r_attrs (route_at h a))"

definition advertised_view :: "rib_store \<Rightarrow> RibEntry option \<Rightarrow> (TinyPeerInfo \<times> published_path) option" where
  "advertised_view h e = map_option (route_view h) (Option.bind e advertisedBestpath)"

subsection \<open>The state of an entry\<close>

text \<open>The best path the decision process gives for the paths of an entry.\<close>

definition chosen :: "BgpBestpathFeatures \<Rightarrow> bool \<Rightarrow> rib_store \<Rightarrow> RibEntry \<Rightarrow> nat option" where
  "chosen ff cc h e =
     (if candidates ff h e = [] then None
      else Some (hd (best_routes (tiebreak_key cc h) (best_routes (decision_key ff cc h) (candidates ff h e)))))"

definition weq :: "u32 \<Rightarrow> u32 \<Rightarrow> bool" where
  "weq a b \<longleftrightarrow> a = b \<or> f32_eq a b"

lemma weq_refl [simp]: "weq a a"
  by (simp add: weq_def)

lemma weq_trans: "weq a b \<Longrightarrow> f32_eq c b \<Longrightarrow> weq a c"
  by (auto simp: weq_def f32_eq_def)

definition synced :: "RibEntry \<Rightarrow> bool" where
  "synced e \<longleftrightarrow> advertisedBestpath e = bestpath e \<and>
     (bestpath e \<noteq> None \<longrightarrow>
        weq (advertisedAggregateReceivedUcmpWeight e) (aggregateReceivedUcmpWeight e) \<and>
        weq (advertisedAggregateLocalUcmpWeight e) (aggregateLocalUcmpWeight e))"

definition ptr :: "fib_nexthops \<Rightarrow> nat option" where
  "ptr w = map_option fst w"

lemma ptr_simps [simp]: "ptr None = None" "ptr (Some (t, m)) = Some t" "ptr w = None \<longleftrightarrow> w = None"
  by (simp_all add: ptr_def)

text \<open>The FIB is about to acknowledge the pointer \<open>t\<close>.\<close>

definition acked :: "nat option \<Rightarrow> fib_nexthops list \<Rightarrow> bool" where
  "acked t as \<longleftrightarrow> (\<exists>a\<in>set as. a \<noteq> None \<and> ptr a = t)"

text \<open>No removal comes after the acknowledgement of the pointer \<open>t\<close>.\<close>

fun null_ok :: "nat option \<Rightarrow> fib_nexthops list \<Rightarrow> bool" where
  "null_ok t [] \<longleftrightarrow> True"
| "null_ok t (a # as) \<longleftrightarrow> (a \<noteq> None \<and> ptr a = t \<longrightarrow> None \<notin> set as) \<and> null_ok t as"

lemma null_ok_append: "null_ok t (as @ [b]) \<longleftrightarrow> null_ok t as \<and> (b = None \<longrightarrow> \<not> acked t as)"
  by (induction as) (auto simp: acked_def)

lemma null_ok_unacked: "\<not> acked t as \<Longrightarrow> null_ok t as"
  by (induction as) (auto simp: acked_def)

lemma acked_simps [simp]: "\<not> acked None as" "\<not> acked t []"
  "acked t (a # as) \<longleftrightarrow> (a \<noteq> None \<and> ptr a = t) \<or> acked t as" "acked t (as @ bs) \<longleftrightarrow> acked t as \<or> acked t bs"
  by (auto simp: acked_def)

text \<open>
  \<open>n\<close> bounds the pointers that were given out, \<open>b\<close> says whether the entry is on the batch list and \<open>as\<close>
  are the acknowledgements for its prefix that are on their way.
\<close>

definition entry_pipe :: "nat \<Rightarrow> bool \<Rightarrow> fib_nexthops list \<Rightarrow> RibEntry \<Rightarrow> bool" where
  "entry_pipe n b as e \<longleftrightarrow>
     (bestpath e = None \<longleftrightarrow> weightedNexthops e = None) \<and> (bestpath e = None \<longrightarrow> advertisedBestpath e = None) \<and>
     (\<forall>t. ptr (weightedNexthops e) = Some t \<longrightarrow> t < n) \<and>
     (synced e \<or> b \<or> acked (ptr (weightedNexthops e)) as) \<and>
     (None \<in> set as \<longrightarrow> advertisedBestpath e = None) \<and> null_ok (ptr (weightedNexthops e)) as \<and>
     (advertisedBestpath e \<noteq> None \<or> acked (ptr (weightedNexthops e)) as \<longrightarrow> hasFibOutState e)"

text \<open>The routes an entry points to exist, and its multipaths have their ids.\<close>

definition entry_routes :: "rib_store \<Rightarrow> RibEntry \<Rightarrow> bool" where
  "entry_routes h e \<longleftrightarrow>
     (\<forall>a. bestpath e = Some a \<or> advertisedBestpath e = Some a \<longrightarrow> a < next_route h) \<and>
     (\<forall>i a. (i, a) \<in> set (multipaths e) \<longrightarrow> a < next_route h \<and> sendId h a = Some i)"

definition entry_inv ::
  "BgpBestpathFeatures \<Rightarrow> bool \<Rightarrow> rib_store \<Rightarrow> cidr \<Rightarrow> bool \<Rightarrow> fib_nexthops list \<Rightarrow> RibEntry \<Rightarrow> bool" where
  "entry_inv ff cc h p b as e \<longleftrightarrow>
     e_prefix e = p \<and> entry_wf h e \<and> (\<forall>a\<in>set (getAllPaths e). route_fine h a) \<and> entry_routes h e \<and>
     entry_pipe (next_map h) b as e \<and> (needPathSelection e \<or> bestpath e = chosen ff cc h e)"

lemma entry_path_bound: "entry_wf h e \<Longrightarrow> a \<in> set (getAllPaths e) \<Longrightarrow> a < next_route h"
  using set_getAllPaths [of h e] entry_wf_route [of h e _ a] by (auto simp: ran_def)

lemma chosen_agree:
  assumes "\<And>a. a \<in> set (getAllPaths e) \<Longrightarrow> agree_on h h' a"
  shows "chosen ff cc h' e = chosen ff cc h e"
proof -
  let ?c = "candidates ff h e"
  have c: "candidates ff h' e = ?c" using assms by (rule agree_candidates)
  have s: "set ?c \<subseteq> set (getAllPaths e)" by (rule candidates_subset)
  have "best_routes (decision_key ff cc h') ?c = best_routes (decision_key ff cc h) ?c"
    by (rule best_routes_cong) (use s assms in \<open>blast intro: agree_reads(1)\<close>)
  moreover have "best_routes (tiebreak_key cc h') (best_routes (decision_key ff cc h) ?c) =
      best_routes (tiebreak_key cc h) (best_routes (decision_key ff cc h) ?c)"
    by (rule best_routes_cong) (use s best_routes_subset assms in \<open>blast intro: agree_reads(2)\<close>)
  ultimately show ?thesis by (simp add: chosen_def c)
qed

lemma entry_routes_keeps: "entry_routes h e \<Longrightarrow> keeps_routes h h' \<Longrightarrow> entry_routes h' e"
  unfolding entry_routes_def keeps_routes_def by (meson less_le_trans)

lemma entry_inv_frame:
  assumes inv: "entry_inv ff cc h p b as e" and k: "keeps_routes h h'" "next_map h \<le> next_map h'"
    and ag: "\<And>a. a \<in> set (getAllPaths e) \<Longrightarrow> agree_on h h' a" and b: "b \<longrightarrow> b'"
  shows "entry_inv ff cc h' p b' as e"
proof -
  have "entry_wf h' e" using inv keeps_routes_places [OF k(1)] entry_wf_places by (auto simp: entry_inv_def)
  moreover have "\<forall>a\<in>set (getAllPaths e). route_fine h' a"
    using inv agree_reads(4) [OF ag] by (auto simp: entry_inv_def)
  moreover have "entry_pipe (next_map h') b' as e"
    using inv k(2) b unfolding entry_inv_def entry_pipe_def by (meson less_le_trans)
  ultimately show ?thesis
    using inv chosen_agree [OF ag] entry_routes_keeps [OF _ k(1)] by (simp add: entry_inv_def)
qed

subsection \<open>Transitions of an entry\<close>

definition tags_below :: "nat \<Rightarrow> fib_nexthops list \<Rightarrow> bool" where
  "tags_below n as \<longleftrightarrow> (\<forall>x\<in>set as. \<forall>t. ptr x = Some t \<longrightarrow> t < n)"

lemma tags_fresh: "tags_below n as \<Longrightarrow> \<not> acked (Some n) as"
  by (auto simp: tags_below_def acked_def)

lemma entry_pipeI:
  assumes "bestpath e = None \<longleftrightarrow> weightedNexthops e = None" "bestpath e = None \<Longrightarrow> advertisedBestpath e = None"
    "\<And>t. ptr (weightedNexthops e) = Some t \<Longrightarrow> t < n" "synced e \<or> b \<or> acked (ptr (weightedNexthops e)) as"
    "None \<in> set as \<Longrightarrow> advertisedBestpath e = None" "null_ok (ptr (weightedNexthops e)) as"
    "advertisedBestpath e \<noteq> None \<or> acked (ptr (weightedNexthops e)) as \<Longrightarrow> hasFibOutState e"
  shows "entry_pipe n b as e"
  using assms unfolding entry_pipe_def by blast

lemma entry_pipeD:
  assumes "entry_pipe n b as e"
  shows "bestpath e = None \<longleftrightarrow> weightedNexthops e = None" "bestpath e = None \<Longrightarrow> advertisedBestpath e = None"
    "ptr (weightedNexthops e) = Some t \<Longrightarrow> t < n" "synced e \<or> b \<or> acked (ptr (weightedNexthops e)) as"
    "None \<in> set as \<Longrightarrow> advertisedBestpath e = None" "null_ok (ptr (weightedNexthops e)) as"
    "advertisedBestpath e \<noteq> None \<or> acked (ptr (weightedNexthops e)) as \<Longrightarrow> hasFibOutState e"
  using assms unfolding entry_pipe_def by blast+

text \<open>What path selection does to the state of the entry in the pipeline.\<close>

lemma select_ptr:
  assumes spec: "select_spec ff cc h e bc nc e' h'" and pipe: "entry_pipe (next_map h) b as e" and tags: "tags_below (next_map h) as"
  shows "ptr (weightedNexthops e') = Some t \<Longrightarrow> t < next_map h'" "null_ok (ptr (weightedNexthops e')) as"
    "acked (ptr (weightedNexthops e')) as \<Longrightarrow> acked (ptr (weightedNexthops e)) as" "next_map h \<le> next_map h'"
  using select_specD(7) [OF spec] entry_pipeD(3,6) [OF pipe] tags_fresh [OF tags] null_ok_unacked [of _ as]
  by (auto simp: less_SucI)

lemma select_routes:
  assumes spec: "select_spec ff cc h e bc nc e' h'" and inv: "entry_inv ff cc h p b as e"
  shows "e_prefix e' = p" "entry_wf h' e'" "\<forall>a\<in>set (getAllPaths e'). route_fine h' a" "entry_routes h' e'"
    "bestpath e' = chosen ff cc h' e'" "bestpath e' = None \<longleftrightarrow> weightedNexthops e' = None"
proof -
  note d = select_specD [OF spec]
  have wf: "entry_wf h e" and rt: "entry_routes h e" and fine: "\<forall>a\<in>set (getAllPaths e). route_fine h a"
    using inv by (simp_all add: entry_inv_def)
  show "e_prefix e' = p" using inv d(2) by (simp add: entry_inv_def kept_def)
  show wf': "entry_wf h' e'"
    by (rule entry_wf_kept [OF entry_wf_places [OF wf sel_frame_places [OF d(1)]] d(2)])
  show "\<forall>a\<in>set (getAllPaths e'). route_fine h' a" using fine by (simp add: kept_paths(2) [OF d(2)] sel_frame_fine [OF d(1)])
  have ch: "bestpath e' = chosen ff cc h e" using d(4) by (simp add: chosen_def)
  have "chosen ff cc h' e' = chosen ff cc h' e" by (simp add: chosen_def candidates_kept [OF d(2)])
  moreover have "chosen ff cc h' e = chosen ff cc h e" by (rule chosen_agree) (rule agree_frame [OF d(1)])
  ultimately show "bestpath e' = chosen ff cc h' e'" using ch by simp
  show "bestpath e' = None \<longleftrightarrow> weightedNexthops e' = None" using d(4,6) by simp
  have nr: "next_route h' = next_route h" by (rule sel_frame_fields(10) [OF d(1)])
  show "entry_routes h' e'"
    unfolding entry_routes_def
  proof (intro conjI allI impI)
    fix a assume "bestpath e' = Some a \<or> advertisedBestpath e' = Some a"
    then show "a < next_route h'"
    proof
      assume "bestpath e' = Some a"
      then have "a \<in> set (getAllPaths e)"
        using d(11) best_routes_subset [of "tiebreak_key cc h"] best_routes_subset [of "decision_key ff cc h" "candidates ff h e"]
          candidates_subset [of ff h e] by blast
      then show ?thesis using entry_path_bound [OF wf] nr by simp
    next
      assume "advertisedBestpath e' = Some a"
      then show ?thesis using rt d(2) nr by (simp add: entry_routes_def kept_def)
    qed
  next
    fix i a assume "(i, a) \<in> set (multipaths e')"
    then have "a \<in> set (getAllPaths e)" "sendId h' a = Some i"
      using d(5) best_routes_subset [of "decision_key ff cc h" "candidates ff h e"] candidates_subset [of ff h e] by blast+
    then show "a < next_route h'" "sendId h' a = Some i" using entry_path_bound [OF wf] nr by auto
  qed
qed

subsection \<open>The invariant of all entries\<close>

text \<open>
  \<open>V\<close> is what the peers have, \<open>evs\<close> what is on its way to them, \<open>acks\<close> the acknowledgements on their way
  and \<open>B\<close> the prefixes that wait to be programmed.
\<close>

definition pinv ::
  "BgpBestpathFeatures \<Rightarrow> bool \<Rightarrow> best_view \<Rightarrow> (cidr \<Rightarrow> fib_nexthops list) \<Rightarrow> cidr set \<Rightarrow>
   (cidr \<times> (TinyPeerInfo \<times> published_path) option) list \<Rightarrow> (cidr \<times> RibEntry) list \<Rightarrow> rib_store \<Rightarrow> bool" where
  "pinv ff cc V acks B evs E h \<longleftrightarrow>
     keys_distinct E \<and> links_wf h \<and>
     (\<forall>p e. map_of E p = Some e \<longrightarrow> entry_inv ff cc h p (p \<in> B) (acks p) e) \<and>
     (\<forall>p. tags_below (next_map h) (acks p)) \<and>
     (\<forall>p. apply_events evs V p = advertised_view h (map_of E p))"

lemma pinvD:
  assumes "pinv ff cc V acks B evs E h"
  shows "keys_distinct E" "links_wf h" "map_of E p = Some e \<Longrightarrow> entry_inv ff cc h p (p \<in> B) (acks p) e"
    "tags_below (next_map h) (acks p)" "apply_events evs V p = advertised_view h (map_of E p)"
  using assms unfolding pinv_def by blast+

lemma tags_below_mono: "tags_below n as \<Longrightarrow> n \<le> m \<Longrightarrow> tags_below m as"
  unfolding tags_below_def by (meson less_le_trans)

lemma entry_invD:
  assumes "entry_inv ff cc h p b as e"
  shows "e_prefix e = p" "entry_wf h e" "\<forall>a\<in>set (getAllPaths e). route_fine h a" "entry_routes h e"
    "entry_pipe (next_map h) b as e" "needPathSelection e \<or> bestpath e = chosen ff cc h e"
  using assms unfolding entry_inv_def by blast+

lemma advertised_view_keeps:
  assumes "entry_routes h e" "keeps_routes h h'"
  shows "advertised_view h' (Some e) = advertised_view h (Some e)"
  using assms by (cases "advertisedBestpath e") (auto simp: advertised_view_def entry_routes_def keeps_routes_def route_view_def)

lemma entry_path_prefix: "entry_wf h e \<Longrightarrow> a \<in> set (getAllPaths e) \<Longrightarrow> r_prefix (route_at h a) = e_prefix e"
  using set_getAllPaths [of h e] entry_wf_route [of h e _ a] by (auto simp: ran_def)

text \<open>One entry changes, and the routes of the other entries stay as they were.\<close>

definition others_kept :: "cidr \<Rightarrow> rib_store \<Rightarrow> rib_store \<Rightarrow> bool" where
  "others_kept p h h' \<longleftrightarrow> keeps_routes h h' \<and> next_map h \<le> next_map h' \<and>
     (\<forall>a < next_route h. r_prefix (route_at h a) \<noteq> p \<longrightarrow> agree_on h h' a)"

lemma others_refl [simp]: "others_kept p h h"
  by (simp add: others_kept_def)

lemma entry_inv_others:
  assumes inv: "entry_inv ff cc h q b as e" and k: "others_kept p h h'" and "q \<noteq> p" "b \<longrightarrow> b'"
  shows "entry_inv ff cc h' q b' as e" "advertised_view h' (Some e) = advertised_view h (Some e)"
proof -
  note d = entry_invD [OF inv]
  have "agree_on h h' a" if "a \<in> set (getAllPaths e)" for a
    using entry_path_bound [OF d(2) that] entry_path_prefix [OF d(2) that] d(1) k \<open>q \<noteq> p\<close> by (simp add: others_kept_def)
  then show "entry_inv ff cc h' q b' as e"
    using entry_inv_frame [OF inv, of h' b'] k \<open>b \<longrightarrow> b'\<close> by (simp add: others_kept_def)
  show "advertised_view h' (Some e) = advertised_view h (Some e)"
    by (rule advertised_view_keeps [OF d(4)]) (use k in \<open>simp add: others_kept_def\<close>)
qed

lemma pinv_set:
  assumes inv: "pinv ff cc V acks B evs E h" and k: "others_kept p h h'" "links_wf h'"
    and e: "entry_inv ff cc h' p (p \<in> B') (acks' p) e'" and B: "\<And>q. q \<noteq> p \<Longrightarrow> q \<in> B \<Longrightarrow> q \<in> B'"
    and acks: "\<And>q. q \<noteq> p \<Longrightarrow> acks' q = acks q" "tags_below (next_map h') (acks' p)"
    and evs: "apply_events evs' V = (apply_events evs V)(p := advertised_view h' (Some e'))"
  shows "pinv ff cc V acks' B' evs' (AList.update p e' E) h'"
proof -
  note d = pinvD [OF inv]
  have o: "entry_inv ff cc h' q (q \<in> B') (acks' q) x" "advertised_view h' (Some x) = advertised_view h (Some x)"
    if "map_of E q = Some x" "q \<noteq> p" for q x
    using entry_inv_others [OF d(3) [OF that(1)] k(1) that(2), of "q \<in> B'"] B [OF that(2)] acks(1) [OF that(2)] by auto
  have "keys_distinct (AList.update p e' E)" using d(1) by (simp add: keys_distinct_def distinct_update)
  moreover have "entry_inv ff cc h' q (q \<in> B') (acks' q) x" if "map_of (AList.update p e' E) q = Some x" for q x
    using that e o(1) [of q x] by (cases "q = p") (auto simp: update_conv)
  moreover have "tags_below (next_map h') (acks' q)" for q
    using d(4) [of q] tags_below_mono acks k(1) by (cases "q = p") (auto simp: others_kept_def)
  moreover have "apply_events evs' V q = advertised_view h' (map_of (AList.update p e' E) q)" for q
  proof (cases "q = p")
    case False
    then show ?thesis using d(5) [of q] o(2) [of q] by (cases "map_of E q") (simp_all add: evs update_conv advertised_view_def)
  qed (simp add: evs update_conv)
  ultimately show ?thesis using k(2) unfolding pinv_def by blast
qed

lemma pinv_erase:
  assumes inv: "pinv ff cc V acks B evs E h" and n: "advertised_view h (map_of E p) = None"
    and B: "\<And>q. q \<noteq> p \<Longrightarrow> q \<in> B \<Longrightarrow> q \<in> B'" and acks: "\<And>q. q \<noteq> p \<Longrightarrow> acks' q = acks q" "tags_below (next_map h) (acks' p)"
  shows "pinv ff cc V acks' B' evs (AList.delete p E) h"
proof -
  note d = pinvD [OF inv]
  have "keys_distinct (AList.delete p E)" using d(1) by (simp add: keys_distinct_def distinct_delete)
  moreover have "entry_inv ff cc h q (q \<in> B') (acks' q) x" if "map_of (AList.delete p E) q = Some x" for q x
    using that d(3) [of q x] entry_inv_others(1) [OF _ others_refl, of ff cc h q "q \<in> B" "acks q" x p "q \<in> B'"] B acks(1)
    by (cases "q = p") (auto simp: delete_conv)
  moreover have "tags_below (next_map h) (acks' q)" for q using d(4) [of q] acks by (cases "q = p") auto
  moreover have "apply_events evs V q = advertised_view h (map_of (AList.delete p E) q)" for q
    using d(5) [of q] n by (cases "q = p") (simp_all add: delete_conv advertised_view_def)
  ultimately show ?thesis using d(2) unfolding pinv_def by blast
qed

subsection \<open>What happens to one entry\<close>

definition same_core :: "RibEntry \<Rightarrow> RibEntry \<Rightarrow> bool" where
  "same_core e e' \<longleftrightarrow> e_prefix e' = e_prefix e \<and> routeInfos e' = routeInfos e \<and> allPathsCount e' = allPathsCount e \<and>
     bestpath e' = bestpath e \<and> multipaths e' = multipaths e \<and> weightedNexthops e' = weightedNexthops e \<and>
     (needPathSelection e \<longrightarrow> needPathSelection e') \<and>
     (\<forall>a. advertisedBestpath e' = Some a \<longrightarrow> advertisedBestpath e = Some a \<or> bestpath e = Some a)"

lemma entry_inv_core:
  assumes inv: "entry_inv ff cc h p b as e" and c: "same_core e e'" and pipe: "entry_pipe (next_map h) b' as' e'"
  shows "entry_inv ff cc h p b' as' e'"
proof -
  note d = entry_invD [OF inv]
  have g: "getAllPaths e' = getAllPaths e" "paths e' = paths e"
    using c by (simp_all add: same_core_def getAllPaths_def paths_def getRouteInfo_def fun_eq_iff)
  have "chosen ff cc h e' = chosen ff cc h e"
    by (simp add: chosen_def candidates_def prePathSelectionFiltering_def Let_def g)
  moreover have "entry_routes h e'" using d(4) c by (auto simp: entry_routes_def same_core_def)
  moreover have "entry_wf h e'" using d(2) c by (simp add: entry_wf_def same_core_def g)
  ultimately show ?thesis
    unfolding entry_inv_def using d(1,3,6) c pipe by (auto simp: same_core_def g)
qed

lemma commitBestpath_fields:
  "bestpath (snd (commitBestpath e)) = bestpath e" "advertisedBestpath (snd (commitBestpath e)) = bestpath e"
  "advertisedAggregateReceivedUcmpWeight (snd (commitBestpath e)) = aggregateReceivedUcmpWeight e"
  "advertisedAggregateLocalUcmpWeight (snd (commitBestpath e)) = aggregateLocalUcmpWeight e"
  "aggregateReceivedUcmpWeight (snd (commitBestpath e)) = aggregateReceivedUcmpWeight e"
  "aggregateLocalUcmpWeight (snd (commitBestpath e)) = aggregateLocalUcmpWeight e"
  "weightedNexthops (snd (commitBestpath e)) = weightedNexthops e" "hasFibOutState (snd (commitBestpath e)) = hasFibOutState e"
  "advertisedMultipaths (snd (commitBestpath e)) = advertisedMultipaths e" "allPathsCount (snd (commitBestpath e)) = allPathsCount e"
  "needPathSelection (snd (commitBestpath e)) = needPathSelection e"
  by (auto simp: commitBestpath_def Let_def)

lemma commitBestpath_synced: "synced (snd (commitBestpath e))"
  by (simp add: synced_def commitBestpath_fields)

lemma commitBestpath_core: "same_core e (snd (commitBestpath e))"
  by (auto simp: same_core_def commitBestpath_def Let_def)

lemma commitBestpath_unchanged: "\<not> fst (commitBestpath e) \<Longrightarrow> advertisedBestpath e = bestpath e"
  by (auto simp: commitBestpath_def Let_def split: if_splits)

text \<open>The paths of the entry change, or it is new.\<close>

lemma entry_inv_new: "entry_inv ff cc h p b as (new_entry p)"
proof -
  have f: "e_prefix (new_entry p) = p" "getAllPaths (new_entry p) = []" "bestpath (new_entry p) = None"
    "advertisedBestpath (new_entry p) = None" "multipaths (new_entry p) = []" "weightedNexthops (new_entry p) = None"
    "needPathSelection (new_entry p)"
    by (simp_all add: new_entry_def getAllPaths_def)
  show ?thesis by (simp add: entry_inv_def entry_routes_def entry_pipe_def synced_def null_ok_unacked f)
qed

lemma paths_only_core: 
  assumes "paths_only e e'"
  shows "e_prefix e' = e_prefix e" "bestpath e' = bestpath e" "advertisedBestpath e' = advertisedBestpath e"
    "multipaths e' = multipaths e" "entry_pipe n b as e' = entry_pipe n b as e" "hasFibOutState e' = hasFibOutState e"
proof -
  obtain m c x where e': "e' = e\<lparr>routeInfos := m, allPathsCount := c, needPathSelection := x\<rparr>"
    using assms unfolding paths_only_def by (rule that)
  show "e_prefix e' = e_prefix e" "bestpath e' = bestpath e" "advertisedBestpath e' = advertisedBestpath e"
    "multipaths e' = multipaths e" "entry_pipe n b as e' = entry_pipe n b as e" "hasFibOutState e' = hasFibOutState e"
    by (simp_all add: e' entry_pipe_def synced_def)
qed

lemma update_paths_fine:
  assumes wf: "entry_wf h e" and fine: "\<forall>a\<in>set (getAllPaths e). route_fine h a"
    and spec: "update_spec peer attOpt i e h ch e' h'" and att: "\<And>att. attOpt = Some att \<Longrightarrow> att_fine peer att"
  shows "\<forall>a\<in>set (getAllPaths e'). route_fine h' a"
proof
  fix a assume a: "a \<in> set (getAllPaths e')"
  have wf': "entry_wf h' e'" using spec by (simp add: update_spec_def)
  obtain k where k: "paths e' k = Some a" using a set_getAllPaths [OF wf'] by (auto simp: ran_def)
  have old: "route_fine h' a" if "paths e k = Some a" "k \<noteq> (peerId peer, i)"
  proof -
    have "a \<in> set (getAllPaths e)" using set_getAllPaths [OF wf] ranI [of "paths e" k a] that(1) by simp
    moreover have "paths e (peerId peer, i) \<noteq> Some a" using entry_wf_route [OF wf] that by blast
    ultimately show ?thesis
      using spec fine entry_path_bound [OF wf] agree_reads(4) [of h h' a] unfolding update_spec_def by blast
  qed
  show "route_fine h' a"
  proof (cases attOpt)
    case None
    then show ?thesis using k old spec by (auto simp: update_spec_def split: if_splits)
  next
    case (Some att)
    show ?thesis
    proof (cases ch)
      case True
      then show ?thesis using k old spec Some att [OF Some] by (auto simp: update_spec_def split: if_splits)
    next
      case False
      then show ?thesis using spec a fine by (simp add: update_spec_def)
    qed
  qed
qed

lemma entry_inv_update:
  assumes inv: "entry_inv ff cc h p b as e" and spec: "update_spec peer attOpt i e h ch e' h'"
    and att: "\<And>att. attOpt = Some att \<Longrightarrow> att_fine peer att"
  shows "entry_inv ff cc h' p b as e'" "others_kept p h h'" "links_wf h'" "advertised_view h' (Some e') = advertised_view h (Some e)"
proof -
  note d = entry_invD [OF inv]
  have s: "entry_wf h' e'" "keeps_routes h h'" "next_map h' = next_map h" "paths_only e e'"
    "if ch then needPathSelection e' else e' = e \<and> h' = h"
    and ag: "\<And>a. a < next_route h \<Longrightarrow> paths e (peerId peer, i) \<noteq> Some a \<Longrightarrow> agree_on h h' a"
    using spec unfolding update_spec_def by blast+
  show "links_wf h'" using spec unfolding update_spec_def by blast
  note c = paths_only_core [OF s(4)]
  have "entry_routes h' e'" using entry_routes_keeps [OF d(4) s(2)] by (simp add: entry_routes_def c)
  then show "entry_inv ff cc h' p b as e'"
    using d update_paths_fine [OF d(2,3) spec att] s(1,5) by (cases ch) (simp_all add: entry_inv_def c s(3))
  have "r_prefix (route_at h a) = p" if "paths e (peerId peer, i) = Some a" for a
    using entry_wf_route [OF d(2) that] d(1) by simp
  then show "others_kept p h h'" using ag s(2,3) unfolding others_kept_def by auto
  show "advertised_view h' (Some e') = advertised_view h (Some e)"
    using advertised_view_keeps [OF d(4) s(2)] by (simp add: advertised_view_def c)
qed

text \<open>Path selection, without a change, with a new best path, and with a withdrawal.\<close>

lemma entry_inv_select:
  assumes spec: "select_spec ff cc h e bc nc e' h'" and inv: "entry_inv ff cc h p b as e" and tags: "tags_below (next_map h) as"
    and pipe: "entry_pipe (next_map h') b' as' e''" and core: "same_core e' e''"
  shows "entry_inv ff cc h' p b' as' e''"
proof -
  note r = select_routes [OF spec inv] and d = entry_invD [OF inv]
  have "entry_routes h' e''" using r(4) core by (auto simp: entry_routes_def same_core_def)
  moreover have g: "getAllPaths e'' = getAllPaths e'" "paths e'' = paths e'"
    using core by (simp_all add: same_core_def getAllPaths_def paths_def getRouteInfo_def fun_eq_iff)
  moreover have "chosen ff cc h' e'' = chosen ff cc h' e'"
    by (simp add: chosen_def candidates_def prePathSelectionFiltering_def Let_def g)
  moreover have "entry_wf h' e''" using r(2) core by (simp add: entry_wf_def same_core_def g)
  ultimately show ?thesis using r(1,3,5) core pipe unfolding entry_inv_def by (simp add: same_core_def)
qed

lemma select_others:
  assumes spec: "select_spec ff cc h e bc nc e' h'" and wf: "links_wf h"
  shows "others_kept p h h'" "links_wf h'"
proof -
  note d = select_specD [OF spec]
  show "others_kept p h h'"
    using keeps_routes_frame [OF d(1)] agree_frame [OF d(1)] d(7) by (auto simp: others_kept_def)
  show "links_wf h'"
    by (rule links_wf_frame [OF wf]) (use sel_frame_fields(8,9) [OF d(1)] d(1) in \<open>simp_all add: sel_frame_def same_route_fields\<close>)
qed

lemma select_unchanged_pipe:
  assumes spec: "select_spec ff cc h e False False e' h'" and inv: "entry_inv ff cc h p b as e"
    and tags: "tags_below (next_map h) as" and b: "b \<longrightarrow> b'"
  shows "entry_pipe (next_map h') b' as e'"
proof -
  note d = select_specD [OF spec] and k = entry_pipeD [OF entry_invD(5) [OF inv]]
  note s = select_ptr [OF spec entry_invD(5) [OF inv] tags]
  have same: "bestpath e' = bestpath e" "weightedNexthops e' = weightedNexthops e" using d(8,9) by simp_all
  have kp: "advertisedBestpath e' = advertisedBestpath e" "hasFibOutState e' = hasFibOutState e"
    "advertisedAggregateReceivedUcmpWeight e' = advertisedAggregateReceivedUcmpWeight e"
    "advertisedAggregateLocalUcmpWeight e' = advertisedAggregateLocalUcmpWeight e" using d(2) by (simp_all add: kept_def)
  have "synced e \<longrightarrow> synced e'"
    using d(10) weq_trans unfolding synced_def same kp by blast
  then show ?thesis
    using k(1,2,4,5,7) s(1,2) b unfolding entry_pipe_def same kp by blast
qed

lemma select_changed_pipe:
  assumes spec: "select_spec ff cc h e bc nc e' h'" and inv: "entry_inv ff cc h p b as e"
    and tags: "tags_below (next_map h) as" and some: "bestpath e' \<noteq> None"
  shows "entry_pipe (next_map h') True as e'"
proof -
  note d = select_specD [OF spec] and k = entry_pipeD [OF entry_invD(5) [OF inv]]
  note s = select_ptr [OF spec entry_invD(5) [OF inv] tags]
  have kp: "advertisedBestpath e' = advertisedBestpath e" "hasFibOutState e' = hasFibOutState e" using d(2) by (simp_all add: kept_def)
  show ?thesis
    using k(5,7) s(1-3) some select_routes(6) [OF spec inv] unfolding entry_pipe_def kp by blast
qed

lemma select_withdrawn_pipe:
  assumes spec: "select_spec ff cc h e bc nc e' h'" and inv: "entry_inv ff cc h p b as e"
    and none: "bestpath e' = None"
  shows "entry_pipe (next_map h') b' as (snd (commitBestpath (e'\<lparr>e_ribVersion := v\<rparr>)))"
  using none select_routes(6) [OF spec inv] commitBestpath_synced [of "e'\<lparr>e_ribVersion := v\<rparr>"]
  by (simp add: entry_pipe_def commitBestpath_fields null_ok_unacked)

text \<open>The entry is programmed.\<close>

lemma entry_inv_program:
  assumes inv: "entry_inv ff cc h p b as e"
  shows "entry_inv ff cc h p False (as @ [weightedNexthops e]) (e\<lparr>hasFibOutState := True\<rparr>)"
proof (rule entry_inv_core [OF inv])
  note k = entry_pipeD [OF entry_invD(5) [OF inv]]
  show "same_core e (e\<lparr>hasFibOutState := True\<rparr>)" by (simp add: same_core_def)
  have "synced e \<or> weightedNexthops e \<noteq> None" using k(1,2) by (auto simp: synced_def)
  then show "entry_pipe (next_map h) False (as @ [weightedNexthops e]) (e\<lparr>hasFibOutState := True\<rparr>)"
    using k(1,2,3,5,6) by (auto simp: entry_pipe_def null_ok_append synced_def)
qed

lemma tags_program: "entry_inv ff cc h p b as e \<Longrightarrow> tags_below (next_map h) as \<Longrightarrow> tags_below (next_map h) (as @ [weightedNexthops e])"
  using entry_pipeD(3) [OF entry_invD(5)] by (auto simp: tags_below_def)

text \<open>An acknowledgement of a removal, of a pointer that was replaced, and of the pointer of the entry.\<close>

lemma entry_inv_stale:
  assumes inv: "entry_inv ff cc h p b (w # as) e" and w: "w = None \<or> ptr w \<noteq> ptr (weightedNexthops e)"
  shows "entry_inv ff cc h p b as e"
proof (rule entry_inv_core [OF inv])
  note k = entry_pipeD [OF entry_invD(5) [OF inv]]
  show "same_core e e" by (simp add: same_core_def)
  show "entry_pipe (next_map h) b as e"
    using k w by (intro entry_pipeI) auto
qed

lemma entry_inv_erasable:
  assumes inv: "entry_inv ff cc h p b (None # as) e"
  shows "advertised_view h (Some e) = None"
  using entry_pipeD(5) [OF entry_invD(5) [OF inv]] by (simp add: advertised_view_def)

lemma entry_inv_commit:
  assumes inv: "entry_inv ff cc h p b (w # as) e" and w: "w \<noteq> None" "ptr w = ptr (weightedNexthops e)"
    and e': "same_core e e'" "hasFibOutState e' = hasFibOutState e" and s: "synced e'"
  shows "entry_inv ff cc h p b as e'" "bestpath e' \<noteq> None"
proof -
  note k = entry_pipeD [OF entry_invD(5) [OF inv]]
  have same: "bestpath e' = bestpath e" "weightedNexthops e' = weightedNexthops e" using e'(1) by (simp_all add: same_core_def)
  have nz: "weightedNexthops e \<noteq> None" using w by (metis ptr_simps(3))
  show b: "bestpath e' \<noteq> None" using nz k(1) by (simp add: same)
  show "entry_inv ff cc h p b as e'"
  proof (rule entry_inv_core [OF inv e'(1)], rule entry_pipeI)
    show "bestpath e' = None \<longleftrightarrow> weightedNexthops e' = None" using k(1) by (simp add: same)
    show "None \<in> set as \<Longrightarrow> advertisedBestpath e' = None" using k(6) w by simp
    show "null_ok (ptr (weightedNexthops e')) as" using k(6) by (simp add: same)
    show "hasFibOutState e'" using k(7) w by (simp add: e'(2))
  qed (use b s k(3) in \<open>simp_all add: same\<close>)
qed

end
