(* ===== verification/Rib_Steps.thy ===== *)
theory Rib_Steps
  imports Rib_Pipeline
begin

text \<open>
  The handlers of the RIB keep the invariant of the pipeline and never abort: updates of paths, path
  selection, the programming of the FIB, its acknowledgements and updates of next hops.
\<close>

subsection \<open>The invariant of the RIB\<close>

definition group_acks :: "cidr \<Rightarrow> (cidr \<times> fib_nexthops) list \<Rightarrow> fib_nexthops list" where
  "group_acks p g = (case map_of g p of None \<Rightarrow> [] | Some w \<Rightarrow> [w])"

definition wait_acks :: "cidr \<Rightarrow> FibProgrammedPfxs \<Rightarrow> fib_nexthops list" where
  "wait_acks p W = concat (map (\<lambda>(_, g). group_acks p g) W)"

fun msg_acks :: "cidr \<Rightarrow> FibMessage \<Rightarrow> fib_nexthops list" where
  "msg_acks p (FibProgrammedMessage W _) = wait_acks p W"
| "msg_acks p FibSyncReq = []"

abbreviation queue_acks :: "FibMessage list \<Rightarrow> cidr \<Rightarrow> fib_nexthops list" where
  "queue_acks q p \<equiv> concat (map (msg_acks p) q)"

definition pfxs_wf :: "FibProgrammedPfxs \<Rightarrow> bool" where
  "pfxs_wf W \<longleftrightarrow> keys_distinct W \<and> (\<forall>(k, g)\<in>set W. keys_distinct g)"

fun msg_wf :: "FibMessage \<Rightarrow> bool" where
  "msg_wf (FibProgrammedMessage W _) = pfxs_wf W"
| "msg_wf FibSyncReq = True"

definition locals_ok :: "(cidr \<times> LocalRoute) list \<Rightarrow> bool" where
  "locals_ok ls \<longleftrightarrow> keys_distinct ls \<and> (\<forall>(p, lr)\<in>set ls. att_fine kV4LocalPeerInfo (lr_attrs lr))"

abbreviation rib_pinv :: "RibConfig \<Rightarrow> bool \<Rightarrow> best_view \<Rightarrow> Rib \<Rightarrow> bool" where
  "rib_pinv cfg cc V rib \<equiv>
     pinv (features cfg) cc V (queue_acks (fromFibMessageQ rib)) (set (fibBatchList rib)) (queue_events (ribOutQ rib))
       (ribEntries rib) (store rib)"

definition batch_ok :: "Rib \<Rightarrow> bool" where
  "batch_ok rib \<longleftrightarrow> distinct (fibBatchList rib) \<and> set (fibBatchList rib) \<subseteq> dom (map_of (ribEntries rib))"

definition all_need :: "(cidr \<times> RibEntry) list \<Rightarrow> bool" where
  "all_need E \<longleftrightarrow> (\<forall>p e. map_of E p = Some e \<longrightarrow> needPathSelection e)"

lemma pinv_frame:
  assumes inv: "pinv ff cc V acks B evs E h" and wf: "links_wf h'" and k: "keeps_routes h h'" "next_map h \<le> next_map h'"
    and ag: "\<And>a. a < next_route h \<Longrightarrow> agree_on h h' a"
  shows "pinv ff cc V acks B evs E h'"
proof -
  note d = pinvD [OF inv]
  have "entry_inv ff cc h' p (p \<in> B) (acks p) e \<and> advertised_view h' (Some e) = advertised_view h (Some e)"
    if "map_of E p = Some e" for p e
    using entry_inv_frame [OF d(3) [OF that] k] ag entry_path_bound [OF entry_invD(2) [OF d(3) [OF that]]]
      advertised_view_keeps [OF entry_invD(4) [OF d(3) [OF that]] k(1)] by blast
  moreover have "tags_below (next_map h') (acks p)" for p by (rule tags_below_mono [OF d(4) k(2)])
  moreover have "advertised_view h' None = advertised_view h None" by (simp add: advertised_view_def)
  ultimately show ?thesis using d(1,5) wf unfolding pinv_def by (metis not_Some_eq)
qed

subsection \<open>Updates of paths\<close>

text \<open>What the handlers of updates leave alone.\<close>

definition in_frame :: "Rib \<Rightarrow> Rib \<Rightarrow> bool" where
  "in_frame rib rib' \<longleftrightarrow> toFibMessageQ rib' = toFibMessageQ rib \<and> fromFibMessageQ rib' = fromFibMessageQ rib \<and>
     fib rib' = fib rib \<and> ribOutQ rib' = ribOutQ rib \<and> ribEoRReceived rib' = ribEoRReceived rib \<and>
     pauseBestPathAndFibProgramming rib' = pauseBestPathAndFibProgramming rib \<and> pausedBy rib' = pausedBy rib \<and>
     fibBatchTimer rib' = fibBatchTimer rib \<and> pendingInitialPathComputation rib' = pendingInitialPathComputation rib"

lemma in_frame_refl [simp]: "in_frame rib rib"
  by (simp add: in_frame_def)

lemma in_frame_trans: "in_frame r r' \<Longrightarrow> in_frame r' r'' \<Longrightarrow> in_frame r r''"
  by (simp add: in_frame_def)

text \<open>The part of the invariant that the updates of paths work on.\<close>

definition paths_inv :: "RibConfig \<Rightarrow> bool \<Rightarrow> best_view \<Rightarrow> Rib \<Rightarrow> bool" where
  "paths_inv cfg cc V rib \<longleftrightarrow> rib_pinv cfg cc V rib \<and> batch_ok rib \<and> locals_ok (localRoutes rib)"

lemma rib_getNexthopInfo_inv:
  assumes inv: "paths_inv cfg cc V rib" and nh: "nh \<noteq> IPEmpty"
  shows "\<exists>x rib'. rib_getNexthopInfo cfg nh rib = Some (x, rib') \<and> paths_inv cfg cc V rib' \<and> in_frame rib rib' \<and>
    ribEntries rib' = ribEntries rib \<and> fibBatchList rib' = fibBatchList rib \<and>
    (x = None \<or> x = Some nh \<and> map_of (nexthopInfoMap (store rib')) nh \<noteq> None)"
proof -
  have p: "rib_pinv cfg cc V rib" using inv by (simp add: paths_inv_def)
  have "getNexthopInfo nh (store rib, nexthopCache rib) \<noteq> None"
    using nh by (cases nh) (auto simp: getNexthopInfo_def split: prod.splits bool.splits)
  then obtain x new h c where g: "getNexthopInfo nh (store rib, nexthopCache rib) = Some (x, new, h, c)" by auto
  note k = getNexthopInfo_keeps [OF g pinvD(2) [OF p]]
  obtain rib' where r: "rib_getNexthopInfo cfg nh rib = Some (x, rib')" "ribEntries rib' = ribEntries rib" "store rib' = h"
    "fibBatchList rib' = fibBatchList rib" "localRoutes rib' = localRoutes rib" "in_frame rib rib'"
    by (auto simp: rib_getNexthopInfo_def g Let_def in_frame_def)
  have "pinv (features cfg) cc V (queue_acks (fromFibMessageQ rib)) (set (fibBatchList rib)) (queue_events (ribOutQ rib)) (ribEntries rib) h"
    by (rule pinv_frame [OF p k(1)]) (use k(2-5) in \<open>auto intro: keeps_routes_same\<close>)
  then have "paths_inv cfg cc V rib'" using inv r(2-6) by (simp add: paths_inv_def batch_ok_def in_frame_def)
  then show ?thesis using r k(6) by (intro exI [of _ x] exI [of _ rib']) simp
qed

lemma updateRibEntry_inv:
  assumes inv: "paths_inv cfg cc V rib" and e: "map_of (ribEntries rib) p = Some e \<or> map_of (ribEntries rib) p = None \<and> e = new_entry p"
    and att: "\<And>att. attOpt = Some att \<Longrightarrow> att_fine peer att"
  shows "\<exists>e' rib'. updateRibEntry cfg peer attOpt install (p, i) e rib = Some (e', rib') \<and> paths_inv cfg cc V rib' \<and>
    ribEntries rib' = AList.update p e' (ribEntries rib) \<and> in_frame rib rib' \<and> fibBatchList rib' = fibBatchList rib \<and>
    (needPathSelection e \<longrightarrow> needPathSelection e')"
proof -
  define get where "get = (case attOpt of
      Some att \<Rightarrow> if enableNexthopTracking cfg then rib_getNexthopInfo cfg (bp_nexthop (path_of att)) rib else Some (None, rib)
    | None \<Rightarrow> Some (None, rib))"
  obtain nh r where g: "get = Some (nh, r)" and ri: "paths_inv cfg cc V r" "in_frame rib r" "ribEntries r = ribEntries rib"
    "fibBatchList r = fibBatchList rib" and nh: "nh = None \<or> (\<exists>att. attOpt = Some att \<and> nh = Some (bp_nexthop (path_of att)) \<and>
       map_of (nexthopInfoMap (store r)) (bp_nexthop (path_of att)) \<noteq> None)"
  proof (cases attOpt)
    case None
    then show ?thesis using that [of None rib] inv by (simp add: get_def)
  next
    case (Some att)
    then have "bp_nexthop (path_of att) \<noteq> IPEmpty" using att by (simp add: att_fine_def)
    from rib_getNexthopInfo_inv [OF inv this] show ?thesis
      using that inv Some by (cases "enableNexthopTracking cfg") (auto simp: get_def)
  qed
  let ?b = "fibBatchList r = []" and ?h = "store r"
  have pi: "rib_pinv cfg cc V r" using ri(1) by (simp add: paths_inv_def)
  have ei: "entry_inv (features cfg) cc ?h p (p \<in> set (fibBatchList r)) (queue_acks (fromFibMessageQ r) p) e"
    using e pinvD(3) [OF pi, of p e] entry_inv_new [of _ _ _ p] ri(3) by auto
  have ev: "advertised_view ?h (Some e) = advertised_view ?h (map_of (ribEntries r) p)"
    using e ri(3) by (auto simp: advertised_view_def new_entry_def)
  have "path_ok att \<and> (nh = None \<or> nh = Some (bp_nexthop (path_of att)) \<and> map_of (nexthopInfoMap ?h) (bp_nexthop (path_of att)) \<noteq> None)"
    if "attOpt = Some att" for att using nh att [OF that] that by (auto simp: att_fine_def)
  then obtain ch e' w' where u: "updatePath (Some (unlinkRouteInfoAndCleanupNexthop ?b)) peer attOpt install i nh e (?h, nexthopCache r) = Some (ch, e', w')"
    and spec: "update_spec peer attOpt i e ?h ch e' (fst w')"
    using updatePath_spec [of "(?h, nexthopCache r)" e attOpt nh ?b peer install i] entry_invD(2) [OF ei] pinvD(2) [OF pi] by auto
  have n: "entry_inv (features cfg) cc (fst w') p (p \<in> set (fibBatchList r)) (queue_acks (fromFibMessageQ r) p) e'"
    "others_kept p ?h (fst w')" "links_wf (fst w')" "advertised_view (fst w') (Some e') = advertised_view ?h (Some e)"
    using entry_inv_update [OF ei spec] att by blast+
  have "pinv (features cfg) cc V (queue_acks (fromFibMessageQ r)) (set (fibBatchList r)) (queue_events (ribOutQ r))
      (AList.update p e' (ribEntries r)) (fst w')"
    by (rule pinv_set [OF pi n(2,3)])
       (use n(1,2,4) pinvD(4,5) [OF pi, of p] ev tags_below_mono in \<open>auto simp: others_kept_def fun_upd_idem\<close>)
  moreover have "needPathSelection e \<longrightarrow> needPathSelection e'" using spec by (auto simp: update_spec_def split: if_splits)
  ultimately show ?thesis
    using ri u g unfolding updateRibEntry_def get_def [symmetric]
    by (cases w') (auto simp: set_entry_def paths_inv_def batch_ok_def in_frame_def)
qed

definition paths_step :: "RibConfig \<Rightarrow> bool \<Rightarrow> best_view \<Rightarrow> Rib \<Rightarrow> Rib \<Rightarrow> bool" where
  "paths_step cfg cc V rib rib' \<longleftrightarrow> paths_inv cfg cc V rib' \<and> in_frame rib rib' \<and>
     set (fibBatchList rib') \<subseteq> set (fibBatchList rib) \<and> (all_need (ribEntries rib) \<longrightarrow> all_need (ribEntries rib'))"

lemma paths_step_trans: "paths_step cfg cc V r r' \<Longrightarrow> paths_step cfg cc V r' r'' \<Longrightarrow> paths_step cfg cc V r r''"
  unfolding paths_step_def using in_frame_trans by blast

lemma fold_opt_inv:
  assumes "\<And>x s. x \<in> set xs \<Longrightarrow> I s \<Longrightarrow> \<exists>s'. f x s = Some s' \<and> I s'" and "I s"
  shows "\<exists>s'. fold_opt f xs s = Some s' \<and> I s'"
  using assms
proof (induction xs arbitrary: s)
  case (Cons x xs)
  obtain s1 where s1: "f x s = Some s1" "I s1" using Cons.prems by fastforce
  then obtain s2 where "fold_opt f xs s1 = Some s2" "I s2" using Cons.IH [of s1] Cons.prems(1) by auto
  then show ?case by (simp add: s1(1))
qed simp

lemma all_needD: "all_need E \<Longrightarrow> map_of E p = Some e \<Longrightarrow> needPathSelection e"
  unfolding all_need_def by blast

lemma all_need_update: "all_need E \<Longrightarrow> needPathSelection e \<Longrightarrow> all_need (AList.update p e E)"
  by (auto simp: all_need_def)

lemma checkWithdrawal_inv:
  assumes inv: "paths_inv cfg cc V rib" and e: "map_of (ribEntries rib) p = Some e"
  shows "paths_step cfg cc V rib (checkWithdrawalBeforeRouteProgrammed p e rib)"
proof (cases "\<not> hasFibOutState e \<and> routeInfos e = []")
  case True
  have pi: "rib_pinv cfg cc V rib" using inv by (simp add: paths_inv_def)
  have "advertisedBestpath e = None"
    using entry_pipeD(7) [OF entry_invD(5) [OF pinvD(3) [OF pi e]]] True by blast
  then have "advertised_view (store rib) (map_of (ribEntries rib) p) = None" using e by (simp add: advertised_view_def)
  from pinv_erase [OF pi this, of "set (filter (\<lambda>q. q \<noteq> p) (fibBatchList rib))" "queue_acks (fromFibMessageQ rib)"]
  have "rib_pinv cfg cc V (erase_entry p rib)" using pinvD(4) [OF pi, of p] by (simp add: erase_entry_def)
  then show ?thesis
    using inv True by (auto simp: checkWithdrawalBeforeRouteProgrammed_def erase_entry_def paths_step_def paths_inv_def batch_ok_def
        in_frame_def all_need_def)
qed (use inv in \<open>auto simp: checkWithdrawalBeforeRouteProgrammed_def paths_step_def\<close>)

definition aggs_fine :: "(cidr \<times> published_path option) list \<Rightarrow> bool" where
  "aggs_fine aggs \<longleftrightarrow> (\<forall>q att. (q, Some att) \<in> set aggs \<longrightarrow> att_fine kV4LocalPeerInfo att)"

lemma aggs_fine_Nil [simp]: "aggs_fine []"
  by (simp add: aggs_fine_def)

lemma aggregateOne_ok:
  assumes "aggregateOne p ann l = (l', out)" and fine: "att_fine kV4LocalPeerInfo (lr_attrs (snd l))"
  shows "fst l' = fst l" "att_fine kV4LocalPeerInfo (lr_attrs (snd l'))"
    "aggs_fine out"
  using assms by (auto simp: aggregateOne_def aggs_fine_def Let_def split: prod.splits if_splits)

lemma aggregateRoute_ok:
  assumes r: "aggregateRoute p ann rib = (aggs, rib')" and inv: "paths_inv cfg cc V rib"
  shows "paths_step cfg cc V rib rib'" "aggs_fine aggs"
proof -
  let ?rs = "map (aggregateOne p ann) (localRoutes rib)"
  have ok: "locals_ok (localRoutes rib)" using inv by (simp add: paths_inv_def)
  have one: "fst (fst (aggregateOne p ann l)) = fst l \<and> att_fine kV4LocalPeerInfo (lr_attrs (snd (fst (aggregateOne p ann l)))) \<and>
      (aggs_fine (snd (aggregateOne p ann l)))"
    if "l \<in> set (localRoutes rib)" for l
    using aggregateOne_ok [OF prod.collapse [symmetric], where p = p and ann = ann and l = l] ok that by (auto simp: locals_ok_def)
  have "map fst (map fst ?rs) = map fst (localRoutes rib)" using one by simp
  then have "keys_distinct (map fst ?rs)" using ok unfolding keys_distinct_def locals_ok_def by metis
  then have "locals_ok (map fst ?rs)" using one unfolding locals_ok_def by (auto simp: case_prod_beta)
  then show "paths_step cfg cc V rib rib'"
    using r inv by (auto simp: aggregateRoute_def Let_def paths_step_def paths_inv_def batch_ok_def in_frame_def)
  show "aggs_fine aggs"
    using r one unfolding aggs_fine_def aggregateRoute_def Let_def by fastforce
qed

lemma processSingleRibInUpdate_inv:
  assumes inv: "paths_inv cfg cc V rib" and att: "\<And>att. attOpt = Some att \<Longrightarrow> att_fine peer att"
  shows "\<exists>aggs rib'. processSingleRibInUpdate cfg peer attOpt (p, i) rib = Some (aggs, rib') \<and> paths_step cfg cc V rib rib' \<and>
    (aggs_fine aggs)"
proof -
  let ?e = "case map_of (ribEntries rib) p of None \<Rightarrow> new_entry p | Some e \<Rightarrow> e"
  let ?lr = "if peer_eq peer kV4LocalPeerInfo then map_of (localRoutes rib) p else None"
  let ?install = "case ?lr of None \<Rightarrow> \<not> t_isRedistributePeer peer | Some l \<Rightarrow> getInstallToFib l"
  have ee: "map_of (ribEntries rib) p = Some ?e \<or> map_of (ribEntries rib) p = None \<and> ?e = new_entry p"
    by (simp split: option.split)
  show ?thesis
  proof (cases "attOpt = None \<and> (map_of (ribEntries rib) p = None \<or> allPathsCount ?e = 0)")
    case True
    then show ?thesis using inv by (simp add: processSingleRibInUpdate_def paths_step_def)
  next
    case False
    obtain e' r where u: "updateRibEntry cfg peer attOpt ?install (p, i) ?e rib = Some (e', r)" and ri: "paths_inv cfg cc V r"
      "ribEntries r = AList.update p e' (ribEntries rib)" "in_frame rib r" "fibBatchList r = fibBatchList rib"
      "needPathSelection ?e \<longrightarrow> needPathSelection e'"
      using updateRibEntry_inv [OF inv ee, of attOpt peer ?install i] att by blast
    have "needPathSelection (new_entry p)" by (simp add: new_entry_def)
    then have "all_need (ribEntries rib) \<longrightarrow> all_need (ribEntries r)"
      using ri(5) ee all_needD unfolding ri(2) by (metis all_need_update)
    then have s1: "paths_step cfg cc V rib r" using ri by (simp add: paths_step_def)
    define r2 where "r2 = (if attOpt = None then checkWithdrawalBeforeRouteProgrammed p e' r else r)"
    have "paths_step cfg cc V r r2"
      using checkWithdrawal_inv [OF ri(1), of p e'] ri(1,2) by (simp add: r2_def paths_step_def)
    then have s2: "paths_step cfg cc V rib r2" by (rule paths_step_trans [OF s1])
    have i2: "paths_inv cfg cc V r2" using s2 by (simp add: paths_step_def)
    have "\<exists>b. processSingleRibInUpdate cfg peer attOpt (p, i) rib = Some ([], r2) \<or>
        processSingleRibInUpdate cfg peer attOpt (p, i) rib = Some (aggregateRoute p b r2)"
      using False u by (auto simp: processSingleRibInUpdate_def Let_def r2_def [symmetric])
    then obtain aggs r3 b where res: "processSingleRibInUpdate cfg peer attOpt (p, i) rib = Some (aggs, r3)"
      and c: "aggs = [] \<and> r3 = r2 \<or> aggregateRoute p b r2 = (aggs, r3)" by (metis prod.exhaust)
    from c have "paths_step cfg cc V rib r3 \<and> (aggs_fine aggs)"
      using s2 aggregateRoute_ok [OF _ i2, of p b aggs r3] paths_step_trans [OF s2, of r3] by (auto simp: aggs_fine_def)
    then show ?thesis using res by blast
  qed
qed

lemma processPrefix_inv:
  assumes inv: "paths_inv cfg cc V rib" and att: "\<And>att. attOpt = Some att \<Longrightarrow> att_fine peer att"
  shows "\<exists>rib'. processPrefix cfg peer attOpt pp rib = Some rib' \<and> paths_step cfg cc V rib rib'"
proof -
  obtain p i where pp: "pp = (p, i)" by (cases pp)
  obtain aggs r where r: "processSingleRibInUpdate cfg peer attOpt pp rib = Some (aggs, r)" "paths_step cfg cc V rib r" "aggs_fine aggs"
    using processSingleRibInUpdate_inv [OF inv, of attOpt peer p i] att unfolding pp by blast
  have "\<exists>r'. fold_opt (processAggregate cfg) aggs r = Some r' \<and> paths_step cfg cc V rib r'"
  proof (rule fold_opt_inv)
    show "paths_step cfg cc V rib r" by (rule r(2))
    fix x s assume x: "x \<in> set aggs" and s: "paths_step cfg cc V rib s"
    have "paths_inv cfg cc V s" using s by (simp add: paths_step_def)
    then obtain out s' where s': "processSingleRibInUpdate cfg kV4LocalPeerInfo (snd x) (fst x, kDefaultPathID) s = Some (out, s')"
      "paths_step cfg cc V s s'"
      using processSingleRibInUpdate_inv [of cfg cc V s "snd x" kV4LocalPeerInfo "fst x" kDefaultPathID] r(3) x
      by (metis aggs_fine_def prod.collapse)
    then show "\<exists>s'. processAggregate cfg x s = Some s' \<and> paths_step cfg cc V rib s'"
      using paths_step_trans [OF s s'(2)] by (simp add: processAggregate_def)
  qed
  then show ?thesis by (simp add: processPrefix_def r(1))
qed

lemma processPrefixes_inv:
  assumes inv: "paths_inv cfg cc V rib" and att: "\<And>att. attOpt = Some att \<Longrightarrow> att_fine peer att"
  shows "\<exists>rib'. fold_opt (processPrefix cfg peer attOpt) pps rib = Some rib' \<and> paths_step cfg cc V rib rib'"
proof (rule fold_opt_inv)
  show "paths_step cfg cc V rib rib" using inv by (simp add: paths_step_def)
  fix x s assume s: "paths_step cfg cc V rib s"
  then have "paths_inv cfg cc V s" by (simp add: paths_step_def)
  from processPrefix_inv [OF this, of attOpt peer x] att paths_step_trans [OF s]
  show "\<exists>s'. processPrefix cfg peer attOpt x s = Some s' \<and> paths_step cfg cc V rib s'" by blast
qed

subsection \<open>Scheduling\<close>

text \<open>
  Before the initial path computation nothing is programmed, and every entry waits for it. Afterwards a
  full synchronisation has been or will be done, a batch has a request on the queue, and an entry
  that needs path selection has the timer of the batch running, unless the RIB is paused.
\<close>

definition no_need :: "(cidr \<times> RibEntry) list \<Rightarrow> bool" where
  "no_need E \<longleftrightarrow> (\<forall>p e. map_of E p = Some e \<longrightarrow> \<not> needPathSelection e)"

definition sched :: "Rib \<Rightarrow> bool" where
  "sched rib \<longleftrightarrow> (pauseBestPathAndFibProgramming rib \<longleftrightarrow> pausedBy rib \<noteq> []) \<and>
     (if ribEoRReceived rib
      then \<not> pendingInitialPathComputation rib \<and> (fullSynced (fib rib) \<or> True \<in> set (toFibMessageQ rib)) \<and>
        (fibBatchList rib \<noteq> [] \<longrightarrow> toFibMessageQ rib \<noteq> []) \<and>
        (fibBatchTimer rib \<or> pauseBestPathAndFibProgramming rib \<or> no_need (ribEntries rib))
      else fibBatchList rib = [] \<and> \<not> fibBatchTimer rib \<and> all_need (ribEntries rib))"

definition fib_ok :: "Rib \<Rightarrow> bool" where
  "fib_ok rib \<longleftrightarrow> waitForAck (fib rib) = [] \<and> (\<forall>m\<in>set (fromFibMessageQ rib). msg_wf m)"

definition rib_inv :: "RibConfig \<Rightarrow> bool \<Rightarrow> best_view \<Rightarrow> Rib \<Rightarrow> bool" where
  "rib_inv cfg cc V rib \<longleftrightarrow> paths_inv cfg cc V rib \<and> fib_ok rib \<and> sched rib"

lemma rib_invD:
  assumes "rib_inv cfg cc V rib"
  shows "paths_inv cfg cc V rib" "fib_ok rib" "sched rib"
  using assms by (simp_all add: rib_inv_def)

lemma schedule_fields [simp]:
  "ribEntries (schedulePrepareFibProgrammingTimer rib) = ribEntries rib" "store (schedulePrepareFibProgrammingTimer rib) = store rib"
  "fibBatchList (schedulePrepareFibProgrammingTimer rib) = fibBatchList rib" "localRoutes (schedulePrepareFibProgrammingTimer rib) = localRoutes rib"
  "fromFibMessageQ (schedulePrepareFibProgrammingTimer rib) = fromFibMessageQ rib" "toFibMessageQ (schedulePrepareFibProgrammingTimer rib) = toFibMessageQ rib"
  "ribOutQ (schedulePrepareFibProgrammingTimer rib) = ribOutQ rib" "fib (schedulePrepareFibProgrammingTimer rib) = fib rib"
  "ribEoRReceived (schedulePrepareFibProgrammingTimer rib) = ribEoRReceived rib" "pausedBy (schedulePrepareFibProgrammingTimer rib) = pausedBy rib"
  "pauseBestPathAndFibProgramming (schedulePrepareFibProgrammingTimer rib) = pauseBestPathAndFibProgramming rib"
  "pendingInitialPathComputation (schedulePrepareFibProgrammingTimer rib) = pendingInitialPathComputation rib"
  by (simp_all add: schedulePrepareFibProgrammingTimer_def)

lemma schedule_timer: "fibBatchTimer (schedulePrepareFibProgrammingTimer rib) \<or> pauseBestPathAndFibProgramming rib"
  by (simp add: schedulePrepareFibProgrammingTimer_def)

lemma schedule_paths [simp]: "paths_inv cfg cc V (schedulePrepareFibProgrammingTimer rib) = paths_inv cfg cc V rib"
  by (simp add: paths_inv_def batch_ok_def)

text \<open>After the paths have changed, the timer of the batch is scheduled.\<close>

lemma rib_inv_scheduled:
  assumes inv: "rib_inv cfg cc V rib" and s: "paths_step cfg cc V rib r"
  shows "rib_inv cfg cc V (if ribEoRReceived r then schedulePrepareFibProgrammingTimer (incrementPrefixCountForRouteChurn n r) else r)"
proof -
  note d = rib_invD [OF inv]
  have f: "in_frame rib r" "set (fibBatchList r) \<subseteq> set (fibBatchList rib)" "paths_inv cfg cc V r"
    "all_need (ribEntries rib) \<longrightarrow> all_need (ribEntries r)" using s by (simp_all add: paths_step_def)
  have "paths_inv cfg cc V (incrementPrefixCountForRouteChurn n r)"
    using f(3) by (simp add: paths_inv_def batch_ok_def incrementPrefixCountForRouteChurn_def)
  moreover have "sched (if ribEoRReceived r then schedulePrepareFibProgrammingTimer (incrementPrefixCountForRouteChurn n r) else r)"
    using d(3) f schedule_timer [of "incrementPrefixCountForRouteChurn n r"]
    by (auto simp: sched_def in_frame_def incrementPrefixCountForRouteChurn_def)
  ultimately show ?thesis using d(2) f(1,3)
    by (simp add: rib_inv_def fib_ok_def in_frame_def) (simp add: incrementPrefixCountForRouteChurn_def)
qed

lemma flush_step: "paths_step cfg cc V rib r \<Longrightarrow> paths_step cfg cc V rib (maybeFlushNexthopSubscriptions r)"
  by (auto simp: paths_step_def paths_inv_def batch_ok_def in_frame_def maybeFlushNexthopSubscriptions_def)

lemma processRibInAnnouncement_inv:
  assumes inv: "rib_inv cfg cc V rib" and att: "att_fine peer att"
  shows "\<exists>rib'. processRibInAnnouncement cfg peer att pps rib = Some rib' \<and> rib_inv cfg cc V rib'"
proof -
  obtain r where r: "fold_opt (processPrefix cfg peer (Some att)) pps rib = Some r" "paths_step cfg cc V rib r"
    using processPrefixes_inv [OF rib_invD(1) [OF inv], of "Some att" peer pps] att by auto
  then show ?thesis
    using rib_inv_scheduled [OF inv flush_step [OF r(2)], of "length pps"] by (simp add: processRibInAnnouncement_def Let_def)
qed

lemma processRibInWithdrawal_inv:
  assumes inv: "rib_inv cfg cc V rib"
  shows "\<exists>rib'. processRibInWithdrawal cfg peer pps rib = Some rib' \<and> rib_inv cfg cc V rib'"
proof -
  obtain r where r: "fold_opt (processPrefix cfg peer None) pps rib = Some r" "paths_step cfg cc V rib r"
    using processPrefixes_inv [OF rib_invD(1) [OF inv], of None peer pps] by auto
  then show ?thesis
    using rib_inv_scheduled [OF inv flush_step [OF r(2)], of "length pps"] by (simp add: processRibInWithdrawal_def Let_def)
qed

subsection \<open>Messages to the peers\<close>

text \<open>
  What the handlers that send messages leave alone. A message may pause the RIB, which stops the
  timer of the batch.
\<close>

abbreviation pause_ok :: "Rib \<Rightarrow> bool" where
  "pause_ok rib \<equiv> pauseBestPathAndFibProgramming rib \<longleftrightarrow> pausedBy rib \<noteq> []"

definition out_frame :: "Rib \<Rightarrow> Rib \<Rightarrow> bool" where
  "out_frame rib rib' \<longleftrightarrow> toFibMessageQ rib' = toFibMessageQ rib \<and> fromFibMessageQ rib' = fromFibMessageQ rib \<and>
     fib rib' = fib rib \<and> ribEoRReceived rib' = ribEoRReceived rib \<and> localRoutes rib' = localRoutes rib \<and>
     pendingInitialPathComputation rib' = pendingInitialPathComputation rib \<and> (pause_ok rib \<longrightarrow> pause_ok rib') \<and>
     (fibBatchTimer rib' \<longrightarrow> fibBatchTimer rib) \<and>
     (fibBatchTimer rib \<or> pauseBestPathAndFibProgramming rib \<longrightarrow> fibBatchTimer rib' \<or> pauseBestPathAndFibProgramming rib')"

definition quiet :: "Rib \<Rightarrow> Rib \<Rightarrow> bool" where
  "quiet rib rib' \<longleftrightarrow> out_frame rib rib' \<and> ribEntries rib' = ribEntries rib \<and> store rib' = store rib \<and>
     fibBatchList rib' = fibBatchList rib"

lemma out_frame_refl [simp]: "out_frame rib rib"
  by (simp add: out_frame_def)

lemma out_frame_trans: "out_frame r r' \<Longrightarrow> out_frame r' r'' \<Longrightarrow> out_frame r r''"
  unfolding out_frame_def by metis

lemma quiet_refl [simp]: "quiet rib rib"
  by (simp add: quiet_def)

lemma quiet_trans: "quiet r r' \<Longrightarrow> quiet r' r'' \<Longrightarrow> quiet r r''"
  unfolding quiet_def by (metis out_frame_trans)

lemma ribOutQPush_quiet: "quiet rib (ribOutQPush cfg m rib)" "ribOutQ (ribOutQPush cfg m rib) = ribOutQ rib @ [m]"
  by (auto simp: quiet_def out_frame_def ribOutQPush_def processPauseBestPathAndFibProgramming_def Let_def)

lemma incrementRibVersion_quiet: "incrementRibVersion rib = (v, rib') \<Longrightarrow> quiet rib rib' \<and> ribOutQ rib' = ribOutQ rib"
  by (auto simp: incrementRibVersion_def quiet_def out_frame_def)

text \<open>Messages for the peers with add-path only.\<close>

lemma addPathWithdrawOne_quiet:
  assumes "addPathWithdrawOne cfg p nh (rib, w, v) = (rib', w', v')" "wd_entries w = []"
  shows "quiet rib rib' \<and> wd_entries w' = [] \<and> queue_events (ribOutQ rib') = queue_events (ribOutQ rib)"
proof (cases "length (wd_addPathEntries w) = kRibChunkSize")
  case True
  obtain u r where i: "incrementRibVersion (ribOutQPush cfg (OutWithdrawal w) rib) = (u, r)" by (cases "incrementRibVersion (ribOutQPush cfg (OutWithdrawal w) rib)")
  have "rib' = r" "wd_entries w' = []" using assms True i by (auto simp: addPathWithdrawOne_def Let_def empty_withdrawal_def)
  then show ?thesis
    using incrementRibVersion_quiet [OF i] ribOutQPush_quiet [where rib = rib and cfg = cfg and m = "OutWithdrawal w"] assms(2) quiet_trans by auto
qed (use assms in \<open>auto simp: addPathWithdrawOne_def Let_def\<close>)

lemma addPathWithdraw_quiet:
  assumes "fold (\<lambda>nh. addPathWithdrawOne cfg p nh) nhs (rib, w, v) = (rib', w', v')" "wd_entries w = []"
  shows "quiet rib rib' \<and> wd_entries w' = [] \<and> queue_events (ribOutQ rib') = queue_events (ribOutQ rib)"
  using assms
proof (induction nhs arbitrary: rib w v)
  case (Cons nh nhs)
  obtain r x u where one: "addPathWithdrawOne cfg p nh (rib, w, v) = (r, x, u)" by (cases "addPathWithdrawOne cfg p nh (rib, w, v)")
  note q = addPathWithdrawOne_quiet [OF one Cons.prems(2)]
  show ?case using Cons.IH [of r x u] Cons.prems(1) q quiet_trans by (auto simp: one)
qed simp

lemma handleFullAddPathWithdrawal_quiet:
  assumes "handleFullAddPathWithdrawal cfg e (rib, w, v) = (rib', w', v')" "wd_entries w = []"
  shows "quiet rib rib' \<and> wd_entries w' = [] \<and> queue_events (ribOutQ rib') = queue_events (ribOutQ rib)"
proof (cases "advertisedWeightedNexthops e")
  case (Some x)
  have "fold (\<lambda>(nh, _). addPathWithdrawOne cfg (e_prefix e) nh) ws s =
      fold (\<lambda>nh. addPathWithdrawOne cfg (e_prefix e) nh) (map fst ws) s" for ws :: weighted_nexthops and s
    by (induction ws arbitrary: s) (auto split: prod.split)
  then show ?thesis
    using addPathWithdraw_quiet [of cfg "e_prefix e" "map fst (snd x)" rib w v] assms Some
    by (cases x) (simp add: handleFullAddPathWithdrawal_def)
qed (use assms in \<open>simp add: handleFullAddPathWithdrawal_def\<close>)

lemma withdrawEntry_spec:
  assumes "withdrawEntry cfg p e (rib, w, wAdd) = (rib', w', wAdd')" "wd_entries wAdd = []"
  shows "\<exists>v. out_frame rib rib' \<and> ribEntries rib' = AList.update p (snd (commitBestpath (e\<lparr>e_ribVersion := v\<rparr>))) (ribEntries rib) \<and>
    store rib' = store rib \<and> fibBatchList rib' = fibBatchList rib \<and> wd_entries wAdd' = [] \<and>
    queue_events (ribOutQ rib') @ best_events (OutWithdrawal w') =
      queue_events (ribOutQ rib) @ best_events (OutWithdrawal w) @ [(p, None)]"
proof -
  define rw where "rw = (if length (wd_entries w) = kRibChunkSize
      then (ribOutQPush cfg (OutWithdrawal w) rib, empty_withdrawal) else (rib, w))"
  obtain r x where rx: "rw = (r, x)" by (cases rw)
  have 1: "quiet rib r" "queue_events (ribOutQ r) @ best_events (OutWithdrawal x) = queue_events (ribOutQ rib) @ best_events (OutWithdrawal w)"
    using rx ribOutQPush_quiet [where rib = rib and cfg = cfg and m = "OutWithdrawal w"] by (auto simp: rw_def empty_withdrawal_def split: if_splits)
  obtain v r2 where i: "incrementRibVersion r = (v, r2)" by (cases "incrementRibVersion r")
  obtain r3 y u where f: "handleFullAddPathWithdrawal cfg e (r2, wAdd, v) = (r3, y, u)" by (cases "handleFullAddPathWithdrawal cfg e (r2, wAdd, v)")
  note 2 = incrementRibVersion_quiet [OF i] and 3 = handleFullAddPathWithdrawal_quiet [OF f assms(2)]
  have res: "rib' = set_entry p (snd (commitBestpath (e\<lparr>e_ribVersion := u\<rparr>))) r3" "wAdd' = y"
    "wd_entries w' = wd_entries x @ [\<lparr>ow_prefix = p, ow_pathIdToSend = kDefaultPathID, ow_nh = None, ow_ribVersion = u\<rparr>]"
    using assms(1) by (auto simp: withdrawEntry_def rw_def [symmetric] rx i f Let_def)
  have q: "quiet rib r3" using 1(1) 2 3 quiet_trans by blast
  have "queue_events (ribOutQ r3) = queue_events (ribOutQ r)" using 2 3 by simp
  then show ?thesis
    using q 1(2) 3 by (intro exI [of _ u]) (simp add: res set_entry_def quiet_def out_frame_def)
qed

subsection \<open>Path selection for the FIB\<close>

abbreviation config_ok :: "RibConfig \<Rightarrow> bool \<Rightarrow> bool" where
  "config_ok cfg cc \<equiv> selectors_ok (features cfg) cc (multipathSelector cfg) (bestpathSelector cfg)"

lemma batch_in_fields:
  assumes "batch_in p (rib, w, x) = (rib', w', x')"
  shows "out_frame rib rib'" "ribEntries rib' = ribEntries rib" "store rib' = store rib" "ribOutQ rib' = ribOutQ rib" "w' = w" "x' = x"
    "fibBatchList rib' = (if p \<in> set (fibBatchList rib) then fibBatchList rib else fibBatchList rib @ [p])"
  using assms by (auto simp: batch_in_def batch_entry_def out_frame_def split: if_splits)

text \<open>What one round of the loop does to the entry and to the batch.\<close>

definition prepared ::
  "RibConfig \<Rightarrow> bool \<Rightarrow> best_view \<Rightarrow> bool \<Rightarrow> cidr \<Rightarrow> rib_store \<Rightarrow> RibEntry \<Rightarrow> prepare_state \<Rightarrow> prepare_state \<Rightarrow> bool" where
  "prepared cfg cc V fullSync p h' e' s s' \<longleftrightarrow> (case (s, s') of ((rib, w, wAdd), (rib', w', wAdd')) \<Rightarrow>
     \<exists>e''. out_frame rib rib' \<and> ribEntries rib' = AList.update p e'' (ribEntries rib) \<and> store rib' = h' \<and>
       wd_entries wAdd' = [] \<and> same_core e' e'' \<and> \<not> needPathSelection e'' \<and>
       entry_pipe (next_map h') (p \<in> set (fibBatchList rib')) (queue_acks (fromFibMessageQ rib) p) e'' \<and>
       (fibBatchList rib' = fibBatchList rib \<and> \<not> fullSync \<or> fibBatchList rib' = fibBatchList rib @ [p] \<and> p \<notin> set (fibBatchList rib)) \<and>
       apply_events (queue_events (ribOutQ rib') @ best_events (OutWithdrawal w')) V =
         (apply_events (queue_events (ribOutQ rib) @ best_events (OutWithdrawal w)) V)(p := advertised_view h' (Some e'')))"

lemma prepareOne_cases:
  assumes inv: "entry_inv (features cfg) cc (store rib) p (p \<in> B) (queue_acks (fromFibMessageQ rib) p) e"
    and e: "map_of (ribEntries rib) p = Some e" and need: "fullSync \<or> needPathSelection e"
    and B: "fullSync \<and> p \<notin> set (fibBatchList rib) \<or> \<not> fullSync \<and> (p \<in> B \<longrightarrow> p \<in> set (fibBatchList rib))"
    and tags: "tags_below (next_map (store rib)) (queue_acks (fromFibMessageQ rib) p)"
    and view: "apply_events (queue_events (ribOutQ rib) @ best_events (OutWithdrawal w)) V p = advertised_view (store rib) (Some e)"
    and wAdd: "wd_entries wAdd = []"
    and run: "runBestPathSelection cfg (e, store rib) = Some ((bc, nc), e', h')"
    and spec: "select_spec (features cfg) cc (store rib) e bc nc e' h'"
  shows "\<exists>s'. prepareOne cfg fullSync p (rib, w, wAdd) = Some s' \<and> prepared cfg cc V fullSync p h' e' (rib, w, wAdd) s'"
proof -
  let ?as = "queue_acks (fromFibMessageQ rib) p"
  define r0 where "r0 = (let r = set_entry p e' (rib\<lparr>store := h'\<rparr>) in if fullSync then r\<lparr>fibBatchList := fibBatchList r @ [p]\<rparr> else r)"
  have r0: "out_frame rib r0" "ribEntries r0 = AList.update p e' (ribEntries rib)" "store r0 = h'" "ribOutQ r0 = ribOutQ rib"
    "fibBatchList r0 = (if fullSync then fibBatchList rib @ [p] else fibBatchList rib)"
    by (auto simp: r0_def Let_def set_entry_def out_frame_def)
  note d = select_specD [OF spec]
  have view': "advertised_view h' (Some e') = advertised_view (store rib) (Some e)"
    using advertised_view_keeps [OF entry_invD(4) [OF inv] keeps_routes_frame [OF d(1)]] d(2)
    by (simp add: advertised_view_def kept_def)
  have keep: "prepared cfg cc V fullSync p h' e' (rib, w, wAdd) (r, w, wAdd)"
    if "out_frame rib r" "ribEntries r = ribEntries r0" "store r = h'" "ribOutQ r = ribOutQ rib"
      "entry_pipe (next_map h') (p \<in> set (fibBatchList r)) ?as e'"
      "fibBatchList r = fibBatchList r0 \<or> fibBatchList r = (if p \<in> set (fibBatchList r0) then fibBatchList r0 else fibBatchList r0 @ [p])" for r
    using that r0 d(3) B wAdd view view'
    unfolding prepared_def by (intro case_prodI exI [of _ e']) (auto simp: same_core_def fun_upd_idem split: if_splits)
  have eq: "prepareOne cfg fullSync p (rib, w, wAdd) = Some (
      if \<not> bc \<and> \<not> nc \<and> multipathChanged e' then batch_in p (r0, w, wAdd)
      else let s = (if nc \<or> bc then batch_in p
               (if weightedNexthops e' = None \<or> bc \<and> bestpath e' = None then withdrawEntry cfg p e' (r0, w, wAdd) else (r0, w, wAdd))
             else (r0, w, wAdd))
           in if allPathsCount e' = 0 \<and> hasFibOutState e' then batch_in p s else s)"
    using need e run by (auto simp: prepareOne_def r0_def Let_def)
  have pb: "p \<in> B \<longrightarrow> p \<in> set (fibBatchList r0)" using B r0(5) by auto
  show ?thesis
  proof (cases "bc \<or> nc")
    case False
    then have "select_spec (features cfg) cc (store rib) e False False e' h'" using spec by simp
    note pipe = select_unchanged_pipe [OF this inv tags]
    obtain r where r: "prepareOne cfg fullSync p (rib, w, wAdd) = Some (r, w, wAdd)"
      "r = r0 \<or> batch_in p (r0, w, wAdd) = (r, w, wAdd)"
      using False by (cases "multipathChanged e' \<or> allPathsCount e' = 0 \<and> hasFibOutState e'") (auto simp: eq batch_in_def)
    from r(2) have "prepared cfg cc V fullSync p h' e' (rib, w, wAdd) (r, w, wAdd)"
    proof
      assume "r = r0" then show ?thesis using keep [of r0] pipe pb r0 by simp
    next
      assume "batch_in p (r0, w, wAdd) = (r, w, wAdd)"
      note b = batch_in_fields [OF this]
      show ?thesis by (rule keep) (use b r0 pipe pb out_frame_trans [OF r0(1) b(1)] in \<open>auto simp: \<close>)
    qed
    then show ?thesis using r(1) by blast
  next
    case True
    show ?thesis
    proof (cases "bestpath e' = None")
      case False
      then have nh: "weightedNexthops e' \<noteq> None" using select_routes(6) [OF spec inv] by simp
      obtain r where r: "batch_in p (r0, w, wAdd) = (r, w, wAdd)" by (auto simp: batch_in_def)
      note b = batch_in_fields [OF r]
      have again: "batch_in p (r, w, wAdd) = (r, w, wAdd)" using b(7) by (simp add: batch_in_def batch_entry_def)
      have "prepareOne cfg fullSync p (rib, w, wAdd) = Some (r, w, wAdd)"
        using True False nh r again by (auto simp: eq Let_def)
      moreover have "prepared cfg cc V fullSync p h' e' (rib, w, wAdd) (r, w, wAdd)"
        by (rule keep) (use b r0 select_changed_pipe [OF spec inv tags False] out_frame_trans [OF r0(1) b(1)] in auto)
      ultimately show ?thesis by blast
    next
      case none: True
      then have nh: "weightedNexthops e' = None" using select_routes(6) [OF spec inv] by simp
      obtain r1 w1 x1 where w: "withdrawEntry cfg p e' (r0, w, wAdd) = (r1, w1, x1)" by (cases "withdrawEntry cfg p e' (r0, w, wAdd)")
      obtain r where r: "batch_in p (r1, w1, x1) = (r, w1, x1)" by (auto simp: batch_in_def)
      note b = batch_in_fields [OF r]
      have again: "batch_in p (r, w1, x1) = (r, w1, x1)" using b(7) by (simp add: batch_in_def batch_entry_def)
      have res: "prepareOne cfg fullSync p (rib, w, wAdd) = Some (r, w1, x1)"
        using True none nh w r again by (auto simp: eq Let_def)
      obtain v where v: "out_frame r0 r1" "ribEntries r1 = AList.update p (snd (commitBestpath (e'\<lparr>e_ribVersion := v\<rparr>))) (ribEntries r0)"
        "store r1 = store r0" "fibBatchList r1 = fibBatchList r0" "wd_entries x1 = []"
        "queue_events (ribOutQ r1) @ best_events (OutWithdrawal w1) =
           queue_events (ribOutQ r0) @ best_events (OutWithdrawal w) @ [(p, None)]"
        using withdrawEntry_spec [OF w wAdd] by blast
      let ?e = "snd (commitBestpath (e'\<lparr>e_ribVersion := v\<rparr>))"
      have core: "same_core e' ?e"
        using commitBestpath_core [of "e'\<lparr>e_ribVersion := v\<rparr>"] by (simp add: same_core_def)
      have "advertised_view h' (Some ?e) = None" using none by (simp add: advertised_view_def commitBestpath_fields)
      moreover have "apply_events (queue_events (ribOutQ r) @ best_events (OutWithdrawal w1)) V =
          (apply_events (queue_events (ribOutQ rib) @ best_events (OutWithdrawal w)) V)(p := None)"
        unfolding b(4) v(6) r0(4) by simp
      moreover have "out_frame rib r" using r0(1) v(1) b(1) out_frame_trans by blast
      ultimately have "prepared cfg cc V fullSync p h' e' (rib, w, wAdd) (r, w1, x1)"
        unfolding prepared_def using core v(5) select_withdrawn_pipe [OF spec inv none] d(3) b r0 v B
        by (intro case_prodI exI [of _ ?e]) (auto simp: commitBestpath_fields update_last)
      then show ?thesis using res by blast
    qed
  qed
qed

text \<open>The invariant of the loop; \<open>rest\<close> are the prefixes that are still to come.\<close>

definition prep_inv :: "RibConfig \<Rightarrow> bool \<Rightarrow> best_view \<Rightarrow> bool \<Rightarrow> Rib \<Rightarrow> cidr list \<Rightarrow> prepare_state \<Rightarrow> bool" where
  "prep_inv cfg cc V fullSync rib0 rest s \<longleftrightarrow> (case s of (rib, w, wAdd) \<Rightarrow>
     pinv (features cfg) cc V (queue_acks (fromFibMessageQ rib)) (set (fibBatchList rib) \<union> (if fullSync then set rest else {}))
       (queue_events (ribOutQ rib) @ best_events (OutWithdrawal w)) (ribEntries rib) (store rib) \<and>
     wd_entries wAdd = [] \<and> batch_ok rib \<and> out_frame rib0 rib \<and> set rest \<subseteq> dom (map_of (ribEntries rib)) \<and>
     (fullSync \<longrightarrow> set (fibBatchList rib) \<inter> set rest = {}) \<and>
     (\<forall>p e. p \<notin> set rest \<longrightarrow> map_of (ribEntries rib) p = Some e \<longrightarrow> \<not> needPathSelection e))"

lemma prepareOne_inv:
  assumes cfg: "config_ok cfg cc" and inv: "prep_inv cfg cc V fullSync rib0 (p # rest) s" and new: "p \<notin> set rest"
  shows "\<exists>s'. prepareOne cfg fullSync p s = Some s' \<and> prep_inv cfg cc V fullSync rib0 rest s'"
proof -
  obtain rib w wAdd where s: "s = (rib, w, wAdd)" by (cases s)
  let ?B = "set (fibBatchList rib) \<union> (if fullSync then set (p # rest) else {})"
  let ?h = "store rib" and ?E = "ribEntries rib"
  have pi: "pinv (features cfg) cc V (queue_acks (fromFibMessageQ rib)) ?B (queue_events (ribOutQ rib) @ best_events (OutWithdrawal w)) ?E ?h"
    and i: "wd_entries wAdd = []" "batch_ok rib" "out_frame rib0 rib" "set (p # rest) \<subseteq> dom (map_of ?E)"
      "fullSync \<longrightarrow> set (fibBatchList rib) \<inter> set (p # rest) = {}"
      "\<And>q e. q \<notin> set (p # rest) \<Longrightarrow> map_of ?E q = Some e \<Longrightarrow> \<not> needPathSelection e"
    using inv unfolding prep_inv_def s prod.case by blast+
  obtain e where e: "map_of ?E p = Some e" using i(4) by auto
  note ei = pinvD(3) [OF pi e]
  show ?thesis
  proof (cases "fullSync \<or> needPathSelection e")
    case False
    then have "prepareOne cfg fullSync p s = Some s" using e by (simp add: prepareOne_def s)
    moreover have "\<forall>q x. q \<notin> set rest \<longrightarrow> map_of ?E q = Some x \<longrightarrow> \<not> needPathSelection x"
      using i(6) e False by (metis option.inject set_ConsD)
    then have "prep_inv cfg cc V fullSync rib0 rest s"
      using False pi i(1-5) unfolding prep_inv_def s prod.case by (simp del: best_events.simps)
    ultimately show ?thesis by blast
  next
    case True
    obtain bc nc e' h' where run: "runBestPathSelection cfg (e, ?h) = Some ((bc, nc), e', h')"
      and spec: "select_spec (features cfg) cc ?h e bc nc e' h'"
      using selectBestPath_spec [OF cfg entry_invD(3) [OF ei]] unfolding runBestPathSelection_def by blast
    have B: "fullSync \<and> p \<notin> set (fibBatchList rib) \<or> \<not> fullSync \<and> (p \<in> ?B \<longrightarrow> p \<in> set (fibBatchList rib))"
      using i(5) by auto
    obtain s' where s': "prepareOne cfg fullSync p (rib, w, wAdd) = Some s'" "prepared cfg cc V fullSync p h' e' (rib, w, wAdd) s'"
      using prepareOne_cases [OF ei e True B pinvD(4) [OF pi] pinvD(5) [OF pi, of p, unfolded e] i(1) run spec] by blast
    obtain rib' w' wAdd' where ss: "s' = (rib', w', wAdd')" by (cases s')
    obtain e'' where n: "out_frame rib rib'" "ribEntries rib' = AList.update p e'' ?E" "store rib' = h'" "wd_entries wAdd' = []"
      "same_core e' e''" "\<not> needPathSelection e''"
      "entry_pipe (next_map h') (p \<in> set (fibBatchList rib')) (queue_acks (fromFibMessageQ rib) p) e''"
      "fibBatchList rib' = fibBatchList rib \<and> \<not> fullSync \<or> fibBatchList rib' = fibBatchList rib @ [p] \<and> p \<notin> set (fibBatchList rib)"
      "apply_events (queue_events (ribOutQ rib') @ best_events (OutWithdrawal w')) V =
        (apply_events (queue_events (ribOutQ rib) @ best_events (OutWithdrawal w)) V)(p := advertised_view h' (Some e''))"
      using s'(2) unfolding ss prepared_def prod.case by (elim exE conjE) (rule that)
    have q: "fromFibMessageQ rib' = fromFibMessageQ rib" using n(1) by (simp add: out_frame_def)
    let ?B' = "set (fibBatchList rib') \<union> (if fullSync then set rest else {})"
    have pb: "p \<in> ?B' \<longleftrightarrow> p \<in> set (fibBatchList rib')" using new by auto
    have "pinv (features cfg) cc V (queue_acks (fromFibMessageQ rib)) ?B' (queue_events (ribOutQ rib') @ best_events (OutWithdrawal w'))
        (AList.update p e'' ?E) h'"
    proof (rule pinv_set [OF pi select_others [OF spec pinvD(2) [OF pi]] _ _ _ _ n(9)])
      show "entry_inv (features cfg) cc h' p (p \<in> ?B') (queue_acks (fromFibMessageQ rib) p) e''"
        unfolding pb by (rule entry_inv_select [OF spec ei pinvD(4) [OF pi] n(7,5)])
      show "tags_below (next_map h') (queue_acks (fromFibMessageQ rib) p)"
        by (rule tags_below_mono [OF pinvD(4) [OF pi]]) (use select_specD(7) [OF spec] in auto)
    qed (use n(8) in auto)
    moreover have "batch_ok rib'" using i(2,4) n(2,8) by (auto simp: batch_ok_def)
    moreover have "\<forall>q x. q \<notin> set rest \<longrightarrow> map_of (AList.update p e'' ?E) q = Some x \<longrightarrow> \<not> needPathSelection x"
      using i(6) n(6) by (metis fun_upd_apply map_of_update option.inject set_ConsD)
    moreover have "set rest \<subseteq> dom (map_of (AList.update p e'' ?E))" using i(4) by auto
    moreover have "fullSync \<longrightarrow> set (fibBatchList rib') \<inter> set rest = {}" using i(5) n(8) new by auto
    ultimately have "prep_inv cfg cc V fullSync rib0 rest s'"
      using n(4) out_frame_trans [OF i(3) n(1)] unfolding prep_inv_def ss prod.case q n(2,3) by blast
    then show ?thesis using s'(1) s by blast
  qed
qed

lemma prepareAll_inv:
  assumes cfg: "config_ok cfg cc"
  shows "distinct ps \<Longrightarrow> prep_inv cfg cc V fullSync rib0 ps s \<Longrightarrow>
    \<exists>s'. fold_opt (prepareOne cfg fullSync) ps s = Some s' \<and> prep_inv cfg cc V fullSync rib0 [] s'"
proof (induction ps arbitrary: s)
  case (Cons p ps)
  obtain s1 where s1: "prepareOne cfg fullSync p s = Some s1" "prep_inv cfg cc V fullSync rib0 ps s1"
    using prepareOne_inv [OF cfg Cons.prems(2)] Cons.prems(1) by auto
  show ?case using Cons.IH [OF _ s1(2)] Cons.prems(1) s1(1) by simp
qed simp

lemma pinv_batch:
  assumes inv: "pinv ff cc V acks B evs E h" and B: "\<And>p. p \<in> B \<Longrightarrow> p \<in> dom (map_of E) \<Longrightarrow> p \<in> B'"
  shows "pinv ff cc V acks B' evs E h"
proof -
  note d = pinvD [OF inv]
  have "entry_inv ff cc h p (p \<in> B') (acks p) e" if "map_of E p = Some e" for p e
    using entry_inv_frame [OF d(3) [OF that], of h "p \<in> B'"] B [of p] that by auto
  then show ?thesis using d unfolding pinv_def by blast
qed

text \<open>What stays of the queues and flags.\<close>

definition prepare_frame :: "bool \<Rightarrow> Rib \<Rightarrow> Rib \<Rightarrow> bool" where
  "prepare_frame fullSync rib rib' \<longleftrightarrow> fromFibMessageQ rib' = fromFibMessageQ rib \<and> fib rib' = fib rib \<and>
     ribEoRReceived rib' = ribEoRReceived rib \<and> no_need (ribEntries rib') \<and>
     (toFibMessageQ rib' = toFibMessageQ rib @ [fullSync] \<or>
      toFibMessageQ rib' = toFibMessageQ rib \<and> fibBatchList rib' = [] \<and> \<not> fullSync)"

lemma prepareFibProgramming_inv:
  assumes cfg: "config_ok cfg cc" and inv: "paths_inv cfg cc V rib" "fib_ok rib" and pause: "pause_ok rib"
    and eor: "ribEoRReceived rib" "\<not> pendingInitialPathComputation rib"
    and sync: "fullSync \<or> fullSynced (fib rib) \<or> True \<in> set (toFibMessageQ rib)"
  shows "\<exists>rib'. prepareFibProgramming cfg fullSync rib = Some rib' \<and> rib_inv cfg cc V rib' \<and> prepare_frame fullSync rib rib'"
proof -
  define r where "r = (if fullSync then rib\<lparr>fibBatchList := []\<rparr> else rib)"
  have r: "ribEntries r = ribEntries rib" "store r = store rib" "ribOutQ r = ribOutQ rib" "fromFibMessageQ r = fromFibMessageQ rib"
    "fib r = fib rib" "localRoutes r = localRoutes rib" "toFibMessageQ r = toFibMessageQ rib" "ribEoRReceived r = ribEoRReceived rib"
    "pendingInitialPathComputation r = pendingInitialPathComputation rib" "pause_ok r = pause_ok rib"
    "fibBatchList r = (if fullSync then [] else fibBatchList rib)"
    by (simp_all add: r_def)
  have pi: "rib_pinv cfg cc V rib" and bo: "batch_ok rib" "locals_ok (localRoutes rib)" using inv(1) by (simp_all add: paths_inv_def)
  let ?ps = "map fst (ribEntries rib)"
  have dom: "set ?ps = dom (map_of (ribEntries rib))" by (simp add: dom_map_of_conv_image_fst)
  have "pinv (features cfg) cc V (queue_acks (fromFibMessageQ rib)) (set (fibBatchList r) \<union> (if fullSync then set ?ps else {}))
      (queue_events (ribOutQ rib)) (ribEntries rib) (store rib)"
    by (rule pinv_batch [OF pi]) (use r(11) in \<open>auto simp: dom [symmetric]\<close>)
  moreover have "\<forall>p e. p \<notin> set ?ps \<longrightarrow> map_of (ribEntries rib) p = Some e \<longrightarrow> \<not> needPathSelection e" using dom by blast
  ultimately have start: "prep_inv cfg cc V fullSync r ?ps (r, empty_withdrawal, empty_withdrawal)"
    using bo(1) r(11) dom unfolding prep_inv_def prod.case r(1-4)
    by (simp add: batch_ok_def r(1) empty_withdrawal_def)
  obtain rib1 w x where l: "fold_opt (prepareOne cfg fullSync) ?ps (r, empty_withdrawal, empty_withdrawal) = Some (rib1, w, x)"
    and e: "prep_inv cfg cc V fullSync r [] (rib1, w, x)"
    using prepareAll_inv [OF cfg _ start] pinvD(1) [OF pi] unfolding keys_distinct_def by (metis prod.exhaust)
  have e1: "pinv (features cfg) cc V (queue_acks (fromFibMessageQ rib1)) (set (fibBatchList rib1))
      (queue_events (ribOutQ rib1) @ best_events (OutWithdrawal w)) (ribEntries rib1) (store rib1)" "batch_ok rib1" "out_frame r rib1"
    "no_need (ribEntries rib1)"
    using e unfolding prep_inv_def prod.case no_need_def by (cases fullSync; simp del: best_events.simps)+
  define w' where "w' = w\<lparr>wd_addPathEntries := wd_addPathEntries x\<rparr>"
  define rib2 where "rib2 = (if wd_entries w' \<noteq> [] \<or> wd_addPathEntries w' \<noteq> [] then ribOutQPush cfg (OutWithdrawal w') rib1 else rib1)"
  have q: "quiet rib1 rib2" "queue_events (ribOutQ rib2) = queue_events (ribOutQ rib1) @ best_events (OutWithdrawal w)"
    using ribOutQPush_quiet [where rib = rib1 and cfg = cfg and m = "OutWithdrawal w'"] by (auto simp: rib2_def w'_def)
  have f: "out_frame r rib2" using e1(3) q(1) out_frame_trans unfolding quiet_def by blast
  have p2: "rib_pinv cfg cc V rib2"
    using e1(1) q f e1(3) unfolding quiet_def q(2) by (simp del: best_events.simps add: out_frame_def)
  define rib3 where "rib3 = (if fibBatchList rib2 = [] \<and> \<not> fullSync then rib2 else rib2\<lparr>toFibMessageQ := toFibMessageQ rib2 @ [fullSync]\<rparr>)"
  have res: "prepareFibProgramming cfg fullSync rib = Some rib3"
    using l unfolding prepareFibProgramming_def rib3_def rib2_def w'_def Let_def r_def [symmetric] r(1)
    by (simp only: bind.bind_lunit prod.case)
  have same: "ribEntries rib3 = ribEntries rib1" "store rib3 = store rib1" "fibBatchList rib3 = fibBatchList rib1" "localRoutes rib3 = localRoutes rib"
    "fromFibMessageQ rib3 = fromFibMessageQ rib" "fib rib3 = fib rib" "ribEoRReceived rib3 = ribEoRReceived rib"
    using q(1) f r by (auto simp: rib3_def quiet_def out_frame_def)
  have "rib_pinv cfg cc V rib3" using p2 by (auto simp: rib3_def)
  then have pr: "paths_inv cfg cc V rib3" using e1(2) bo(2) by (simp add: paths_inv_def batch_ok_def same)
  have to: "toFibMessageQ rib2 = toFibMessageQ rib" "pendingInitialPathComputation rib3 = pendingInitialPathComputation rib" "pause_ok rib3"
    using f r(7,9,10) pause by (auto simp: out_frame_def rib3_def)
  have tq: "toFibMessageQ rib3 = toFibMessageQ rib @ [fullSync] \<or> toFibMessageQ rib3 = toFibMessageQ rib \<and> fibBatchList rib3 = [] \<and> \<not> fullSync"
    by (cases "fibBatchList rib2 = [] \<and> \<not> fullSync") (simp_all add: rib3_def to(1))
  have nn: "no_need (ribEntries rib3)" using e1(4) by (simp add: same(1))
  have "prepare_frame fullSync rib rib3" unfolding prepare_frame_def using same(5-7) nn tq by blast
  moreover have "sched rib3"
    unfolding sched_def using to(2,3) eor sync nn tq unfolding same(6,7) by auto
  ultimately show ?thesis using pr res inv(2) by (auto simp: rib_inv_def fib_ok_def same)
qed

subsection \<open>Programming of the FIB\<close>

lemma wait_acks_simps [simp]: "wait_acks p [] = []" "wait_acks p ((k, g) # W) = group_acks p g @ wait_acks p W"
  by (simp_all add: wait_acks_def)

lemma group_acks_update: "group_acks q (AList.update p w g) = (if q = p then [w] else group_acks q g)"
  by (simp add: group_acks_def)

lemma wait_acks_same:
  "(case map_of W k of None \<Rightarrow> group_acks q g' = [] | Some g \<Rightarrow> group_acks q g' = group_acks q g) \<Longrightarrow>
    wait_acks q (AList.update k g' W) = wait_acks q W"
  by (induction W) (auto split: if_splits)

lemma wait_acks_new: "wait_acks p W = [] \<Longrightarrow> wait_acks p (AList.update k g' W) = group_acks p g'"
  by (induction W) auto

lemma wait_acks_group: "wait_acks p W = [] \<Longrightarrow> map_of W k = Some g \<Longrightarrow> group_acks p g = []"
  by (induction W) (auto split: if_splits)

lemma updateUnicastRoute_acks:
  assumes W: "pfxs_wf (waitForAck f)" and p: "wait_acks p (waitForAck f) = []"
  shows "wait_acks q (waitForAck (updateUnicastRoute p k w f)) = (if q = p then [w] else wait_acks q (waitForAck f))"
    "pfxs_wf (waitForAck (updateUnicastRoute p k w f))" "fullSynced (updateUnicastRoute p k w f) = fullSynced f"
proof -
  let ?g = "case map_of (waitForAck f) k of None \<Rightarrow> [] | Some g \<Rightarrow> g"
  have w: "waitForAck (updateUnicastRoute p k w f) = AList.update k (AList.update p w ?g) (waitForAck f)"
    by (simp add: updateUnicastRoute_def Let_def)
  show "wait_acks q (waitForAck (updateUnicastRoute p k w f)) = (if q = p then [w] else wait_acks q (waitForAck f))"
  proof (cases "q = p")
    case True
    then show ?thesis using p by (simp add: w wait_acks_new group_acks_update)
  next
    case False
    then show ?thesis unfolding w by (simp add: wait_acks_same group_acks_update group_acks_def split: option.split)
  qed
  have d: "keys_distinct (waitForAck f)" "\<And>k g. (k, g) \<in> set (waitForAck f) \<Longrightarrow> keys_distinct g" using W by (auto simp: pfxs_wf_def)
  have g: "keys_distinct ?g" using d(2) map_of_SomeD by (fastforce split: option.split)
  have "keys_distinct x" if "(j, x) \<in> set (AList.update k (AList.update p w ?g) (waitForAck f))" for j x
  proof -
    have "map_of (AList.update k (AList.update p w ?g) (waitForAck f)) j = Some x" using that d(1) by (simp add: in_set_map_of del: map_of_update)
    then show ?thesis using g d map_of_SomeD by (fastforce split: if_splits)
  qed
  then show "pfxs_wf (waitForAck (updateUnicastRoute p k w f))" using d(1) by (auto simp: pfxs_wf_def w)
  show "fullSynced (updateUnicastRoute p k w f) = fullSynced f" by (simp add: updateUnicastRoute_def Let_def)
qed

definition same_needs :: "(cidr \<times> RibEntry) list \<Rightarrow> (cidr \<times> RibEntry) list \<Rightarrow> bool" where
  "same_needs E E' \<longleftrightarrow> (\<forall>p. map_option needPathSelection (map_of E' p) = map_option needPathSelection (map_of E p))"

lemma same_needs_all: "same_needs E E' \<Longrightarrow> all_need E' = all_need E" "same_needs E E' \<Longrightarrow> no_need E' = no_need E"
proof -
  have n: "all_need E \<longleftrightarrow> (\<forall>p b. map_option needPathSelection (map_of E p) = Some b \<longrightarrow> b)"
    "no_need E \<longleftrightarrow> (\<forall>p b. map_option needPathSelection (map_of E p) = Some b \<longrightarrow> \<not> b)" for E
    unfolding all_need_def no_need_def by blast+
  show "same_needs E E' \<Longrightarrow> all_need E' = all_need E" "same_needs E E' \<Longrightarrow> no_need E' = no_need E"
    unfolding n same_needs_def by metis+
qed

definition prog_frame :: "Rib \<Rightarrow> Rib \<Rightarrow> bool" where
  "prog_frame rib rib' \<longleftrightarrow> fromFibMessageQ rib' = fromFibMessageQ rib \<and> toFibMessageQ rib' = toFibMessageQ rib \<and>
     ribOutQ rib' = ribOutQ rib \<and> localRoutes rib' = localRoutes rib \<and> ribEoRReceived rib' = ribEoRReceived rib \<and>
     pendingInitialPathComputation rib' = pendingInitialPathComputation rib \<and> fibBatchTimer rib' = fibBatchTimer rib \<and>
     pauseBestPathAndFibProgramming rib' = pauseBestPathAndFibProgramming rib \<and> pausedBy rib' = pausedBy rib \<and>
     store rib' = store rib \<and> fullSynced (fib rib') = fullSynced (fib rib) \<and> same_needs (ribEntries rib) (ribEntries rib')"

definition prog_inv :: "RibConfig \<Rightarrow> bool \<Rightarrow> best_view \<Rightarrow> Rib \<Rightarrow> cidr list \<Rightarrow> Rib \<Rightarrow> bool" where
  "prog_inv cfg cc V rib0 rest rib \<longleftrightarrow>
     pinv (features cfg) cc V (\<lambda>q. queue_acks (fromFibMessageQ rib) q @ wait_acks q (waitForAck (fib rib))) (set rest)
       (queue_events (ribOutQ rib)) (ribEntries rib) (store rib) \<and>
     pfxs_wf (waitForAck (fib rib)) \<and> (\<forall>q\<in>set rest. wait_acks q (waitForAck (fib rib)) = []) \<and>
     set rest \<subseteq> dom (map_of (ribEntries rib)) \<and> prog_frame rib0 rib"

lemma programOne_inv:
  assumes inv: "prog_inv cfg cc V rib0 (p # rest) rib" and new: "p \<notin> set rest"
  shows "prog_inv cfg cc V rib0 rest (programOne p rib)"
proof -
  let ?W = "waitForAck (fib rib)" and ?acks = "\<lambda>q. queue_acks (fromFibMessageQ rib) q @ wait_acks q (waitForAck (fib rib))"
  have i: "pinv (features cfg) cc V ?acks (set (p # rest)) (queue_events (ribOutQ rib)) (ribEntries rib) (store rib)"
    "pfxs_wf ?W" "wait_acks p ?W = []" "\<And>q. q \<in> set rest \<Longrightarrow> wait_acks q ?W = []"
    "set (p # rest) \<subseteq> dom (map_of (ribEntries rib))" "prog_frame rib0 rib"
    using inv unfolding prog_inv_def by (blast, blast, simp, simp, blast, blast)
  obtain e where e: "map_of (ribEntries rib) p = Some e" using i(5) by auto
  let ?k = "map_option (\<lambda>a. path_ptr (r_attrs (route_at (store rib) a))) (bestpath e)" and ?e = "e\<lparr>hasFibOutState := True\<rparr>"
  let ?f = "updateUnicastRoute p ?k (weightedNexthops e) (fib rib)"
  have r: "programOne p rib = set_entry p ?e (rib\<lparr>fib := ?f\<rparr>)" by (simp add: programOne_def e)
  note u = updateUnicastRoute_acks [OF i(2,3), where k = ?k and w = "weightedNexthops e"]
  note ei = pinvD(3) [OF i(1) e]
  let ?acks' = "\<lambda>q. queue_acks (fromFibMessageQ rib) q @ wait_acks q (waitForAck ?f)"
  have a: "?acks' p = ?acks p @ [weightedNexthops e]" by (simp add: u(1) i(3))
  have "pinv (features cfg) cc V ?acks' (set rest) (queue_events (ribOutQ rib)) (AList.update p ?e (ribEntries rib)) (store rib)"
  proof (rule pinv_set [OF i(1) others_refl pinvD(2) [OF i(1)]])
    show "entry_inv (features cfg) cc (store rib) p (p \<in> set rest) (?acks' p) ?e"
      using entry_inv_program [OF ei] new unfolding a by simp
    show "tags_below (next_map (store rib)) (?acks' p)" unfolding a by (rule tags_program [OF ei pinvD(4) [OF i(1)]])
    show "apply_events (queue_events (ribOutQ rib)) V =
        (apply_events (queue_events (ribOutQ rib)) V)(p := advertised_view (store rib) (Some ?e))"
      using pinvD(5) [OF i(1), of p] by (simp add: e advertised_view_def fun_upd_idem)
  qed (auto simp: u(1))
  moreover have "same_needs (ribEntries rib) (AList.update p ?e (ribEntries rib))" by (simp add: same_needs_def e)
  then have "prog_frame rib0 (programOne p rib)" using i(6) u(3) by (simp add: prog_frame_def r set_entry_def same_needs_def)
  ultimately show ?thesis using i(4,5) new u(1,2) by (auto simp: prog_inv_def r set_entry_def)
qed

lemma programAll_inv:
  "distinct ps \<Longrightarrow> prog_inv cfg cc V rib0 ps rib \<Longrightarrow> prog_inv cfg cc V rib0 [] (fold programOne ps rib)"
  by (induction ps arbitrary: rib) (simp_all add: programOne_inv)

lemma rib_inv_pinv: "rib_inv cfg cc V rib \<Longrightarrow> rib_pinv cfg cc V rib"
  by (simp add: rib_inv_def paths_inv_def)

text \<open>What a round of the loop does to queues and flags.\<close>

definition program_frame :: "Rib \<Rightarrow> Rib \<Rightarrow> bool" where
  "program_frame rib rib' \<longleftrightarrow> toFibMessageQ rib' = [] \<and> ribEoRReceived rib' = ribEoRReceived rib \<and> ribOutQ rib' = ribOutQ rib \<and>
     (ribEoRReceived rib \<longrightarrow> fibBatchList rib' = []) \<and> same_needs (ribEntries rib) (ribEntries rib') \<and>
     (fromFibMessageQ rib' = fromFibMessageQ rib \<or> (\<exists>W b. fromFibMessageQ rib' = fromFibMessageQ rib @ [FibProgrammedMessage W b]))"

lemma processFibProgrammingMsg_inv:
  assumes inv: "rib_inv cfg cc V rib"
  shows "rib_inv cfg cc V (processFibProgrammingMsg rib)" "program_frame rib (processFibProgrammingMsg rib)"
proof -
  note d = rib_invD [OF inv] and pi = rib_inv_pinv [OF inv]
  have bo: "batch_ok rib" "locals_ok (localRoutes rib)" using d(1) by (simp_all add: paths_inv_def)
  define fs where "fs = (True \<in> set (toFibMessageQ rib))"
  let ?r = "rib\<lparr>toFibMessageQ := []\<rparr>"
  show "rib_inv cfg cc V (processFibProgrammingMsg rib)" "program_frame rib (processFibProgrammingMsg rib)"
  proof (atomize (full), cases "\<not> fullSynced (fib rib) \<and> \<not> fs")
    case True
    then have "processFibProgrammingMsg rib = ?r" by (simp add: processFibProgrammingMsg_def fs_def)
    moreover have "\<not> ribEoRReceived rib" using True d(3) by (auto simp: sched_def fs_def)
    ultimately show "rib_inv cfg cc V (processFibProgrammingMsg rib) \<and> program_frame rib (processFibProgrammingMsg rib)"
      using d by (simp add: rib_inv_def paths_inv_def batch_ok_def fib_ok_def sched_def program_frame_def same_needs_def)
  next
    case False
    define r1 where "r1 = fold programOne (fibBatchList rib) ?r"
    define w where "w = deleteUnusedNexthopInfos (store r1, nexthopCache r1)"
    define total where "total = length (fibBatchList rib)"
    define r2 where "r2 = r1\<lparr>fibBatchList := [], store := fst w, nexthopCache := snd w\<rparr>"
    have res: "processFibProgrammingMsg rib = (if fs \<or> total \<noteq> 0
        then case fib_program fs (fib r2) of (msg, f) \<Rightarrow> r2\<lparr>fib := f, fromFibMessageQ := fromFibMessageQ r2 @ [msg]\<rparr> else r2)"
      using False by (simp add: processFibProgrammingMsg_def fs_def Let_def r1_def r2_def w_def total_def case_prod_beta) blast
    have "prog_inv cfg cc V ?r (fibBatchList rib) ?r"
      using pi d(2) bo(1) by (simp add: prog_inv_def fib_ok_def batch_ok_def prog_frame_def same_needs_def pfxs_wf_def)
    then have p1: "prog_inv cfg cc V ?r [] r1" unfolding r1_def using bo(1) by (simp add: programAll_inv batch_ok_def)
    have f1: "prog_frame ?r r1" and W1: "pfxs_wf (waitForAck (fib r1))" using p1 by (simp_all add: prog_inv_def)
    let ?acks = "\<lambda>q. queue_acks (fromFibMessageQ rib) q @ wait_acks q (waitForAck (fib r1))"
    have "pinv (features cfg) cc V ?acks {} (queue_events (ribOutQ rib)) (ribEntries r1) (store r1)"
      using p1 f1 by (auto simp: prog_inv_def prog_frame_def)
    note pk = this and k = deleteUnused_keeps [of "(store r1, nexthopCache r1)", folded w_def, unfolded fst_conv, OF pinvD(2) [OF this]]
    have p2: "pinv (features cfg) cc V ?acks {} (queue_events (ribOutQ rib)) (ribEntries r1) (fst w)"
      by (rule pinv_frame [OF pk k(1)]) (use k(2-5) in \<open>auto intro: keeps_routes_same\<close>)
    have W0: "wait_acks q (waitForAck (fib r1)) = []" if "\<not> (fs \<or> total \<noteq> 0)" for q
      using that d(2) by (simp add: r1_def total_def fib_ok_def)
    have sc: "fullSynced (fib (processFibProgrammingMsg rib)) \<or> \<not> ribEoRReceived rib" 
      using False f1 by (auto simp: res fib_program_def r2_def prog_frame_def)
    have f3: "fibBatchList (processFibProgrammingMsg rib) = []" "ribEntries (processFibProgrammingMsg rib) = ribEntries r1"
      "store (processFibProgrammingMsg rib) = fst w" "toFibMessageQ (processFibProgrammingMsg rib) = []"
      "ribOutQ (processFibProgrammingMsg rib) = ribOutQ rib" "localRoutes (processFibProgrammingMsg rib) = localRoutes rib"
      "ribEoRReceived (processFibProgrammingMsg rib) = ribEoRReceived rib" "pausedBy (processFibProgrammingMsg rib) = pausedBy rib"
      "pauseBestPathAndFibProgramming (processFibProgrammingMsg rib) = pauseBestPathAndFibProgramming rib"
      "fibBatchTimer (processFibProgrammingMsg rib) = fibBatchTimer rib"
      "pendingInitialPathComputation (processFibProgrammingMsg rib) = pendingInitialPathComputation rib"
      "fromFibMessageQ (processFibProgrammingMsg rib) = (if fs \<or> total \<noteq> 0
         then fromFibMessageQ rib @ [FibProgrammedMessage (waitForAck (fib r1)) fs] else fromFibMessageQ rib)"
      "same_needs (ribEntries rib) (ribEntries r1)" "waitForAck (fib (processFibProgrammingMsg rib)) = []"
      using f1 d(2) W0 by (auto simp: res fib_program_def r2_def prog_frame_def r1_def total_def fib_ok_def)
    have q: "queue_acks (fromFibMessageQ (processFibProgrammingMsg rib)) q = ?acks q" for q
      using W0 [of q] by (simp add: f3(12))
    have "rib_pinv cfg cc V (processFibProgrammingMsg rib)" using p2 unfolding f3(1-5) q by simp
    then have "paths_inv cfg cc V (processFibProgrammingMsg rib)" using bo(2) by (simp add: paths_inv_def batch_ok_def f3)
    moreover have "fib_ok (processFibProgrammingMsg rib)" using d(2) W1 by (auto simp: fib_ok_def f3)
    moreover have "sched (processFibProgrammingMsg rib)"
      using d(3) sc unfolding sched_def f3 same_needs_all [OF f3(13)] by auto
    ultimately show "rib_inv cfg cc V (processFibProgrammingMsg rib) \<and> program_frame rib (processFibProgrammingMsg rib)"
      using f3(13) by (simp add: rib_inv_def program_frame_def f3)
  qed
qed

subsection \<open>Acknowledgements of the FIB\<close>

text \<open>Messages for the peers with add-path change nothing else.\<close>

definition ack_quiet :: "ack_state \<Rightarrow> ack_state \<Rightarrow> bool" where
  "ack_quiet s s' \<longleftrightarrow> (an_entries (announcementAddPath s) = [] \<and> wd_entries (ack_withdrawal s) = [] \<longrightarrow>
     quiet (ack_rib s) (ack_rib s') \<and> queue_events (ribOutQ (ack_rib s')) = queue_events (ribOutQ (ack_rib s)) \<and>
     announcement s' = announcement s \<and> an_entries (announcementAddPath s') = [] \<and> wd_entries (ack_withdrawal s') = [])"

lemma ack_quiet_refl [simp]: "ack_quiet s s"
  by (simp add: ack_quiet_def)

lemma ack_quiet_trans: "ack_quiet s s' \<Longrightarrow> ack_quiet s' s'' \<Longrightarrow> ack_quiet s s''"
  unfolding ack_quiet_def using quiet_trans by auto

lemma flushAnnouncementChunk_quiet:
  "quiet rib (flushAnnouncementChunk cfg eor a rib)"
  "queue_events (ribOutQ (flushAnnouncementChunk cfg eor a rib)) = queue_events (ribOutQ rib) @ best_events (OutAnnouncement a)"
  by (simp_all add: flushAnnouncementChunk_def ribOutQPush_quiet)

lemma addPathAnnounceOne_quiet:
  assumes id: "pathIdToSend (route_at (store (ack_rib s)) a) = Some i" and q: "an_entries (announcementAddPath s) = []" "wd_entries (ack_withdrawal s) = []"
  shows "\<exists>s' v'. addPathAnnounceOne cfg eor p e newly a (s, v) = Some (s', v') \<and> ack_quiet s s'"
proof (cases "length (an_addPathEntries (announcementAddPath s)) = kRibChunkSize")
  case True
  obtain u r where i: "incrementRibVersion (flushAnnouncementChunk cfg eor (announcementAddPath s) (ack_rib s)) = (u, r)"
    by (cases "incrementRibVersion (flushAnnouncementChunk cfg eor (announcementAddPath s) (ack_rib s))")
  have f: "quiet (ack_rib s) r" "queue_events (ribOutQ r) = queue_events (ribOutQ (ack_rib s))"
    using incrementRibVersion_quiet [OF i] q(1)
      flushAnnouncementChunk_quiet [where rib = "ack_rib s" and cfg = cfg and eor = eor and a = "announcementAddPath s"] quiet_trans by auto
  have st: "store r = store (ack_rib s)" using f(1) by (simp add: quiet_def)
  then show ?thesis
    using True i id q f by (simp add: addPathAnnounceOne_def ack_quiet_def Let_def empty_announcement_def)
next
  case False
  then show ?thesis using id q by (simp add: addPathAnnounceOne_def ack_quiet_def Let_def)
qed

lemma addPathAnnounce_quiet:
  assumes "\<forall>a\<in>set as. pathIdToSend (route_at (store (ack_rib s)) a) \<noteq> None" "an_entries (announcementAddPath s) = []" "wd_entries (ack_withdrawal s) = []"
  shows "\<exists>s' v'. fold_opt (addPathAnnounceOne cfg eor p e newly) as (s, v) = Some (s', v') \<and> ack_quiet s s'"
  using assms
proof (induction as arbitrary: s v)
  case (Cons a as)
  obtain i where i: "pathIdToSend (route_at (store (ack_rib s)) a) = Some i" using Cons.prems(1) by auto
  obtain s1 v1 where one: "addPathAnnounceOne cfg eor p e newly a (s, v) = Some (s1, v1)" "ack_quiet s s1"
    using addPathAnnounceOne_quiet [OF i Cons.prems(2,3), of cfg eor p e newly v] by blast
  have "store (ack_rib s1) = store (ack_rib s)" "an_entries (announcementAddPath s1) = []" "wd_entries (ack_withdrawal s1) = []"
    using one(2) Cons.prems(2,3) by (simp_all add: ack_quiet_def quiet_def)
  then obtain s2 v2 where "fold_opt (addPathAnnounceOne cfg eor p e newly) as (s1, v1) = Some (s2, v2)" "ack_quiet s1 s2"
    using Cons.IH [of s1 v1] Cons.prems(1) by auto
  then show ?case using one ack_quiet_trans by auto
qed simp

lemma ackWithdraw_quiet:
  assumes "fold (ackWithdrawOne cfg p) nhs (s, v) = (s', v')"
  shows "ack_quiet s s'"
  using assms
proof (induction nhs arbitrary: s v)
  case (Cons nh nhs)
  obtain r w u where one: "addPathWithdrawOne cfg p nh (ack_rib s, ack_withdrawal s, v) = (r, w, u)"
    by (cases "addPathWithdrawOne cfg p nh (ack_rib s, ack_withdrawal s, v)")
  have "ack_quiet s (s\<lparr>ack_rib := r, ack_withdrawal := w\<rparr>)"
    using addPathWithdrawOne_quiet [OF one] by (simp add: ack_quiet_def)
  moreover have "ack_quiet (s\<lparr>ack_rib := r, ack_withdrawal := w\<rparr>) s'"
    using Cons.IH Cons.prems by (simp add: ackWithdrawOne_def one)
  ultimately show ?case by (rule ack_quiet_trans)
qed simp

lemma announceMultipaths_quiet:
  assumes "\<forall>a\<in>set (map snd (advertisedMultipaths e)). pathIdToSend (route_at (store (ack_rib s)) a) \<noteq> None"
    "an_entries (announcementAddPath s) = []" "wd_entries (ack_withdrawal s) = []"
  shows "\<exists>s' v'. announceMultipaths cfg eor p e old newly (s, v) = Some (s', v') \<and> ack_quiet s s'"
proof -
  obtain s1 v1 where a: "fold_opt (addPathAnnounceOne cfg eor p e newly) (map snd (advertisedMultipaths e)) (s, v) = Some (s1, v1)" "ack_quiet s s1"
    using addPathAnnounce_quiet [OF assms, of cfg eor p e newly v] by blast
  define x where "x = (case (old, advertisedWeightedNexthops e) of
      (Some (_, old), Some (_, new)) \<Rightarrow>
        (if map_eq old new then (s1, v1)
         else fold (ackWithdrawOne cfg p) (filter (\<lambda>nh. map_of new nh = None) (map fst old)) (s1, v1))
    | _ \<Rightarrow> (s1, v1))"
  obtain s2 v2 where x: "x = (s2, v2)" by (cases x)
  have "ack_quiet s1 s2"
    using x ackWithdraw_quiet [of cfg p _ s1 v1 s2 v2] unfolding x_def by (cases old; cases "advertisedWeightedNexthops e") (auto split: if_splits)
  moreover have "announceMultipaths cfg eor p e old newly (s, v) = Some (s2, v2)"
    unfolding announceMultipaths_def a(1) bind.bind_lunit x_def [symmetric] x ..
  ultimately show ?thesis using ack_quiet_trans [OF a(2)] by blast
qed

abbreviation ack_events :: "ack_state \<Rightarrow> (cidr \<times> (TinyPeerInfo \<times> published_path) option) list" where
  "ack_events s \<equiv> queue_events (ribOutQ (ack_rib s)) @ best_events (OutAnnouncement (announcement s))"

lemma announceBestpath_spec:
  assumes a: "advertisedBestpath e = Some a"
  shows "\<exists>s'. announceBestpath cfg eor p e newly v s = Some s' \<and> quiet (ack_rib s) (ack_rib s') \<and>
    announcementAddPath s' = announcementAddPath s \<and> ack_withdrawal s' = ack_withdrawal s \<and>
    ack_events s' = ack_events s @ [(p, Some (route_view (store (ack_rib s)) a))]"
proof (cases "length (an_entries (announcement s)) = kRibChunkSize")
  case True
  note f = flushAnnouncementChunk_quiet [where rib = "ack_rib s" and cfg = cfg and eor = eor and a = "announcement s"]
  have "store (flushAnnouncementChunk cfg eor (announcement s) (ack_rib s)) = store (ack_rib s)" using f(1) by (simp add: quiet_def)
  then show ?thesis
    using True a f by (simp add: announceBestpath_def Let_def empty_announcement_def mkAnnouncementEntry_def route_view_def)
qed (use a in \<open>simp add: announceBestpath_def Let_def mkAnnouncementEntry_def route_view_def\<close>)

text \<open>The commit of an entry: the entry is in sync afterwards, and the peers are told of a change.\<close>

lemma commitEntry_spec:
  assumes ids: "\<forall>(i, a)\<in>set (multipaths e). pathIdToSend (route_at (store (ack_rib s)) a) \<noteq> None"
    and b: "bestpath e = Some a" and q: "an_entries (announcementAddPath s) = []" "wd_entries (ack_withdrawal s) = []"
    and adv: "\<forall>x. advertisedBestpath e = Some x \<longrightarrow> apply_events (ack_events s) V p = Some (route_view (store (ack_rib s)) x)"
  shows "\<exists>s' e'. commitEntry cfg eor p e s = Some s' \<and> out_frame (ack_rib s) (ack_rib s') \<and>
    ribEntries (ack_rib s') = AList.update p e' (ribEntries (ack_rib s)) \<and> store (ack_rib s') = store (ack_rib s) \<and>
    fibBatchList (ack_rib s') = fibBatchList (ack_rib s) \<and> an_entries (announcementAddPath s') = [] \<and> wd_entries (ack_withdrawal s') = [] \<and>
    same_core e e' \<and> hasFibOutState e' = hasFibOutState e \<and> needPathSelection e' = needPathSelection e \<and> synced e' \<and>
    apply_events (ack_events s') V = (apply_events (ack_events s) V)(p \<mapsto> route_view (store (ack_rib s)) a)"
proof -
  obtain v r where i: "incrementRibVersion (ack_rib s) = (v, r)" by (cases "incrementRibVersion (ack_rib s)")
  define s1 where "s1 = s\<lparr>ack_rib := r\<rparr>"
  have q1: "ack_quiet s s1" using incrementRibVersion_quiet [OF i] by (simp add: ack_quiet_def s1_def)
  define e2 where "e2 = e\<lparr>advertisedWeightedNexthops := weightedNexthops e, advertisedMultipaths := multipaths e\<rparr>"
  let ?newly = "advertisedBestpath e = None" and ?mc = "\<not> map_eq (advertisedMultipaths e) (multipaths e)"
  have st1: "store (ack_rib s1) = store (ack_rib s)" "an_entries (announcementAddPath s1) = []" "wd_entries (ack_withdrawal s1) = []"
    using q1 q by (simp_all add: ack_quiet_def quiet_def)
  have ids2: "\<forall>a\<in>set (map snd (advertisedMultipaths e2)). pathIdToSend (route_at (store (ack_rib s1)) a) \<noteq> None"
    using ids st1(1) by (auto simp: e2_def simp del: not_None_eq)
  obtain s2 v2 where m: "(if ?mc \<and> bestpath e \<noteq> None then announceMultipaths cfg eor p e2 (advertisedWeightedNexthops e) ?newly (s1, v)
      else Some (s1, v)) = Some (s2, v2)" and q2: "ack_quiet s1 s2"
    using announceMultipaths_quiet [OF ids2 st1(2,3), of cfg eor p "advertisedWeightedNexthops e" ?newly v] ack_quiet_refl [of s1]
    by (metis (no_types, lifting))
  define e3 where "e3 = snd (commitBestpath (e2\<lparr>e_ribVersion := v2\<rparr>))"
  define s3 where "s3 = s2\<lparr>ack_rib := set_entry p e3 (ack_rib s2)\<rparr>"
  have s2: "quiet (ack_rib s) (ack_rib s2)" "queue_events (ribOutQ (ack_rib s2)) = queue_events (ribOutQ (ack_rib s))"
    "announcement s2 = announcement s" "an_entries (announcementAddPath s2) = []" "wd_entries (ack_withdrawal s2) = []"
    using ack_quiet_trans [OF q1 q2] q by (simp_all add: ack_quiet_def)
  have s3: "out_frame (ack_rib s) (ack_rib s3)" "ribEntries (ack_rib s3) = AList.update p e3 (ribEntries (ack_rib s))"
    "store (ack_rib s3) = store (ack_rib s)" "fibBatchList (ack_rib s3) = fibBatchList (ack_rib s)" "ack_events s3 = ack_events s"
    "an_entries (announcementAddPath s3) = []" "wd_entries (ack_withdrawal s3) = []"
    using s2 by (simp_all add: s3_def set_entry_def quiet_def out_frame_def)
  have core: "same_core e e3" using commitBestpath_core [of "e2\<lparr>e_ribVersion := v2\<rparr>"] by (simp add: same_core_def e3_def e2_def)
  have e3: "hasFibOutState e3 = hasFibOutState e" "needPathSelection e3 = needPathSelection e" "synced e3" "advertisedBestpath e3 = Some a"
    using commitBestpath_synced [of "e2\<lparr>e_ribVersion := v2\<rparr>"] b by (simp_all add: e3_def commitBestpath_fields e2_def)
  have fl: "multipaths (e\<lparr>advertisedWeightedNexthops := x\<rparr>) = multipaths e" "advertisedBestpath (e\<lparr>advertisedWeightedNexthops := x\<rparr>) = advertisedBestpath e"
    "advertisedMultipaths (e\<lparr>advertisedWeightedNexthops := x\<rparr>) = advertisedMultipaths e" for x by simp_all
  have be: "bestpath e2 = bestpath e" by (simp add: e2_def)
  have res: "commitEntry cfg eor p e s = (if fst (commitBestpath (e2\<lparr>e_ribVersion := v2\<rparr>)) then announceBestpath cfg eor p e3 ?newly v2 s3 else Some s3)"
    unfolding commitEntry_def i Let_def commitMultipathNexthops_def commitMultipaths_def prod.case snd_conv fl e2_def [symmetric]
      s1_def [symmetric] be m bind.bind_lunit by (simp add: e3_def s3_def case_prod_beta)
  show ?thesis
  proof (cases "fst (commitBestpath (e2\<lparr>e_ribVersion := v2\<rparr>))")
    case True
    obtain s4 where s4: "announceBestpath cfg eor p e3 ?newly v2 s3 = Some s4" "quiet (ack_rib s3) (ack_rib s4)"
      "announcementAddPath s4 = announcementAddPath s3" "ack_withdrawal s4 = ack_withdrawal s3"
      "ack_events s4 = ack_events s3 @ [(p, Some (route_view (store (ack_rib s3)) a))]"
      using announceBestpath_spec [OF e3(4), of cfg eor p ?newly v2 s3] by blast
    have "apply_events (ack_events s4) V = (apply_events (ack_events s) V)(p \<mapsto> route_view (store (ack_rib s)) a)"
      unfolding s4(5) s3(5,3) by (simp only: apply_append apply_single)
    then show ?thesis
      using res True s4(1-4) s3(1-4,6,7) core e3 out_frame_trans [OF s3(1), of "ack_rib s4"]
      by (intro exI [of _ s4] exI [of _ e3]) (simp add: quiet_def)
  next
    case False
    then have "advertisedBestpath e = bestpath e" using commitBestpath_unchanged [OF False] by (simp add: e2_def)
    then have "apply_events (ack_events s3) V = (apply_events (ack_events s) V)(p \<mapsto> route_view (store (ack_rib s)) a)"
      unfolding s3(5) using adv b by (simp only: fun_upd_idem)
    then show ?thesis using res False s3(1-4,6,7) core e3 by (intro exI [of _ s3] exI [of _ e3]) simp
  qed
qed

definition item_acks :: "cidr \<Rightarrow> (cidr \<times> fib_nexthops) list \<Rightarrow> fib_nexthops list" where
  "item_acks q items = map snd (filter (\<lambda>x. fst x = q) items)"

lemma item_acks_simps [simp]: "item_acks q [] = []" "item_acks q ((p, w) # items) = (if q = p then [w] else []) @ item_acks q items"
  "item_acks q (xs @ ys) = item_acks q xs @ item_acks q ys"
  by (auto simp: item_acks_def)

text \<open>The acknowledgements for one prefix in the order of the iterator are those of the message.\<close>

lemma item_acks_none: "p \<notin> fst ` set xs \<Longrightarrow> item_acks p xs = []"
  by (auto simp: item_acks_def filter_empty_conv)

lemma item_acks_distinct: "keys_distinct g \<Longrightarrow> item_acks p g = group_acks p g"
  by (induction g) (auto simp: group_acks_def item_acks_none)

lemma item_acks_order:
  assumes "keys_distinct ls" "keys_distinct g"
  shows "item_acks p (fibProgrammedOrder ls g) = group_acks p g"
proof -
  let ?f = "\<lambda>(q, _). map_option (Pair q) (map_of g q)"
  have 1: "item_acks p (List.map_filter ?f ls) = (if map_of ls p = None then [] else group_acks p g)"
    using assms(1)
  proof (induction ls)
    case (Cons x ls)
    obtain q l where x: "x = (q, l)" by (cases x)
    have "q \<notin> fst ` set ls" using Cons.prems x by simp
    then have "map_of ls q = None" by (simp add: map_of_eq_None_iff)
    then show ?case using Cons by (cases "map_of g q") (auto simp: x map_filter_simps group_acks_def)
  qed (simp add: map_filter_simps)
  have 2: "item_acks p (filter (\<lambda>(q, _). map_of ls q = None) g) = (if map_of ls p = None then group_acks p g else [])"
  proof (cases "map_of ls p = None")
    case True
    then have "filter (\<lambda>x. fst x = p) (filter (\<lambda>(q, _). map_of ls q = None) g) = filter (\<lambda>x. fst x = p) g"
      by (auto simp: filter_filter intro!: filter_cong)
    then show ?thesis using True item_acks_distinct [OF assms(2), of p] by (simp add: item_acks_def)
  qed (auto simp: item_acks_def filter_empty_conv)
  show ?thesis by (simp add: fibProgrammedOrder_def 1 2)
qed

lemma item_acks_message:
  assumes "keys_distinct ls" "pfxs_wf W"
  shows "item_acks p (concat (map (\<lambda>(_, g). fibProgrammedOrder ls g) W)) = wait_acks p W"
proof -
  have "\<forall>(k, g)\<in>set W. keys_distinct g" using assms(2) by (simp add: pfxs_wf_def)
  then show ?thesis using item_acks_order [OF assms(1), where p = p] by (induction W) auto
qed

text \<open>The invariant of the loop; \<open>items\<close> are the acknowledgements that are still to come.\<close>

definition ack_inv :: "RibConfig \<Rightarrow> bool \<Rightarrow> best_view \<Rightarrow> Rib \<Rightarrow> (cidr \<times> fib_nexthops) list \<Rightarrow> ack_state \<Rightarrow> bool" where
  "ack_inv cfg cc V rib0 items s \<longleftrightarrow>
     pinv (features cfg) cc V (\<lambda>q. item_acks q items @ queue_acks (fromFibMessageQ (ack_rib s)) q) (set (fibBatchList (ack_rib s)))
       (ack_events s) (ribEntries (ack_rib s)) (store (ack_rib s)) \<and>
     an_entries (announcementAddPath s) = [] \<and> wd_entries (ack_withdrawal s) = [] \<and> batch_ok (ack_rib s) \<and> out_frame rib0 (ack_rib s) \<and>
     set (fibBatchList (ack_rib s)) \<subseteq> set (fibBatchList rib0) \<and>
     (all_need (ribEntries rib0) \<longrightarrow> all_need (ribEntries (ack_rib s))) \<and> (no_need (ribEntries rib0) \<longrightarrow> no_need (ribEntries (ack_rib s)))"

lemma ack_invD:
  assumes "ack_inv cfg cc V rib0 items s"
  shows "pinv (features cfg) cc V (\<lambda>q. item_acks q items @ queue_acks (fromFibMessageQ (ack_rib s)) q) (set (fibBatchList (ack_rib s)))
       (ack_events s) (ribEntries (ack_rib s)) (store (ack_rib s))"
    "an_entries (announcementAddPath s) = []" "wd_entries (ack_withdrawal s) = []" "batch_ok (ack_rib s)" "out_frame rib0 (ack_rib s)"
    "set (fibBatchList (ack_rib s)) \<subseteq> set (fibBatchList rib0)" "all_need (ribEntries rib0) \<Longrightarrow> all_need (ribEntries (ack_rib s))"
    "no_need (ribEntries rib0) \<Longrightarrow> no_need (ribEntries (ack_rib s))"
  using assms unfolding ack_inv_def by blast+

text \<open>The next acknowledgement is taken, and the entry can do without it.\<close>

lemma pinv_next:
  assumes inv: "pinv ff cc V (\<lambda>q. item_acks q ((p, w) # items) @ Q q) B evs E h"
    and e: "\<And>e. map_of E p = Some e \<Longrightarrow> entry_inv ff cc h p (p \<in> B) (item_acks p items @ Q p) e"
  shows "pinv ff cc V (\<lambda>q. item_acks q items @ Q q) B evs E h"
proof -
  note d = pinvD [OF inv]
  have "entry_inv ff cc h q (q \<in> B) (item_acks q items @ Q q) x" if "map_of E q = Some x" for q x
    using e [of x] d(3) [OF that] that by (cases "q = p") simp_all
  moreover have "tags_below (next_map h) (item_acks q items @ Q q)" for q
    using d(4) [of q] by (auto simp: tags_below_def)
  ultimately show ?thesis using d(1,2,5) unfolding pinv_def by blast
qed

lemma ackOne_stale:
  assumes inv: "ack_inv cfg cc V rib0 ((p, w) # items) s"
    and w: "\<And>e. map_of (ribEntries (ack_rib s)) p = Some e \<Longrightarrow> w = None \<or> ptr w \<noteq> ptr (weightedNexthops e)"
  shows "ack_inv cfg cc V rib0 items s"
proof -
  note d = ack_invD [OF inv]
  have "pinv (features cfg) cc V (\<lambda>q. item_acks q items @ queue_acks (fromFibMessageQ (ack_rib s)) q) (set (fibBatchList (ack_rib s)))
      (ack_events s) (ribEntries (ack_rib s)) (store (ack_rib s))"
    by (rule pinv_next [OF d(1)]) (rule entry_inv_stale [OF _ w], use pinvD(3) [OF d(1), of p] in \<open>simp_all\<close>)
  then show ?thesis using d(2-8) unfolding ack_inv_def by blast
qed

lemma ackOne_erase:
  assumes inv: "ack_inv cfg cc V rib0 ((p, None) # items) s" and e: "map_of (ribEntries (ack_rib s)) p = Some e"
    and b: "p \<notin> set (fibBatchList (ack_rib s))"
  shows "ack_inv cfg cc V rib0 items (s\<lparr>ack_rib := erase_entry p (ack_rib s)\<rparr>)"
proof -
  note d = ack_invD [OF inv]
  have "advertised_view (store (ack_rib s)) (map_of (ribEntries (ack_rib s)) p) = None"
    using pinvD(3) [OF d(1) e] entry_inv_erasable unfolding e by simp
  then have "pinv (features cfg) cc V (\<lambda>q. item_acks q items @ queue_acks (fromFibMessageQ (ack_rib s)) q) (set (fibBatchList (ack_rib s)))
      (ack_events s) (AList.delete p (ribEntries (ack_rib s))) (store (ack_rib s))"
    by (rule pinv_erase [OF d(1)]) (use pinvD(4) [OF d(1), of p] in \<open>auto simp: tags_below_def\<close>)
  moreover have f: "filter (\<lambda>q. q \<noteq> p) (fibBatchList (ack_rib s)) = fibBatchList (ack_rib s)" using b by (auto simp: filter_id_conv)
  moreover have "all_need (AList.delete p E)" if "all_need E" for E using that by (auto simp: all_need_def)
  moreover have "no_need (AList.delete p E)" if "no_need E" for E using that by (auto simp: no_need_def)
  moreover have "batch_ok (erase_entry p (ack_rib s))" using d(4) b by (auto simp: batch_ok_def erase_entry_def f)
  ultimately show ?thesis
    using d(2-8) b unfolding ack_inv_def by (simp add: erase_entry_def out_frame_def)
qed

lemma ackOne_commit:
  assumes inv: "ack_inv cfg cc V rib0 ((p, w) # items) s" and e: "map_of (ribEntries (ack_rib s)) p = Some e"
    and w: "w \<noteq> None" "ptr w = ptr (weightedNexthops e)"
  shows "\<exists>s'. commitEntry cfg eor p e s = Some s' \<and> ack_inv cfg cc V rib0 items s'"
proof -
  note d = ack_invD [OF inv]
  let ?E = "ribEntries (ack_rib s)" and ?h = "store (ack_rib s)"
  have ei: "entry_inv (features cfg) cc ?h p (p \<in> set (fibBatchList (ack_rib s))) (w # item_acks p items @ queue_acks (fromFibMessageQ (ack_rib s)) p) e"
    using pinvD(3) [OF d(1) e] by simp
  obtain a where a: "bestpath e = Some a"
    using entry_inv_commit(2) [OF ei w, of "snd (commitBestpath e)"] commitBestpath_core commitBestpath_synced by (auto simp: commitBestpath_fields)
  have ids: "\<forall>(i, a)\<in>set (multipaths e). pathIdToSend (route_at ?h a) \<noteq> None"
    using entry_invD(4) [OF ei] by (auto simp: entry_routes_def)
  have adv: "\<forall>x. advertisedBestpath e = Some x \<longrightarrow> apply_events (ack_events s) V p = Some (route_view ?h x)"
    using pinvD(5) [OF d(1), of p] unfolding e by (simp add: advertised_view_def)
  obtain s' e' where s': "commitEntry cfg eor p e s = Some s'" "out_frame (ack_rib s) (ack_rib s')"
    "ribEntries (ack_rib s') = AList.update p e' ?E" "store (ack_rib s') = ?h" "fibBatchList (ack_rib s') = fibBatchList (ack_rib s)"
    "an_entries (announcementAddPath s') = []" "wd_entries (ack_withdrawal s') = []" "same_core e e'" "hasFibOutState e' = hasFibOutState e"
    "needPathSelection e' = needPathSelection e" "synced e'"
    "apply_events (ack_events s') V = (apply_events (ack_events s) V)(p \<mapsto> route_view ?h a)"
    using commitEntry_spec [OF ids a d(2,3) adv, of cfg eor] by (elim exE conjE) (rule that)
  have q: "fromFibMessageQ (ack_rib s') = fromFibMessageQ (ack_rib s)" using s'(2) by (simp add: out_frame_def)
  have "advertisedBestpath e' = Some a" using s'(8,11) a by (simp add: synced_def same_core_def)
  then have v: "advertised_view ?h (Some e') = Some (route_view ?h a)" by (simp add: advertised_view_def)
  have "pinv (features cfg) cc V (\<lambda>q. item_acks q items @ queue_acks (fromFibMessageQ (ack_rib s)) q) (set (fibBatchList (ack_rib s)))
      (ack_events s') (AList.update p e' ?E) ?h"
  proof (rule pinv_set [OF d(1) others_refl pinvD(2) [OF d(1)]])
    show "entry_inv (features cfg) cc ?h p (p \<in> set (fibBatchList (ack_rib s))) (item_acks p items @ queue_acks (fromFibMessageQ (ack_rib s)) p) e'"
      by (rule entry_inv_commit(1) [OF ei w s'(8,9,11)])
    show "tags_below (next_map ?h) (item_acks p items @ queue_acks (fromFibMessageQ (ack_rib s)) p)"
      using pinvD(4) [OF d(1), of p] by (simp add: tags_below_def)
    show "apply_events (ack_events s') V = (apply_events (ack_events s) V)(p := advertised_view ?h (Some e'))" unfolding v by (rule s'(12))
  qed auto
  moreover have "same_needs ?E (AList.update p e' ?E)" by (simp add: same_needs_def e s'(10))
  note n = same_needs_all [OF this]
  moreover have "batch_ok (ack_rib s')" using d(4) by (auto simp: batch_ok_def s'(3,5))
  ultimately have "ack_inv cfg cc V rib0 items s'"
    using d(6-8) s'(6,7) out_frame_trans [OF d(5) s'(2)] unfolding ack_inv_def s'(3-5) q n by blast
  then show ?thesis using s'(1) by blast
qed

lemma ackOne_inv:
  assumes inv: "ack_inv cfg cc V rib0 ((p, w) # items) s"
  shows "\<exists>s'. ackOne cfg eor (p, w) s = Some s' \<and> ack_inv cfg cc V rib0 items s'"
proof (cases "map_of (ribEntries (ack_rib s)) p")
  case None
  then show ?thesis using ackOne_stale [OF inv] by (simp add: ackOne_def)
next
  case (Some e)
  show ?thesis
  proof (cases "w = None")
    case True
    then show ?thesis using ackOne_stale [OF inv] ackOne_erase [OF inv [unfolded True] Some] Some by (simp add: ackOne_def)
  next
    case False
    show ?thesis
    proof (cases "ptr w = ptr (weightedNexthops e)")
      case True
      then have "ackOne cfg eor (p, w) s = commitEntry cfg eor p e s" using Some False by (auto simp: ackOne_def ptr_def)
      then show ?thesis using ackOne_commit [OF inv Some False True, of eor] by simp
    next
      case ne: False
      then have "ackOne cfg eor (p, w) s = Some s" using Some False by (auto simp: ackOne_def ptr_def)
      moreover have "ack_inv cfg cc V rib0 items s" by (rule ackOne_stale [OF inv]) (use Some ne in simp)
      ultimately show ?thesis by blast
    qed
  qed
qed

lemma ackAll_inv:
  "ack_inv cfg cc V rib0 items s \<Longrightarrow> \<exists>s'. fold_opt (ackOne cfg eor) items s = Some s' \<and> ack_inv cfg cc V rib0 [] s'"
proof (induction items arbitrary: s)
  case (Cons x items)
  obtain s1 where "ackOne cfg eor x s = Some s1" "ack_inv cfg cc V rib0 items s1" using ackOne_inv [of cfg cc V rib0 "fst x" "snd x" items s eor] Cons.prems by auto
  then show ?case using Cons.IH by simp
qed simp

definition ack_frame :: "Rib \<Rightarrow> Rib \<Rightarrow> bool" where
  "ack_frame rib rib' \<longleftrightarrow> toFibMessageQ rib' = toFibMessageQ rib \<and> ribEoRReceived rib' = ribEoRReceived rib \<and>
     set (fibBatchList rib') \<subseteq> set (fibBatchList rib) \<and> (no_need (ribEntries rib) \<longrightarrow> no_need (ribEntries rib'))"

lemma sched_out:
  assumes "sched rib" "out_frame rib rib'" "set (fibBatchList rib') \<subseteq> set (fibBatchList rib)"
    "all_need (ribEntries rib) \<longrightarrow> all_need (ribEntries rib')" "no_need (ribEntries rib) \<longrightarrow> no_need (ribEntries rib')"
  shows "sched rib'"
proof -
  have b: "fibBatchList rib = [] \<Longrightarrow> fibBatchList rib' = []" using assms(3) by simp
  have f: "toFibMessageQ rib' = toFibMessageQ rib" "fib rib' = fib rib" "ribEoRReceived rib' = ribEoRReceived rib"
    "pendingInitialPathComputation rib' = pendingInitialPathComputation rib" "pause_ok rib \<longrightarrow> pause_ok rib'"
    "fibBatchTimer rib' \<longrightarrow> fibBatchTimer rib"
    "fibBatchTimer rib \<or> pauseBestPathAndFibProgramming rib \<longrightarrow> fibBatchTimer rib' \<or> pauseBestPathAndFibProgramming rib'"
    using assms(2) unfolding out_frame_def by blast+
  show ?thesis
  proof (cases "ribEoRReceived rib")
    case True
    then show ?thesis using assms(1,5) b f(5,7) unfolding sched_def f(1-4) by auto
  next
    case False
    then show ?thesis using assms(1,4) b f(5,6) unfolding sched_def f(1-4) by auto
  qed
qed

lemma handleFibProgrammedMessage_inv:
  assumes inv: "rib_inv cfg cc V rib" and q: "fromFibMessageQ rib = FibProgrammedMessage W b # Q"
  shows "\<exists>rib'. handleFibProgrammedMessage cfg W b (rib\<lparr>fromFibMessageQ := Q\<rparr>) = Some rib' \<and> rib_inv cfg cc V rib' \<and>
    fromFibMessageQ rib' = Q \<and> ack_frame rib rib'"
proof -
  note d = rib_invD [OF inv]
  have lo: "locals_ok (localRoutes rib)" and bo: "batch_ok rib" using d(1) by (simp_all add: paths_inv_def)
  let ?rib = "rib\<lparr>fromFibMessageQ := Q\<rparr>"
  define eor where "eor = (b \<and> \<not> initialEorSent rib)"
  define r where "r = (if eor then ?rib\<lparr>initialEorSent := True, ribOutQ := ribOutQ rib @ [RibInitialAnnouncementStart]\<rparr> else ?rib)"
  have r: "ribEntries r = ribEntries rib" "store r = store rib" "fibBatchList r = fibBatchList rib" "localRoutes r = localRoutes rib"
    "fromFibMessageQ r = Q" "queue_events (ribOutQ r) = queue_events (ribOutQ rib)" "out_frame ?rib r"
    by (simp_all add: r_def out_frame_def)
  define items where "items = concat (map (\<lambda>(_, g). fibProgrammedOrder (localRoutes r) g) W)"
  define s0 where "s0 = \<lparr>ack_rib = r, announcement = empty_announcement, announcementAddPath = empty_announcement, ack_withdrawal = empty_withdrawal\<rparr>"
  have W: "pfxs_wf W" and Q: "\<forall>m\<in>set Q. msg_wf m" using d(2) q by (auto simp: fib_ok_def)
  have it: "item_acks p items = wait_acks p W" for p
    unfolding items_def r(4) by (rule item_acks_message [OF _ W]) (use lo in \<open>simp add: locals_ok_def\<close>)
  have "ack_inv cfg cc V ?rib items s0"
    using rib_inv_pinv [OF inv] bo r(7) unfolding ack_inv_def s0_def
    by (simp add: q it r(1-6) batch_ok_def empty_announcement_def empty_withdrawal_def)
  from ackAll_inv [OF this, of eor] obtain s where s: "fold_opt (ackOne cfg eor) items s0 = Some s" "ack_inv cfg cc V ?rib [] s" by blast
  note a = ack_invD [OF s(2)]
  define r1 where "r1 = (if wd_addPathEntries (ack_withdrawal s) \<noteq> [] then ribOutQPush cfg (OutWithdrawal (ack_withdrawal s)) (ack_rib s) else ack_rib s)"
  define x where "x = (announcement s)\<lparr>an_addPathEntries := an_addPathEntries (announcementAddPath s)\<rparr>"
  define r2 where "r2 = (if eor \<or> an_entries x \<noteq> [] \<or> an_addPathEntries x \<noteq> []
      then ribOutQPush cfg (OutAnnouncement (if eor then x\<lparr>initialDump := True, sendWithEoR := True\<rparr> else x)) r1 else r1)"
  have e0: "initialEorSent ?rib = initialEorSent rib" "ribOutQ ?rib = ribOutQ rib" by simp_all
  have res: "handleFibProgrammedMessage cfg W b ?rib = Some r2"
    unfolding handleFibProgrammedMessage_def Let_def e0 eor_def [symmetric] r_def [symmetric] items_def [symmetric] s0_def [symmetric]
      s(1) bind.bind_lunit r2_def r1_def x_def ..
  have 1: "quiet (ack_rib s) r1" "queue_events (ribOutQ r1) = queue_events (ribOutQ (ack_rib s))"
    using ribOutQPush_quiet [where rib = "ack_rib s" and cfg = cfg and m = "OutWithdrawal (ack_withdrawal s)"] a(3) by (auto simp: r1_def)
  have 2: "quiet r1 r2" "queue_events (ribOutQ r2) = queue_events (ribOutQ r1) @ best_events (OutAnnouncement (announcement s))"
    using ribOutQPush_quiet [where rib = r1 and cfg = cfg] by (auto simp: r2_def x_def)
  have f: "quiet (ack_rib s) r2" "queue_events (ribOutQ r2) = ack_events s" "out_frame ?rib r2"
    using quiet_trans [OF 1(1) 2(1)] 1(2) 2(2) out_frame_trans [OF a(5)] by (simp_all add: quiet_def)
  have g: "ribEntries r2 = ribEntries (ack_rib s)" "store r2 = store (ack_rib s)" "fibBatchList r2 = fibBatchList (ack_rib s)"
    "fromFibMessageQ r2 = fromFibMessageQ (ack_rib s)" using f(1) by (simp_all add: quiet_def out_frame_def)
  have k: "fromFibMessageQ r2 = Q" "localRoutes r2 = localRoutes rib" "fib r2 = fib rib" "toFibMessageQ r2 = toFibMessageQ rib"
    "ribEoRReceived r2 = ribEoRReceived rib" using f(3) by (simp_all add: out_frame_def)
  have "rib_pinv cfg cc V r2" using a(1) unfolding g f(2) by simp
  moreover have "batch_ok r2" using a(4) by (simp add: batch_ok_def g)
  ultimately have "paths_inv cfg cc V r2" using lo by (simp add: paths_inv_def k)
  moreover have "fib_ok r2" using d(2) Q by (simp add: fib_ok_def k)
  moreover have "sched ?rib" using d(3) by (auto simp: sched_def)
  then have "sched r2" by (rule sched_out [OF _ f(3)]) (use a(6-8) in \<open>simp_all add: g\<close>)
  moreover have "ack_frame rib r2" using a(6,8) by (simp add: ack_frame_def g k)
  ultimately show ?thesis using res k(1) by (simp add: rib_inv_def)
qed

end
