(* ===== verification/Rib_System.thy ===== *)
theory Rib_System
  imports Rib_Steps
begin

text \<open>
  The RIB as a system: its handlers in any order, interleaved with the FIB, the timers, the tracker of
  next hops and the peers that take messages from the queue. Every reachable state satisfies the
  invariant, no handler aborts, and a state without work left shows the peers what the decision process
  chooses.
\<close>

subsection \<open>Pauses\<close>

definition sched_work :: "Rib \<Rightarrow> bool" where
  "sched_work rib \<longleftrightarrow>
     (if ribEoRReceived rib
      then \<not> pendingInitialPathComputation rib \<and> (fullSynced (fib rib) \<or> True \<in> set (toFibMessageQ rib)) \<and>
        (fibBatchList rib \<noteq> [] \<longrightarrow> toFibMessageQ rib \<noteq> []) \<and>
        (fibBatchTimer rib \<or> pauseBestPathAndFibProgramming rib \<or> no_need (ribEntries rib))
      else fibBatchList rib = [] \<and> \<not> fibBatchTimer rib \<and> all_need (ribEntries rib))"

lemma sched_split: "sched rib \<longleftrightarrow> pause_ok rib \<and> sched_work rib"
  by (simp add: sched_def sched_work_def)

lemma processPause_inv:
  assumes inv: "rib_inv cfg cc V rib"
  shows "rib_inv cfg cc V (processPauseBestPathAndFibProgramming c rib)"
  using assms
  by (auto simp: rib_inv_def paths_inv_def batch_ok_def fib_ok_def sched_def processPauseBestPathAndFibProgramming_def Let_def)

text \<open>All entries are marked for path selection.\<close>

lemma map_of_require: "map_of (map (\<lambda>(p, e). (p, requirePathSelection e)) E) p = map_option requirePathSelection (map_of E p)"
  by (induction E) auto

lemma entry_inv_require: "entry_inv ff cc h p b as e \<Longrightarrow> entry_inv ff cc h p b as (requirePathSelection e)"
  by (rule entry_inv_core)
     (auto simp: same_core_def requirePathSelection_def entry_pipe_def synced_def dest: entry_invD(5))

lemma require_view: "advertised_view h (map_option requirePathSelection x) = advertised_view h x"
  by (cases x) (simp_all add: advertised_view_def requirePathSelection_def)

lemma pinv_require:
  assumes inv: "pinv ff cc V acks B evs E h"
  shows "pinv ff cc V acks B evs (map (\<lambda>(p, e). (p, requirePathSelection e)) E) h"
proof -
  note d = pinvD [OF inv]
  have k: "map fst (map (\<lambda>(p, e). (p, requirePathSelection e)) E) = map fst E" by auto
  have "keys_distinct (map (\<lambda>(p, e). (p, requirePathSelection e)) E)" using d(1) unfolding keys_distinct_def k .
  moreover have "entry_inv ff cc h p (p \<in> B) (acks p) e" if "map_option requirePathSelection (map_of E p) = Some e" for p e
    using that d(3) [of p] entry_inv_require [of ff cc h p "p \<in> B" "acks p"] by auto
  ultimately show ?thesis using d(2,4,5) unfolding pinv_def map_of_require require_view by blast
qed

lemma rib_inv_schedule: "rib_inv cfg cc V rib \<Longrightarrow> ribEoRReceived rib \<Longrightarrow> rib_inv cfg cc V (schedulePrepareFibProgrammingTimer rib)"
  using schedule_timer [of rib] by (auto simp: rib_inv_def fib_ok_def sched_def)

lemma mayResume_inv:
  assumes cfg: "config_ok cfg cc" and inv: "paths_inv cfg cc V rib" "fib_ok rib" "sched_work rib"
    and p: "if cause = None then pause_ok rib else pausedBy rib = []"
  shows "\<exists>rib'. mayResumeBestPathAndFibProgramming cfg cause rib = Some rib' \<and> rib_inv cfg cc V rib'"
proof (cases "\<not> pauseBestPathAndFibProgramming rib \<or> cause = None \<and> BACKPRESSURE \<in> set (pausedBy rib)")
  case True
  then show ?thesis
    using inv p by (auto simp: mayResumeBestPathAndFibProgramming_def rib_inv_def paths_inv_def batch_ok_def fib_ok_def sched_split
        sched_work_def split: if_splits)
next
  case False
  define r where "r = (if cause = None then rib\<lparr>pausedBy := []\<rparr> else rib)
      \<lparr>pauseBestPathAndFibProgramming := False, ribEntries := map (\<lambda>(p, e). (p, requirePathSelection e)) (ribEntries rib)\<rparr>"
  have res: "mayResumeBestPathAndFibProgramming cfg cause rib = (if ribEoRReceived r
      then map_option schedulePrepareFibProgrammingTimer (prepareFibProgramming cfg (fibSyncReqPending r) (r\<lparr>fibSyncReqPending := False\<rparr>)) else Some r)"
    using False p by (cases "cause = None") (simp_all add: mayResumeBestPathAndFibProgramming_def Let_def r_def)
  have "rib_pinv cfg cc V r" using pinv_require inv(1) by (simp add: r_def paths_inv_def)
  then have i: "paths_inv cfg cc V (r\<lparr>fibSyncReqPending := x\<rparr>)" "fib_ok (r\<lparr>fibSyncReqPending := x\<rparr>)" "pause_ok (r\<lparr>fibSyncReqPending := x\<rparr>)" for x
    using inv(1,2) p by (auto simp: paths_inv_def batch_ok_def r_def fib_ok_def map_of_require dom_def)
  show ?thesis
  proof (cases "ribEoRReceived rib")
    case True
    then have "ribEoRReceived (r\<lparr>fibSyncReqPending := False\<rparr>)" "\<not> pendingInitialPathComputation (r\<lparr>fibSyncReqPending := False\<rparr>)"
      "fibSyncReqPending r \<or> fullSynced (fib (r\<lparr>fibSyncReqPending := False\<rparr>)) \<or> True \<in> set (toFibMessageQ (r\<lparr>fibSyncReqPending := False\<rparr>))"
      using inv(3) by (simp_all add: sched_work_def r_def)
    from prepareFibProgramming_inv [OF cfg i this] obtain r' where
      "prepareFibProgramming cfg (fibSyncReqPending r) (r\<lparr>fibSyncReqPending := False\<rparr>) = Some r'" "rib_inv cfg cc V r'"
      "prepare_frame (fibSyncReqPending r) (r\<lparr>fibSyncReqPending := False\<rparr>) r'" by blast
    then show ?thesis using True rib_inv_schedule by (simp add: res r_def prepare_frame_def)
  next
    case False
    have "needPathSelection (requirePathSelection e)" for e by (simp add: requirePathSelection_def)
    then have "all_need (ribEntries r)" by (auto simp: all_need_def r_def map_of_require)
    then have "sched r" using inv(3) False p by (auto simp: sched_def sched_work_def r_def)
    moreover have "r\<lparr>fibSyncReqPending := fibSyncReqPending r\<rparr> = r" by simp
    ultimately have "rib_inv cfg cc V r" using i [of "fibSyncReqPending r"] by (simp add: rib_inv_def)
    then show ?thesis using False by (simp add: res r_def)
  qed
qed

lemma processResume_inv:
  assumes cfg: "config_ok cfg cc" and inv: "rib_inv cfg cc V rib"
  shows "\<exists>rib'. processResumeBestPathAndFibProgramming cfg c rib = Some rib' \<and> rib_inv cfg cc V rib'"
proof -
  let ?r = "rib\<lparr>pausedBy := filter (\<lambda>x. x \<noteq> c) (pausedBy rib)\<rparr>"
  note d = rib_invD [OF inv]
  have i: "paths_inv cfg cc V ?r" "fib_ok ?r" "sched_work ?r"
    using d by (auto simp: paths_inv_def batch_ok_def fib_ok_def sched_split sched_work_def)
  show ?thesis
  proof (cases "pausedBy ?r = []")
    case True
    then show ?thesis
      using mayResume_inv [OF cfg i, of "Some c"] by (simp add: processResumeBestPathAndFibProgramming_def Let_def)
  next
    case False
    then have "pausedBy rib \<noteq> []" by auto
    then have "pause_ok ?r" using False d(3) by (simp add: sched_split)
    then show ?thesis using False i by (simp add: processResumeBestPathAndFibProgramming_def Let_def rib_inv_def sched_split)
  qed
qed

subsection \<open>The initial path computation\<close>

lemma runInitialPathComputation_inv:
  assumes cfg: "config_ok cfg cc" and inv: "rib_inv cfg cc V rib" and eor: "\<not> ribEoRReceived rib"
  shows "\<exists>rib'. runInitialPathComputation cfg rib = Some rib' \<and> rib_inv cfg cc V rib'"
proof -
  note d = rib_invD [OF inv]
  let ?r = "rib\<lparr>pendingInitialPathComputation := False, nexthopResolutionTimer := False, ribEoRReceived := True\<rparr>"
  have b: "fibBatchList rib = []" using d(3) eor by (simp add: sched_def)
  have "paths_inv cfg cc V ?r" "fib_ok ?r" "pause_ok ?r" "ribEoRReceived ?r" "\<not> pendingInitialPathComputation ?r"
    using d by (simp_all add: paths_inv_def batch_ok_def fib_ok_def sched_split)
  from prepareFibProgramming_inv [OF cfg this, of True] obtain r' where r': "prepareFibProgramming cfg True ?r = Some r'" "rib_inv cfg cc V r'"
    by blast
  have "rib_inv cfg cc V (r'\<lparr>churnMonitor := True\<rparr>)"
    using r'(2) by (auto simp: rib_inv_def paths_inv_def batch_ok_def fib_ok_def sched_def)
  then show ?thesis using b r'(1) by (simp add: runInitialPathComputation_def Let_def)
qed

lemma processRibInInitialPathComputation_inv:
  assumes cfg: "config_ok cfg cc" and inv: "rib_inv cfg cc V rib"
  shows "\<exists>rib'. processRibInInitialPathComputation cfg t rib = Some rib' \<and> rib_inv cfg cc V rib'"
proof (cases "ribEoRReceived rib")
  case True
  then show ?thesis using inv by (simp add: processRibInInitialPathComputation_def)
next
  case False
  then have "rib_inv cfg cc V (rib\<lparr>pendingInitialPathComputation := True, nexthopResolutionTimer := True\<rparr>)"
    using inv by (auto simp: rib_inv_def paths_inv_def batch_ok_def fib_ok_def sched_def)
  then show ?thesis
    using False runInitialPathComputation_inv [OF cfg inv False] by (simp add: processRibInInitialPathComputation_def)
qed

lemma pending_inv:
  assumes cfg: "config_ok cfg cc" and inv: "rib_inv cfg cc V rib"
  shows "\<exists>rib'. maybeRunPendingInitialPathComputation cfg rib = Some rib' \<and> rib_inv cfg cc V rib'"
    "\<exists>rib'. onNexthopResolutionTimeout cfg rib = Some rib' \<and> rib_inv cfg cc V rib'"
proof -
  have "\<not> ribEoRReceived rib" if "pendingInitialPathComputation rib" using that rib_invD(3) [OF inv] by (auto simp: sched_def)
  then show "\<exists>rib'. maybeRunPendingInitialPathComputation cfg rib = Some rib' \<and> rib_inv cfg cc V rib'"
    "\<exists>rib'. onNexthopResolutionTimeout cfg rib = Some rib' \<and> rib_inv cfg cc V rib'"
    using runInitialPathComputation_inv [OF cfg inv] inv
    by (simp_all add: maybeRunPendingInitialPathComputation_def onNexthopResolutionTimeout_def)
qed

subsection \<open>Updates of next hops\<close>

text \<open>The entries of the routes \<open>as\<close> are marked for path selection.\<close>

definition marked :: "rib_store \<Rightarrow> nat list \<Rightarrow> cidr \<Rightarrow> bool" where
  "marked h as p \<longleftrightarrow> (\<exists>a\<in>set as. r_prefix (route_at h a) = p)"

lemma requireSelection_frame:
  "in_frame rib (requireSelectionOfRoute a rib)" "store (requireSelectionOfRoute a rib) = store rib"
  "fibBatchList (requireSelectionOfRoute a rib) = fibBatchList rib" "localRoutes (requireSelectionOfRoute a rib) = localRoutes rib"
  by (simp_all add: requireSelectionOfRoute_def in_frame_def set_entry_def Let_def split: option.split)

lemma requireSelection_entry:
  "map_of (ribEntries (requireSelectionOfRoute a rib)) p =
     map_option (if r_prefix (route_at (store rib) a) = p then requirePathSelection else id) (map_of (ribEntries rib) p)"
  by (auto simp: requireSelectionOfRoute_def set_entry_def Let_def option.map_id split: option.split)

lemma requireSelection_keys: "keys_distinct (ribEntries rib) \<Longrightarrow> keys_distinct (ribEntries (requireSelectionOfRoute a rib))"
  by (simp add: requireSelectionOfRoute_def set_entry_def Let_def split: option.split)

lemma requireSelections:
  fixes rib as
  defines "r \<equiv> fold requireSelectionOfRoute as rib"
  shows "in_frame rib r" "store r = store rib" "fibBatchList r = fibBatchList rib" "localRoutes r = localRoutes rib"
    "keys_distinct (ribEntries rib) \<Longrightarrow> keys_distinct (ribEntries r)"
    "map_of (ribEntries r) p = map_option (if marked (store rib) as p then requirePathSelection else id) (map_of (ribEntries rib) p)"
proof -
  have idem: "requirePathSelection (requirePathSelection e) = requirePathSelection e" for e by (simp add: requirePathSelection_def)
  have "in_frame rib (fold requireSelectionOfRoute as rib) \<and> store (fold requireSelectionOfRoute as rib) = store rib \<and>
      fibBatchList (fold requireSelectionOfRoute as rib) = fibBatchList rib \<and>
      localRoutes (fold requireSelectionOfRoute as rib) = localRoutes rib \<and>
      (keys_distinct (ribEntries rib) \<longrightarrow> keys_distinct (ribEntries (fold requireSelectionOfRoute as rib))) \<and>
      map_of (ribEntries (fold requireSelectionOfRoute as rib)) p =
        map_option (if marked (store rib) as p then requirePathSelection else id) (map_of (ribEntries rib) p)"
  proof (induction as arbitrary: rib)
    case (Cons a as)
    note f = requireSelection_frame [where a = a and rib = rib] and i = Cons.IH [of "requireSelectionOfRoute a rib"]
    have "map_of (ribEntries (fold requireSelectionOfRoute (a # as) rib)) p =
        map_option (if marked (store rib) (a # as) p then requirePathSelection else id) (map_of (ribEntries rib) p)"
      using i by (cases "map_of (ribEntries rib) p") (auto simp: requireSelection_entry f marked_def idem)
    then show ?case using i f in_frame_trans [OF f(1)] requireSelection_keys by auto
  qed (simp add: marked_def option.map_id)
  then show "in_frame rib r" "store r = store rib" "fibBatchList r = fibBatchList rib" "localRoutes r = localRoutes rib"
    "keys_distinct (ribEntries rib) \<Longrightarrow> keys_distinct (ribEntries r)"
    "map_of (ribEntries r) p = map_option (if marked (store rib) as p then requirePathSelection else id) (map_of (ribEntries rib) p)"
    by (simp_all add: r_def)
qed

abbreviation set_status :: "NexthopStatus \<Rightarrow> ipaddr \<Rightarrow> rib_store \<Rightarrow> rib_store" where
  "set_status st nh h \<equiv> upd_nexthop (\<lambda>ni. ni\<lparr>ni_status := st\<rparr>) nh h"

lemma set_status_fields:
  "route_at (set_status st nh h) = route_at h" "next_route (set_status st nh h) = next_route h" "next_map (set_status st nh h) = next_map h"
  by (simp_all add: upd_nexthop_def split: option.split)

lemma set_status_agree:
  assumes "nexthopInfo (route_at h a) = Some nh \<Longrightarrow>
    \<exists>ni. map_of (nexthopInfoMap h) nh = Some ni \<and> ns_igpCost st = ns_igpCost (ni_status ni) \<and> isResolvedForSelection st = isResolvedForSelection (ni_status ni)"
  shows "agree_on h (set_status st nh h) a"
proof (rule agree_same)
  show "seen (set_status st nh h) a = seen h a"
    using assms by (cases "nexthopInfo (route_at h a)") (auto simp: seen_def rating_def upd_nexthop_def split: option.split)
qed (simp add: set_status_fields)

lemma set_status_keeps: "keeps_routes h (set_status st nh h)"
  by (rule keeps_routes_same) (simp_all add: set_status_fields)

text \<open>An entry that is marked does not depend on the status of next hops.\<close>

lemma entry_inv_marked:
  assumes inv: "entry_inv ff cc h p b as e"
  shows "entry_inv ff cc (set_status st nh h) p b as (requirePathSelection e)"
proof -
  note d = entry_invD [OF entry_inv_require [OF inv]]
  have "route_fine (set_status st nh h) a = route_fine h a" for a
    by (simp add: route_fine_def route_ok_def address_ok_def live_def Let_def set_status_fields)
  moreover have "entry_wf (set_status st nh h) (requirePathSelection e)"
    by (rule entry_wf_places [OF d(2) keeps_routes_places [OF set_status_keeps]])
  moreover have "needPathSelection (requirePathSelection e)" by (simp add: requirePathSelection_def)
  ultimately show ?thesis
    using d(1,3,5) entry_routes_keeps [OF d(4) set_status_keeps] by (simp add: entry_inv_def set_status_fields)
qed

lemma pinv_status:
  assumes inv: "pinv ff cc V acks B evs E h" and keys: "keys_distinct E'"
    and E': "\<And>p. map_of E' p = map_option (if M p then requirePathSelection else id) (map_of E p)"
    and ag: "\<And>p e a. map_of E p = Some e \<Longrightarrow> \<not> M p \<Longrightarrow> \<not> needPathSelection e \<Longrightarrow> a \<in> set (getAllPaths e) \<Longrightarrow> agree_on h (set_status st nh h) a"
  shows "pinv ff cc V acks B evs E' (set_status st nh h)"
proof -
  note d = pinvD [OF inv]
  have e: "entry_inv ff cc (set_status st nh h) p (p \<in> B) (acks p) ((if M p then requirePathSelection else id) x)"
    if x: "map_of E p = Some x" for p x
  proof (cases "M p \<or> needPathSelection x")
    case True
    then have "(if M p then requirePathSelection else id) x = requirePathSelection x" by (auto simp: requirePathSelection_def)
    then show ?thesis using entry_inv_marked [OF d(3) [OF x]] by simp
  next
    case False
    then show ?thesis
      using entry_inv_frame [OF d(3) [OF x] set_status_keeps, of st nh "p \<in> B"] ag [OF x] by (auto simp: set_status_fields)
  qed
  have "entry_inv ff cc (set_status st nh h) p (p \<in> B) (acks p) x" if "map_of E' p = Some x" for p x
    using that e [of p] unfolding E' by (cases "map_of E p") simp_all
  moreover have "advertised_view (set_status st nh h) (map_of E' p) = advertised_view h (map_of E p)" for p
    using advertised_view_keeps [OF entry_invD(4) [OF d(3)] set_status_keeps]
    by (cases "map_of E p") (auto simp: E' advertised_view_def requirePathSelection_def)
  ultimately show ?thesis
    using keys links_wf_status [OF d(2)] d(4,5) unfolding pinv_def set_status_fields by simp
qed

text \<open>A status that is not taken, one that changes nothing that is seen, and one that marks the entries of its routes.\<close>

definition status_taken :: "NexthopStatus \<Rightarrow> ipaddr \<Rightarrow> NexthopInfo \<Rightarrow> (cidr \<Rightarrow> bool) \<Rightarrow> Rib \<Rightarrow> Rib \<Rightarrow> bool" where
  "status_taken s nh ni M rib rib' \<longleftrightarrow> map_of (nexthopInfoMap (store rib)) nh = Some ni \<and> store rib' = set_status s nh (store rib) \<and>
     (\<forall>p. map_of (ribEntries rib') p = map_option (if M p then requirePathSelection else id) (map_of (ribEntries rib) p)) \<and>
     (keys_distinct (ribEntries rib) \<longrightarrow> keys_distinct (ribEntries rib')) \<and> in_frame rib rib' \<and>
     fibBatchList rib' = fibBatchList rib \<and> localRoutes rib' = localRoutes rib \<and>
     (ribEoRReceived rib \<longrightarrow> ns_igpCost s = ns_igpCost (ni_status ni) \<and> isResolvedForSelection s = isResolvedForSelection (ni_status ni) \<or>
        (\<forall>p. M p = marked (store rib) (nexthopAssociationList ni) p))"

lemma nexthopUpdateOne_cases:
  assumes r: "nexthopUpdateOne st (need, rib) = (need', rib')"
  shows "rib' = rib \<and> need' = need \<or>
    (\<exists>s ni M. status_taken s (ns_nexthop st) ni M rib rib' \<and> (need \<longrightarrow> need') \<and> (need' \<longrightarrow> need \<or> ribEoRReceived rib) \<and>
       (\<not> need' \<longrightarrow> ribEntries rib' = ribEntries rib))"
proof (cases "rib' = rib \<and> need' = need")
  case False
  let ?nh = "ns_nexthop st"
  obtain ni s where ni: "map_of (nexthopInfoMap (store rib)) ?nh = Some ni" and s: "getNexthopStatus ?nh (nexthopCache rib) = Some s"
    and ep: "\<not> (ns_epoch st \<noteq> 0 \<and> ns_epoch (ni_status ni) > ns_epoch st)"
    using r False by (auto simp: nexthopUpdateOne_def Let_def split: option.splits if_splits)
  define r1 where "r1 = rib\<lparr>store := set_status s ?nh (store rib)\<rparr>"
  let ?ch = "ns_igpCost (ni_status ni) \<noteq> ns_igpCost s \<or> isResolvedForSelection (ni_status ni) \<noteq> isResolvedForSelection s"
  let ?as = "nexthopAssociationList ni"
  have res: "(need', rib') = (if \<not> ?ch \<or> \<not> ribEoRReceived r1 then (need, r1) else (need \<or> ?as \<noteq> [], fold requireSelectionOfRoute ?as r1))"
    using r ep unfolding nexthopUpdateOne_def prod.case Let_def ni s r1_def by simp
  show ?thesis
  proof (cases "\<not> ?ch \<or> \<not> ribEoRReceived rib")
    case True
    then have "need' = need" "rib' = r1" using res by (auto simp: r1_def)
    moreover have "status_taken s ?nh ni (\<lambda>_. False) rib r1"
      using True ni by (auto simp: status_taken_def r1_def in_frame_def option.map_id)
    ultimately show ?thesis by (auto simp: r1_def)
  next
    case ch: False
    then have n: "need' \<longleftrightarrow> need \<or> ?as \<noteq> []" and f: "rib' = fold requireSelectionOfRoute ?as r1" using res by (auto simp: r1_def)
    note q = requireSelections [where rib = r1 and as = ?as, folded f]
    have m: "marked (store r1) ?as p = marked (store rib) ?as p" for p by (simp add: marked_def r1_def set_status_fields)
    have "in_frame rib r1" by (simp add: r1_def in_frame_def)
    then have "in_frame rib rib'" using q(1) by (rule in_frame_trans)
    then have "status_taken s ?nh ni (marked (store rib) ?as) rib rib'"
      using ni q(2-5) q(6) by (simp add: status_taken_def m) (simp add: r1_def)
    moreover have "\<not> need' \<longrightarrow> ribEntries rib' = ribEntries rib" using n f by (auto simp: r1_def)
    ultimately show ?thesis using n ch by blast
  qed
qed simp

lemma status_taken_inv:
  assumes inv: "paths_inv cfg cc V rib" and all: "\<not> ribEoRReceived rib \<longrightarrow> all_need (ribEntries rib)"
    and t: "status_taken s nh ni M rib rib'"
  shows "paths_inv cfg cc V rib'" "all_need (ribEntries rib) \<longrightarrow> all_need (ribEntries rib')"
proof -
  have pi: "rib_pinv cfg cc V rib" using inv by (simp add: paths_inv_def)
  note d = pinvD [OF pi]
  have t': "map_of (nexthopInfoMap (store rib)) nh = Some ni" "store rib' = set_status s nh (store rib)"
    "\<And>p. map_of (ribEntries rib') p = map_option (if M p then requirePathSelection else id) (map_of (ribEntries rib) p)"
    "keys_distinct (ribEntries rib')" "in_frame rib rib'" "fibBatchList rib' = fibBatchList rib" "localRoutes rib' = localRoutes rib"
    "ribEoRReceived rib \<Longrightarrow> ns_igpCost s = ns_igpCost (ni_status ni) \<and> isResolvedForSelection s = isResolvedForSelection (ni_status ni) \<or>
        (\<forall>p. M p = marked (store rib) (nexthopAssociationList ni) p)"
    using t d(1) unfolding status_taken_def by blast+
  have q: "fromFibMessageQ rib' = fromFibMessageQ rib" "ribOutQ rib' = ribOutQ rib" using t'(5) by (simp_all add: in_frame_def)
  have "rib_pinv cfg cc V rib'" unfolding t'(2,6) q
  proof (rule pinv_status [OF pi t'(4,3)])
    fix p e a assume e: "map_of (ribEntries rib) p = Some e" "\<not> M p" "\<not> needPathSelection e" and a: "a \<in> set (getAllPaths e)"
    have eor: "ribEoRReceived rib" using all e(1,3) all_needD by blast
    note wf = entry_invD(1,2) [OF d(3) [OF e(1)]]
    have "marked (store rib) (nexthopAssociationList ni) p" if "nexthopInfo (route_at (store rib) a) = Some nh"
    proof -
      have "linked (store rib) nh a" by (rule links_wfD(4) [OF d(2) entry_path_bound [OF wf(2) a] that])
      then have "a \<in> set (nexthopAssociationList ni)" using t'(1) by (simp add: linked_def)
      then show ?thesis using entry_path_prefix [OF wf(2) a] wf(1) by (auto simp: marked_def)
    qed
    then show "agree_on (store rib) (set_status s nh (store rib)) a"
      using t'(1) t'(8) [OF eor] e(2) by (intro set_status_agree) blast
  qed
  then show "paths_inv cfg cc V rib'"
    using inv t'(3,6,7) by (auto simp: paths_inv_def batch_ok_def dom_def)
  have "needPathSelection (requirePathSelection e)" for e by (simp add: requirePathSelection_def)
  then show "all_need (ribEntries rib) \<longrightarrow> all_need (ribEntries rib')" unfolding all_need_def t'(3) by auto
qed

text \<open>A step of the loop over the statuses.\<close>

definition status_step :: "RibConfig \<Rightarrow> bool \<Rightarrow> best_view \<Rightarrow> Rib \<Rightarrow> bool \<times> Rib \<Rightarrow> bool" where
  "status_step cfg cc V rib s \<longleftrightarrow> (case s of (need, rib') \<Rightarrow>
     paths_inv cfg cc V rib' \<and> in_frame rib rib' \<and> fibBatchList rib' = fibBatchList rib \<and>
     (all_need (ribEntries rib) \<longrightarrow> all_need (ribEntries rib')) \<and> (need \<longrightarrow> ribEoRReceived rib) \<and>
     (\<not> need \<longrightarrow> ribEntries rib' = ribEntries rib))"

lemma nexthopUpdateOne_inv:
  assumes s: "status_step cfg cc V rib s" and all: "\<not> ribEoRReceived rib \<longrightarrow> all_need (ribEntries rib)"
  shows "status_step cfg cc V rib (nexthopUpdateOne st s)"
proof -
  obtain n r where ss: "s = (n, r)" by (cases s)
  obtain n' r' where r: "nexthopUpdateOne st (n, r) = (n', r')" by (cases "nexthopUpdateOne st (n, r)")
  have i: "paths_inv cfg cc V r" "in_frame rib r" "fibBatchList r = fibBatchList rib"
    "all_need (ribEntries rib) \<longrightarrow> all_need (ribEntries r)" "n \<longrightarrow> ribEoRReceived rib" "\<not> n \<longrightarrow> ribEntries r = ribEntries rib"
    using s unfolding status_step_def ss prod.case by blast+
  have eor: "ribEoRReceived r = ribEoRReceived rib" using i(2) by (simp add: in_frame_def)
  consider "r' = r" "n' = n" | u ni M where "status_taken u (ns_nexthop st) ni M r r'" "n \<longrightarrow> n'" "n' \<longrightarrow> n \<or> ribEoRReceived r"
      "\<not> n' \<longrightarrow> ribEntries r' = ribEntries r"
    using nexthopUpdateOne_cases [OF r] by blast
  then show ?thesis
  proof cases
    case 1 then show ?thesis using s by (simp add: ss r)
  next
    case 2
    have "\<not> ribEoRReceived r \<longrightarrow> all_need (ribEntries r)" using all i(4) eor by simp
    note t = status_taken_inv [OF i(1) this 2(1)]
    have f: "in_frame r r'" "fibBatchList r' = fibBatchList r" using 2(1) by (simp_all add: status_taken_def)
    show ?thesis
      unfolding status_step_def ss r prod.case using t i 2(2-4) eor in_frame_trans [OF i(2) f(1)] f(2) by auto
  qed
qed

lemma processRibInNexthopUpdate_inv:
  assumes cfg: "config_ok cfg cc" and inv: "rib_inv cfg cc V rib"
  shows "\<exists>rib'. processRibInNexthopUpdate cfg sts rib = Some rib' \<and> rib_inv cfg cc V rib'"
proof (cases "enableNexthopTracking cfg")
  case False
  then show ?thesis using inv by (simp add: processRibInNexthopUpdate_def)
next
  case True
  note d = rib_invD [OF inv]
  have all: "\<not> ribEoRReceived rib \<longrightarrow> all_need (ribEntries rib)" using d(3) by (simp add: sched_def)
  have "status_step cfg cc V rib (fold nexthopUpdateOne sts s)" if "status_step cfg cc V rib s" for s
    using that by (induction sts arbitrary: s) (simp_all add: nexthopUpdateOne_inv [OF _ all])
  moreover have "status_step cfg cc V rib (False, rib)" using d(1) by (simp add: status_step_def)
  ultimately have "status_step cfg cc V rib (fold nexthopUpdateOne sts (False, rib))" by blast
  moreover obtain n r where f: "fold nexthopUpdateOne sts (False, rib) = (n, r)" by (cases "fold nexthopUpdateOne sts (False, rib)")
  ultimately have i: "paths_inv cfg cc V r" "in_frame rib r" "fibBatchList r = fibBatchList rib"
    "all_need (ribEntries rib) \<longrightarrow> all_need (ribEntries r)" "n \<longrightarrow> ribEoRReceived rib" "\<not> n \<longrightarrow> ribEntries r = ribEntries rib"
    unfolding status_step_def by simp_all
  let ?r = "if n then schedulePrepareFibProgrammingTimer r else r"
  have "sched ?r"
    using d(3) i(2-6) schedule_timer [of r] by (cases n) (auto simp: sched_def in_frame_def)
  then have "rib_inv cfg cc V ?r" using i(1,2) d(2) by (auto simp: rib_inv_def fib_ok_def in_frame_def)
  from pending_inv(1) [OF cfg this] show ?thesis using True f by (simp add: processRibInNexthopUpdate_def)
qed

subsection \<open>Dispatch\<close>

lemma monitorRouteChurn_inv:
  assumes cfg: "config_ok cfg cc" and inv: "rib_inv cfg cc V rib"
  shows "\<exists>rib'. monitorRouteChurn cfg rib = Some rib' \<and> rib_inv cfg cc V rib'"
proof -
  obtain b r where r: "isRouteChurnDetected cfg rib = (b, r)" by (cases "isRouteChurnDetected cfg rib")
  have "rib_inv cfg cc V r"
    using r inv by (auto simp: isRouteChurnDetected_def Let_def rib_inv_def paths_inv_def batch_ok_def fib_ok_def sched_def)
  then have "\<exists>r'. (if b then Some (processPauseBestPathAndFibProgramming ROUTE_CHURN r)
      else if ROUTE_CHURN \<in> set (pausedBy r) then processResumeBestPathAndFibProgramming cfg ROUTE_CHURN r else Some r) = Some r' \<and>
    rib_inv cfg cc V r'"
    using processPause_inv [of cfg cc V r ROUTE_CHURN] processResume_inv [OF cfg, of V r ROUTE_CHURN] by auto
  then obtain r' where "(if b then Some (processPauseBestPathAndFibProgramming ROUTE_CHURN r)
      else if ROUTE_CHURN \<in> set (pausedBy r) then processResumeBestPathAndFibProgramming cfg ROUTE_CHURN r else Some r) = Some r'"
    "rib_inv cfg cc V r'" by blast
  moreover have "rib_inv cfg cc V (r'\<lparr>prefixCountForRouteChurn := 0\<rparr>)" if "rib_inv cfg cc V r'"
    using that by (auto simp: rib_inv_def paths_inv_def batch_ok_def fib_ok_def sched_def)
  ultimately show ?thesis by (simp add: monitorRouteChurn_def r)
qed

fun message_ok :: "RibInMessage \<Rightarrow> bool" where
  "message_ok (RibInAnnouncement peer att pps) = att_fine peer att"
| "message_ok _ = True"

lemma processRibInMsg_inv:
  assumes cfg: "config_ok cfg cc" and inv: "rib_inv cfg cc V rib" and ok: "message_ok msg"
  shows "\<exists>rib'. processRibInMsg cfg msg rib = Some rib' \<and> rib_inv cfg cc V rib'"
  using processRibInAnnouncement_inv [OF inv] processRibInWithdrawal_inv [OF inv] processRibInInitialPathComputation_inv [OF cfg inv]
    processRibInNexthopUpdate_inv [OF cfg inv] processPause_inv [OF inv] processResume_inv [OF cfg inv] inv ok
  by (cases msg) (simp_all add: processRibInMsg_def)

lemma processFibMsg_inv:
  assumes cfg: "config_ok cfg cc" and inv: "rib_inv cfg cc V rib" and q: "fromFibMessageQ rib = m # Q"
  shows "\<exists>rib'. processFibMsg cfg m (rib\<lparr>fromFibMessageQ := Q\<rparr>) = Some rib' \<and> rib_inv cfg cc V rib' \<and> fromFibMessageQ rib' = Q \<and>
    ribEoRReceived rib' = ribEoRReceived rib"
proof (cases m)
  case (FibProgrammedMessage W b)
  from handleFibProgrammedMessage_inv [OF inv q [unfolded this]] show ?thesis
    by (auto simp: FibProgrammedMessage processFibMsg_def ack_frame_def)
next
  case FibSyncReq
  let ?r = "rib\<lparr>fromFibMessageQ := Q\<rparr>"
  note d = rib_invD [OF inv]
  have i: "paths_inv cfg cc V ?r" "fib_ok ?r" "sched ?r"
    using d q FibSyncReq by (auto simp: paths_inv_def batch_ok_def fib_ok_def sched_def)
  show ?thesis
  proof (cases "\<not> ribEoRReceived rib \<or> pauseBestPathAndFibProgramming rib")
    case True
    have "rib_inv cfg cc V (?r\<lparr>fibSyncReqPending := True\<rparr>)"
      using i by (auto simp: rib_inv_def paths_inv_def batch_ok_def fib_ok_def sched_def)
    then show ?thesis using True i by (auto simp: FibSyncReq processFibMsg_def handleFibSyncReq_def rib_inv_def)
  next
    case False
    then have "pause_ok ?r" "ribEoRReceived ?r" "\<not> pendingInitialPathComputation ?r" using i(3) by (simp_all add: sched_def)
    from prepareFibProgramming_inv [OF cfg i(1,2) this, of True] show ?thesis
      using False by (auto simp: FibSyncReq processFibMsg_def handleFibSyncReq_def prepare_frame_def)
  qed
qed

end
