(* ===== verification/Consumer_Bits.thy ===== *)
theory Consumer_Bits
  imports Bgp_Prelude "HOL-Library.Product_Lexorder"
begin

text \<open>
  Bit positions of the consumers of the change list: \<^verbatim>\<open>changeTracker/ConsumerBitmap.h\<close> with its bitmaps
  as vectors of 64-bit words, and \<^verbatim>\<open>changeTracker/ConsumerBitManager.cpp\<close>, which gives the positions out
  from a set of intervals. A bitmap refines the set of its positions, and the manager the set of the
  positions that are free.
\<close>

unbundle bit_operations_syntax

subsection \<open>Bitmaps\<close>

type_synonym ConsumerBitmap = "64 word list"

definition kBitsPerWord :: nat where "kBitsPerWord = 64"

text \<open>\<^verbatim>\<open>1ULL << n\<close> for an offset below 64.\<close>

definition one_bit :: "nat \<Rightarrow> 64 word" where "one_bit n = push_bit n 1"

lemma bit_one_bit [simp]: "bit (one_bit n) m \<longleftrightarrow> m = n \<and> n < 64"
  by (auto simp: one_bit_def bit_exp_iff possible_bit_word)

definition resize :: "ConsumerBitmap \<Rightarrow> nat \<Rightarrow> 64 word \<Rightarrow> ConsumerBitmap" where
  "resize bitmap n x = take n bitmap @ replicate (n - length bitmap) x"

definition setBit :: "ConsumerBitmap \<Rightarrow> nat \<Rightarrow> ConsumerBitmap" where
  "setBit bitmap position =
     (let index = position div kBitsPerWord; bitOffset = position mod kBitsPerWord;
          bitmap = (if index \<ge> length bitmap then resize bitmap (index + 1) 0 else bitmap)
      in if index < length bitmap then bitmap[index := (bitmap ! index) OR one_bit bitOffset] else bitmap)"

definition clearBit :: "ConsumerBitmap \<Rightarrow> nat \<Rightarrow> ConsumerBitmap" where
  "clearBit bitmap position =
     (let index = position div kBitsPerWord; bitOffset = position mod kBitsPerWord
      in if index < length bitmap then bitmap[index := (bitmap ! index) AND NOT (one_bit bitOffset)] else bitmap)"

definition isBitSet :: "ConsumerBitmap \<Rightarrow> nat \<Rightarrow> bool" where
  "isBitSet bitmap position =
     (let index = position div kBitsPerWord; bitOffset = position mod kBitsPerWord
      in if index \<ge> length bitmap then False else ((bitmap ! index) AND one_bit bitOffset) \<noteq> 0)"

definition isAllBitsCleared :: "ConsumerBitmap \<Rightarrow> bool" where
  "isAllBitsCleared bitmap = list_all (\<lambda>bits. bits = 0) bitmap"

definition clearAllBits :: "ConsumerBitmap \<Rightarrow> ConsumerBitmap" where
  "clearAllBits bitmap = map (\<lambda>_. 0) bitmap"

definition createFullBitmap :: "nat \<Rightarrow> ConsumerBitmap" where
  "createFullBitmap numConsumers =
     (let numWords = (numConsumers + kBitsPerWord - 1) div kBitsPerWord;
          bitmap = replicate numWords (NOT 0);
          remainingBits = numConsumers mod kBitsPerWord
      in if remainingBits > 0 \<and> numWords > 0 then bitmap[numWords - 1 := one_bit remainingBits - 1] else bitmap)"

definition orBitmaps :: "ConsumerBitmap \<Rightarrow> ConsumerBitmap \<Rightarrow> ConsumerBitmap" where
  "orBitmaps bitmap1 bitmap2 =
     (let maxSize = max (length bitmap1) (length bitmap2);
          at = (\<lambda>b i. if i < length b then b ! i else 0)
      in map (\<lambda>i. at bitmap1 i OR at bitmap2 i) [0..<maxSize])"

text \<open>The set of positions.\<close>

definition bits :: "ConsumerBitmap \<Rightarrow> nat set" where
  "bits bitmap = {i. isBitSet bitmap i}"

lemma and_one_bit: "(w AND one_bit n) \<noteq> 0 \<longleftrightarrow> n < 64 \<and> bit w n"
  by (auto simp: bit_eq_iff [of "w AND one_bit n" 0] bit_and_iff)

lemma in_bits: "i \<in> bits b \<longleftrightarrow> i div 64 < length b \<and> bit (b ! (i div 64)) (i mod 64)"
  by (simp add: bits_def isBitSet_def kBitsPerWord_def Let_def and_one_bit not_le)

lemma isBitSet_bits: "isBitSet b i \<longleftrightarrow> i \<in> bits b"
  by (simp add: bits_def)

lemma div_mod_eq: "(i :: nat) div 64 = j div 64 \<Longrightarrow> i mod 64 = j mod 64 \<Longrightarrow> i = j"
  by (metis div_mult_mod_eq)

lemma bits_resize: "length b \<le> n \<Longrightarrow> bits (resize b n 0) = bits b"
  by (auto simp: in_bits resize_def nth_append split: if_splits)

lemma bits_clearBit [simp]: "bits (clearBit b p) = bits b - {p}"
  by (auto simp: in_bits clearBit_def kBitsPerWord_def Let_def nth_list_update bit_and_iff bit_not_iff split: if_splits)
     (metis div_mod_eq)

lemma bits_set_word: "p div 64 < length b \<Longrightarrow> bits (b[p div 64 := (b ! (p div 64)) OR one_bit (p mod 64)]) = insert p (bits b)"
  by (auto simp: in_bits nth_list_update bit_or_iff split: if_splits) (metis div_mod_eq)

lemma bits_setBit [simp]: "bits (setBit b p) = insert p (bits b)"
proof (cases "p div 64 < length b")
  case False
  let ?b = "resize b (p div 64 + 1) 0"
  have l: "p div 64 < length ?b" using False by (simp add: resize_def)
  have "setBit b p = ?b[p div 64 := (?b ! (p div 64)) OR one_bit (p mod 64)]"
    using False l by (simp add: setBit_def kBitsPerWord_def Let_def)
  then show ?thesis using bits_set_word [OF l] bits_resize [of b "p div 64 + 1"] False by simp
qed (simp add: setBit_def kBitsPerWord_def Let_def bits_set_word)

lemma bits_Nil [simp]: "bits [] = {}"
  by (auto simp: in_bits)

lemma isAllBitsCleared_bits: "isAllBitsCleared b \<longleftrightarrow> bits b = {}"
proof
  assume "isAllBitsCleared b"
  then show "bits b = {}" by (auto simp: in_bits isAllBitsCleared_def list_all_length)
next
  assume e: "bits b = {}"
  have "b ! k = 0" if k: "k < length b" for k
  proof (rule bit_eqI)
    fix n assume "possible_bit TYPE(64 word) n"
    then have n: "n < 64" by (simp add: possible_bit_word)
    have "k * 64 + n \<notin> bits b" using e by simp
    then show "bit (b ! k) n = bit 0 n" using k n by (simp add: in_bits)
  qed
  then show "isAllBitsCleared b" by (simp add: isAllBitsCleared_def list_all_length)
qed

lemma bits_clearAllBits [simp]: "bits (clearAllBits b) = {}"
  by (auto simp: in_bits clearAllBits_def)

lemma bits_orBitmaps [simp]: "bits (orBitmaps a b) = bits a \<union> bits b"
  by (auto simp: in_bits orBitmaps_def Let_def bit_or_iff split: if_splits)

lemma less_div_mod: "(i :: nat) < n \<longleftrightarrow> i div 64 < n div 64 \<or> i div 64 = n div 64 \<and> i mod 64 < n mod 64"
proof -
  have *: "r < 64 \<Longrightarrow> R < 64 \<Longrightarrow> q * 64 + r < Q * 64 + R \<longleftrightarrow> q < Q \<or> q = Q \<and> r < R" for q r Q R :: nat by arith
  show ?thesis using * [of "i mod 64" "n mod 64" "i div 64" "n div 64"] by simp
qed

lemma words_needed: "(n + 63) div 64 = n div 64 + (if n mod 64 = 0 then 0 else 1 :: nat)"
proof -
  have *: "r < 64 \<Longrightarrow> (q * 64 + r + 63) div 64 = q + (if r = 0 then 0 else 1 :: nat)" for q r :: nat by (simp add: add.assoc div_nat_eqI)
  show ?thesis using * [of "n mod 64" "n div 64"] by simp
qed

lemma bits_createFullBitmap: "bits (createFullBitmap n) = {..<n}"
proof -
  let ?w = "(n + 63) div 64" and ?r = "n mod 64"
  have m: "one_bit ?r - 1 = mask ?r" by (simp add: mask_eq_exp_minus_1 one_bit_def)
  have len: "length (createFullBitmap n) = ?w" by (simp add: createFullBitmap_def kBitsPerWord_def Let_def add.commute)
  have at: "createFullBitmap n ! k = (if ?r > 0 \<and> k = n div 64 then mask ?r else NOT 0)" if "k < ?w" for k
    using that by (auto simp: createFullBitmap_def kBitsPerWord_def Let_def m nth_list_update add.commute words_needed simp del: replicate.simps split: if_splits)
  have "i \<in> bits (createFullBitmap n) \<longleftrightarrow> i < n" for i
  proof (cases "i div 64 < ?w")
    case True
    then show ?thesis
      unfolding less_div_mod [of i n] in_bits len at [OF True]
      by (auto simp: words_needed bit_not_iff bit_mask_iff possible_bit_word split: if_splits)
  qed (simp add: in_bits len less_div_mod [of i n] words_needed split: if_splits)
  then show ?thesis by auto
qed

subsection \<open>The manager of bit positions\<close>

text \<open>An ordered set of intervals with both ends included; \<open>size_t\<close> wraps around in the constructor only.\<close>

datatype ConsumerBitError = SUCCESS | INVALID_BIT_TOO_BIG | INVALID_BIT_ALREADY_FREED

record ConsumerBitManager =
  maxBits :: nat
  numBitsInUse :: nat
  availableIntervals :: "(nat \<times> nat) set"

definition mkConsumerBitManager :: "nat \<Rightarrow> ConsumerBitManager" where
  "mkConsumerBitManager n = \<lparr>maxBits = n, numBitsInUse = 0, availableIntervals = {(0, unat (of_nat n - 1 :: 64 word))}\<rparr>"

definition getConsumerBit :: "ConsumerBitManager \<Rightarrow> (nat \<times> ConsumerBitManager) option" where
  "getConsumerBit m =
     (let ivs = availableIntervals m in
      if ivs = {} then None
      else case Min ivs of (start, stop) \<Rightarrow>
        Some (start,
          m\<lparr>availableIntervals := (if start = stop then ivs - {(start, stop)} else insert (start + 1, stop) (ivs - {(start, stop)})),
            numBitsInUse := numBitsInUse m + 1\<rparr>))"

definition findInterval :: "nat \<Rightarrow> ConsumerBitManager \<Rightarrow> (nat \<times> nat) option" where
  "findInterval bitPosition m =
     (let ivs = availableIntervals m;
          above = Set.filter (\<lambda>x. x \<ge> (bitPosition, 0)) ivs; below = Set.filter (\<lambda>x. x < (bitPosition, 0)) ivs;
          contains = (\<lambda>x. fst x \<le> bitPosition \<and> bitPosition \<le> snd x)
      in if above \<noteq> {} \<and> contains (Min above) then Some (Min above)
         else if below \<noteq> {} \<and> contains (Max below) then Some (Max below) else None)"

definition isBitInUse :: "nat \<Rightarrow> ConsumerBitManager \<Rightarrow> bool" where
  "isBitInUse bitPosition m \<longleftrightarrow> bitPosition < maxBits m \<and> findInterval bitPosition m = None"

definition freeConsumerBit :: "nat \<Rightarrow> ConsumerBitManager \<Rightarrow> ConsumerBitError \<times> ConsumerBitManager" where
  "freeConsumerBit bitPosition m =
     (if bitPosition \<ge> maxBits m then (INVALID_BIT_TOO_BIG, m)
      else if \<not> isBitInUse bitPosition m then (INVALID_BIT_ALREADY_FREED, m)
      else let ivs = availableIntervals m;
               above = Set.filter (\<lambda>x. x > (bitPosition, bitPosition)) ivs; below = Set.filter (\<lambda>x. x \<le> (bitPosition, bitPosition)) ivs;
               mergedWithLower = (below \<noteq> {} \<and> snd (Max below) + 1 = bitPosition);
               lowerStart = fst (Max below);
               ivs = (if mergedWithLower then insert (lowerStart, bitPosition) (ivs - {Max below}) else ivs);
               mergedWithUpper = (above \<noteq> {} \<and> fst (Min above) = bitPosition + 1);
               upperEnd = snd (Min above);
               ivs = (if mergedWithUpper
                      then let ivs = ivs - {Min above}
                           in if mergedWithLower
                              then (if (lowerStart, bitPosition) \<in> ivs
                                    then insert (lowerStart, upperEnd) (ivs - {(lowerStart, bitPosition)}) else ivs)
                              else insert (bitPosition, upperEnd) ivs
                      else ivs);
               ivs = (if \<not> mergedWithLower \<and> \<not> mergedWithUpper then insert (bitPosition, bitPosition) ivs else ivs)
           in (SUCCESS, m\<lparr>availableIntervals := ivs, numBitsInUse := numBitsInUse m - 1\<rparr>))"

definition getNumBitsAvailable :: "ConsumerBitManager \<Rightarrow> nat" where
  "getNumBitsAvailable m = maxBits m - numBitsInUse m"

text \<open>The positions that are free. The intervals are not empty and leave a gap between any two of them.\<close>

definition free_bits :: "ConsumerBitManager \<Rightarrow> nat set" where
  "free_bits m = (\<Union>(s, e)\<in>availableIntervals m. {s..e})"

definition apart :: "nat \<times> nat \<Rightarrow> nat \<times> nat \<Rightarrow> bool" where
  "apart x y \<longleftrightarrow> snd x + 1 < fst y \<or> snd y + 1 < fst x"

definition bits_wf :: "ConsumerBitManager \<Rightarrow> bool" where
  "bits_wf m \<longleftrightarrow> finite (availableIntervals m) \<and>
     (\<forall>x\<in>availableIntervals m. fst x \<le> snd x \<and> snd x < maxBits m) \<and>
     (\<forall>x\<in>availableIntervals m. \<forall>y\<in>availableIntervals m. x \<noteq> y \<longrightarrow> apart x y) \<and>
     numBitsInUse m + card (free_bits m) = maxBits m"

lemma bits_wfD:
  assumes "bits_wf m"
  shows "finite (availableIntervals m)" "(s, e) \<in> availableIntervals m \<Longrightarrow> s \<le> e" "(s, e) \<in> availableIntervals m \<Longrightarrow> e < maxBits m"
    "(s, e) \<in> availableIntervals m \<Longrightarrow> (s', e') \<in> availableIntervals m \<Longrightarrow> (s, e) = (s', e') \<or> e + 1 < s' \<or> e' + 1 < s"
    "numBitsInUse m + card (free_bits m) = maxBits m" "finite (free_bits m)" "free_bits m \<subseteq> {..<maxBits m}"
proof -
  show "(s, e) \<in> availableIntervals m \<Longrightarrow> (s', e') \<in> availableIntervals m \<Longrightarrow> (s, e) = (s', e') \<or> e + 1 < s' \<or> e' + 1 < s"
    using assms unfolding bits_wf_def apart_def by (metis fst_conv snd_conv)
qed (use assms in \<open>auto simp: bits_wf_def free_bits_def\<close>)

lemma extreme_out:
  fixes I :: "(nat \<times> nat) set"
  assumes "finite S" "S \<subseteq> I" "\<forall>x\<in>I. \<not> P x"
  shows "\<not> (S \<noteq> {} \<and> P (Min S))" "\<not> (S \<noteq> {} \<and> P (Max S))"
  using assms Min_in [OF assms(1)] Max_in [OF assms(1)] by blast+

lemma findInterval_free:
  assumes wf: "bits_wf m"
  shows "findInterval b m = None \<longleftrightarrow> b \<notin> free_bits m"
proof
  let ?I = "availableIntervals m"
  let ?above = "Set.filter (\<lambda>x. x \<ge> (b, 0)) ?I" and ?below = "Set.filter (\<lambda>x. x < (b, 0)) ?I"
  note d = bits_wfD [OF wf]
  assume n: "findInterval b m = None"
  show "b \<notin> free_bits m"
  proof
    assume "b \<in> free_bits m"
    then obtain s e where se: "(s, e) \<in> ?I" "s \<le> b" "b \<le> e" by (auto simp: free_bits_def)
    show False
    proof (cases "s = b")
      case True
      then have a: "(s, e) \<in> ?above" using se by auto
      have "Min ?above = (s, e)"
      proof (rule Min_eqI)
        show "finite ?above" using d(1) by simp
        fix y assume y: "y \<in> ?above"
        then show "(s, e) \<le> y" using d(2) [of "fst y" "snd y"] d(4) [OF se(1), of "fst y" "snd y"] True se(3) by (cases y) (auto simp: less_eq_prod_def)
      qed (rule a)
      then show False using n a True se(3) by (auto simp: findInterval_def Let_def split: if_splits)
    next
      case False
      then have a: "(s, e) \<in> ?below" using se by auto
      have "Max ?below = (s, e)"
      proof (rule Max_eqI)
        show "finite ?below" using d(1) by simp
        fix y assume y: "y \<in> ?below"
        then show "y \<le> (s, e)" using d(2) [of "fst y" "snd y"] d(4) [OF se(1), of "fst y" "snd y"] se(3) by (cases y) (auto simp: less_eq_prod_def less_prod_def)
      qed (rule a)
      then show False using n a False se(2,3) by (auto simp: findInterval_def Let_def split: if_splits)
    qed
  qed
next
  let ?I = "availableIntervals m"
  let ?above = "Set.filter (\<lambda>x. x \<ge> (b, 0)) ?I" and ?below = "Set.filter (\<lambda>x. x < (b, 0)) ?I"
  note d = bits_wfD [OF wf]
  assume n: "b \<notin> free_bits m"
  have out: "\<forall>x\<in>?I. \<not> (fst x \<le> b \<and> b \<le> snd x)" using n by (auto simp: free_bits_def)
  have sub: "finite ?above" "?above \<subseteq> ?I" "finite ?below" "?below \<subseteq> ?I" using d(1) by auto
  note a = extreme_out(1) [OF sub(1,2) out] and c = extreme_out(2) [OF sub(3,4) out]
  show "findInterval b m = None" unfolding findInterval_def Let_def if_not_P [OF a] if_not_P [OF c] ..
qed

lemma isBitInUse_free: "bits_wf m \<Longrightarrow> isBitInUse b m \<longleftrightarrow> b < maxBits m \<and> b \<notin> free_bits m"
  by (simp add: isBitInUse_def findInterval_free)

lemma mkConsumerBitManager_wf:
  assumes "0 < n" "n < 2 ^ 64"
  shows "bits_wf (mkConsumerBitManager n)" "free_bits (mkConsumerBitManager n) = {..<n}"
proof -
  have u: "unat (of_nat n :: 64 word) = n" using assms(2) by (simp add: unsigned_of_nat take_bit_nat_eq_self)
  then have "of_nat n \<noteq> (0 :: 64 word)" using assms(1) by (metis less_irrefl unat_0)
  then have "unat (of_nat n - 1 :: 64 word) = n - 1" using u by (simp add: unat_minus_one)
  moreover have "{0..n - 1} = {..<n}" using assms by auto
  ultimately show "bits_wf (mkConsumerBitManager n)" "free_bits (mkConsumerBitManager n) = {..<n}"
    using assms by (auto simp: bits_wf_def mkConsumerBitManager_def free_bits_def)
qed

lemma getConsumerBit_spec:
  assumes wf: "bits_wf m" and "free_bits m \<noteq> {}"
  obtains m' where "getConsumerBit m = Some (Min (free_bits m), m')" "bits_wf m'" "maxBits m' = maxBits m"
    "free_bits m' = free_bits m - {Min (free_bits m)}"
proof -
  let ?I = "availableIntervals m"
  note d = bits_wfD [OF wf]
  have ne: "?I \<noteq> {}" using assms(2) by (auto simp: free_bits_def)
  obtain s e where se: "Min ?I = (s, e)" by force
  have i: "(s, e) \<in> ?I" using Min_in [OF d(1) ne] se by simp
  have least: "(s, e) \<le> x" if "x \<in> ?I" for x using Min_le [OF d(1) that] se by simp
  have later: "e + 1 < s'" if "(s', e') \<in> ?I" "(s', e') \<noteq> (s, e)" for s' e'
    using d(4) [OF i that(1)] least [OF that(1)] that(2) d(2) [OF that(1)] by auto
  have fr: "free_bits m = {s..e} \<union> (\<Union>(s', e')\<in>?I - {(s, e)}. {s'..e'})" using i by (auto simp: free_bits_def)
  have rest: "e + 1 < x" if "x \<in> (\<Union>(s', e')\<in>?I - {(s, e)}. {s'..e'})" for x using that later by fastforce
  have m: "Min (free_bits m) = s"
  proof (rule Min_eqI [OF d(6)])
    show "s \<in> free_bits m" using d(2) [OF i] by (simp add: fr)
    fix y assume "y \<in> free_bits m"
    then show "s \<le> y" unfolding fr using rest [of y] d(2) [OF i] by fastforce
  qed
  let ?new = "if s = e then ?I - {(s, e)} else insert (s + 1, e) (?I - {(s, e)})"
  let ?m = "m\<lparr>availableIntervals := ?new, numBitsInUse := numBitsInUse m + 1\<rparr>"
  have g: "getConsumerBit m = Some (Min (free_bits m), ?m)" using ne se m by (simp add: getConsumerBit_def Let_def)
  have f: "free_bits ?m = free_bits m - {Min (free_bits m)}"
  proof -
    let ?U = "\<Union>(s', e')\<in>?I - {(s, e)}. {s'..e'}"
    have "free_bits ?m = (if s = e then {} else {s + 1..e}) \<union> ?U" by (simp add: free_bits_def)
    moreover have "s \<notin> ?U" using rest [of s] d(2) [OF i] by linarith
    moreover have "{s..e} - {s} = (if s = e then {} else {s + 1..e})" by auto
    ultimately show ?thesis unfolding m unfolding fr by blast
  qed
  have "s \<in> free_bits m" using d(2) [OF i] by (simp add: fr)
  then have "card (free_bits m) = card (free_bits ?m) + 1" unfolding f m using card.remove [OF d(6)] by (metis Suc_eq_plus1)
  moreover have "apart x y" if "x \<in> ?new" "y \<in> ?new" "x \<noteq> y" for x y
  proof -
    have c: "(z \<in> ?I \<and> z \<noteq> (s, e) \<and> e + 1 < fst z) \<or> z = (s + 1, e)" if "z \<in> ?new" for z
      using that later [of "fst z" "snd z"] by (auto split: if_splits)
    show ?thesis using c [OF that(1)] c [OF that(2)] that(3) d(4) [of "fst x" "snd x" "fst y" "snd y"]
      unfolding apart_def by (metis fst_conv prod.collapse snd_conv)
  qed
  moreover have "fst x \<le> snd x \<and> snd x < maxBits m" if "x \<in> ?new" for x
    using that d(2,3) [of "fst x" "snd x"] d(2,3) [OF i] by (auto split: if_splits)
  ultimately have "bits_wf ?m" unfolding bits_wf_def using d(1,5) by simp
  with g f show thesis by (intro that) auto
qed

lemma replaced_wf:
  assumes wf: "bits_wf m" and b: "b \<notin> free_bits m" "b < maxBits m" and new: "s \<le> e" "e < maxBits m"
    and R: "R \<subseteq> availableIntervals m" "{s..e} = insert b (\<Union>(s', e')\<in>R. {s'..e'})"
    and ap: "\<And>s' e'. (s', e') \<in> availableIntervals m - R \<Longrightarrow> e' + 1 < s \<or> e + 1 < s'"
    and m': "m' = m\<lparr>availableIntervals := insert (s, e) (availableIntervals m - R), numBitsInUse := numBitsInUse m - 1\<rparr>"
  shows "bits_wf m'" "free_bits m' = insert b (free_bits m)" "maxBits m' = maxBits m"
proof -
  note d = bits_wfD [OF wf]
  have fr: "free_bits m = (\<Union>(s', e')\<in>R. {s'..e'}) \<union> (\<Union>(s', e')\<in>availableIntervals m - R. {s'..e'})"
    using R(1) by (auto simp: free_bits_def)
  show f: "free_bits m' = insert b (free_bits m)" unfolding fr using R(2) by (auto simp: free_bits_def m')
  have "insert b (free_bits m) \<subseteq> {..<maxBits m}" using b d(7) by auto
  then have "card (insert b (free_bits m)) \<le> maxBits m" using card_mono [of "{..<maxBits m}"] by fastforce
  then have "numBitsInUse m - 1 + card (free_bits m') = maxBits m" unfolding f using d(5,6) b(1) by simp
  moreover have "apart x y" if "x \<in> availableIntervals m'" "y \<in> availableIntervals m'" "x \<noteq> y" for x y
    using that ap [of "fst x" "snd x"] ap [of "fst y" "snd y"] d(4) [of "fst x" "snd x" "fst y" "snd y"] by (cases x; cases y) (auto simp: apart_def m')
  ultimately show "bits_wf m'" using d(1,2,3) new by (auto simp: bits_wf_def m')
qed (simp add: m')

lemma extreme_in:
  fixes I :: "(nat \<times> nat) set"
  assumes "finite S" "S \<subseteq> I" "S \<noteq> {}"
  shows "Min S \<in> I" "Max S \<in> I"
  using assms Min_in [OF assms(1)] Max_in [OF assms(1)] by blast+

lemma neighbours:
  assumes wf: "bits_wf m" and b: "b \<notin> free_bits m"
  shows "(s, e) \<in> availableIntervals m \<Longrightarrow> e < b \<or> b < s"
    "(s, e) \<in> availableIntervals m \<Longrightarrow> e + 1 = b \<Longrightarrow> Max (Set.filter (\<lambda>x. x \<le> (b, b)) (availableIntervals m)) = (s, e)"
    "(s, e) \<in> availableIntervals m \<Longrightarrow> s = b + 1 \<Longrightarrow> Min (Set.filter (\<lambda>x. x > (b, b)) (availableIntervals m)) = (s, e)"
proof -
  let ?I = "availableIntervals m"
  note d = bits_wfD [OF wf]
  show out: "e < b \<or> b < s" if "(s, e) \<in> ?I" for s e using b that by (force simp: free_bits_def)
  show "Max (Set.filter (\<lambda>x. x \<le> (b, b)) ?I) = (s, e)" if i: "(s, e) \<in> ?I" "e + 1 = b"
  proof (rule Max_eqI)
    show "finite (Set.filter (\<lambda>x. x \<le> (b, b)) ?I)" using d(1) by simp
    show "(s, e) \<in> Set.filter (\<lambda>x. x \<le> (b, b)) ?I" using i d(2) [OF i(1)] by auto
    fix y assume "y \<in> Set.filter (\<lambda>x. x \<le> (b, b)) ?I"
    then show "y \<le> (s, e)" using i out [of "fst y" "snd y"] d(2) [of "fst y" "snd y"] d(4) [OF i(1), of "fst y" "snd y"]
      by (cases y) (auto simp: less_eq_prod_def)
  qed
  show "Min (Set.filter (\<lambda>x. x > (b, b)) ?I) = (s, e)" if i: "(s, e) \<in> ?I" "s = b + 1"
  proof (rule Min_eqI)
    show "finite (Set.filter (\<lambda>x. x > (b, b)) ?I)" using d(1) by simp
    show "(s, e) \<in> Set.filter (\<lambda>x. x > (b, b)) ?I" using i by auto
    fix y assume "y \<in> Set.filter (\<lambda>x. x > (b, b)) ?I"
    then show "(s, e) \<le> y" using i out [of "fst y" "snd y"] d(2) [of "fst y" "snd y"] d(4) [OF i(1), of "fst y" "snd y"] d(2) [OF i(1)]
      by (cases y) (auto simp: less_eq_prod_def less_prod_def)
  qed
qed

text \<open>What freeing does to the intervals, in the four combinations of neighbours.\<close>

definition freed :: "nat \<Rightarrow> (nat \<times> nat) option \<Rightarrow> (nat \<times> nat) option \<Rightarrow> (nat \<times> nat) set \<Rightarrow> (nat \<times> nat) set" where
  "freed b l u ivs = insert (case l of None \<Rightarrow> b | Some x \<Rightarrow> fst x, case u of None \<Rightarrow> b | Some x \<Rightarrow> snd x) (ivs - set_option l - set_option u)"

lemma freeConsumerBit_freed:
  assumes wf: "bits_wf m" and b: "b \<notin> free_bits m" "b < maxBits m"
  obtains l u where
    "freeConsumerBit b m = (SUCCESS, m\<lparr>availableIntervals := freed b l u (availableIntervals m), numBitsInUse := numBitsInUse m - 1\<rparr>)"
    "\<And>x. l = Some x \<Longrightarrow> x \<in> availableIntervals m \<and> snd x + 1 = b" "l = None \<Longrightarrow> \<forall>x\<in>availableIntervals m. snd x + 1 \<noteq> b"
    "\<And>x. u = Some x \<Longrightarrow> x \<in> availableIntervals m \<and> fst x = b + 1" "u = None \<Longrightarrow> \<forall>x\<in>availableIntervals m. fst x \<noteq> b + 1"
proof -
  let ?I = "availableIntervals m"
  note d = bits_wfD [OF wf] and nb = neighbours [OF wf b(1)]
  define above where "above = Set.filter (\<lambda>x. x > (b, b)) ?I"
  define below where "below = Set.filter (\<lambda>x. x \<le> (b, b)) ?I"
  define lo where "lo = Max below"
  define up where "up = Min above"
  define L where "L \<longleftrightarrow> below \<noteq> {} \<and> snd lo + 1 = b"
  define U where "U \<longleftrightarrow> above \<noteq> {} \<and> fst up = b + 1"
  have sub: "finite above" "above \<subseteq> ?I" "finite below" "below \<subseteq> ?I" using d(1) by (auto simp: above_def below_def)
  have lo: "lo \<in> ?I" "snd lo + 1 = b" if L using extreme_in(2) [OF sub(3,4)] that by (auto simp: L_def lo_def)
  have up: "up \<in> ?I" "fst up = b + 1" if U using extreme_in(1) [OF sub(1,2)] that by (auto simp: U_def up_def)
  have new: "(fst lo, b) \<notin> ?I" using nb(1) [of "fst lo" b] bits_wfD(2) [OF wf, of "fst lo" b] by linarith
  have ne: "lo \<noteq> up" if L U using lo [OF that(1)] up [OF that(2)] d(2) [of "fst lo" "snd lo"] by (cases lo) auto
  have same: "(fst lo, b) \<noteq> up" "insert (fst lo, b) (?I - {lo}) - {up} - {(fst lo, b)} = ?I - {lo} - {up}" if L U
    using new up [OF that(2)] by auto
  have use: "isBitInUse b m" using b by (simp add: isBitInUse_free [OF wf])
  have "freeConsumerBit b m = (SUCCESS, m\<lparr>availableIntervals := freed b (if L then Some lo else None) (if U then Some up else None) ?I,
      numBitsInUse := numBitsInUse m - 1\<rparr>)"
    unfolding freeConsumerBit_def Let_def above_def [symmetric] below_def [symmetric] lo_def [symmetric] up_def [symmetric] L_def [symmetric] U_def [symmetric]
    using b(2) use same by (cases L; cases U) (auto simp: freed_def)
  moreover have "\<forall>x\<in>?I. snd x + 1 \<noteq> b" if "\<not> L"
  proof (rule ballI, rule notI)
    fix x assume x: "x \<in> ?I" "snd x + 1 = b"
    then have "lo = x" using nb(2) [of "fst x" "snd x"] unfolding lo_def below_def by (simp only: prod.collapse)
    moreover have "x \<in> below" using x d(2) [of "fst x" "snd x"] unfolding below_def by (cases x) auto
    ultimately show False using that x by (auto simp: L_def)
  qed
  moreover have "\<forall>x\<in>?I. fst x \<noteq> b + 1" if "\<not> U"
  proof (rule ballI, rule notI)
    fix x assume x: "x \<in> ?I" "fst x = b + 1"
    then have "up = x" using nb(3) [of "fst x" "snd x"] unfolding up_def above_def by (metis prod.collapse)
    moreover have "x \<in> above" using x unfolding above_def by (cases x) auto
    ultimately show False using that x by (auto simp: U_def)
  qed
  ultimately show thesis using lo up by (intro that [of "if L then Some lo else None" "if U then Some up else None"]) (auto split: if_splits)
qed

lemma freeConsumerBit_spec:
  assumes wf: "bits_wf m" and b: "b \<notin> free_bits m" "b < maxBits m"
  obtains m' where "freeConsumerBit b m = (SUCCESS, m')" "bits_wf m'" "maxBits m' = maxBits m" "free_bits m' = insert b (free_bits m)"
proof -
  let ?I = "availableIntervals m"
  note d = bits_wfD [OF wf] and out = neighbours(1) [OF wf b(1)]
  obtain l u where f: "freeConsumerBit b m = (SUCCESS, m\<lparr>availableIntervals := freed b l u ?I, numBitsInUse := numBitsInUse m - 1\<rparr>)"
    and l: "\<And>x. l = Some x \<Longrightarrow> x \<in> ?I \<and> snd x + 1 = b" "l = None \<Longrightarrow> \<forall>x\<in>?I. snd x + 1 \<noteq> b"
    and u: "\<And>x. u = Some x \<Longrightarrow> x \<in> ?I \<and> fst x = b + 1" "u = None \<Longrightarrow> \<forall>x\<in>?I. fst x \<noteq> b + 1"
    using freeConsumerBit_freed [OF wf b] by blast
  let ?s = "case l of None \<Rightarrow> b | Some x \<Rightarrow> fst x" and ?e = "case u of None \<Rightarrow> b | Some x \<Rightarrow> snd x"
  let ?R = "set_option l \<union> set_option u"
  have ls: "?s \<le> b" "l = Some x \<Longrightarrow> fst x \<le> snd x" for x using l(1) d(2) [of "fst x" "snd x"] d(2) [of "fst (the l)" "snd (the l)"] by (auto split: option.split)
  have ue: "b \<le> ?e" "?e < maxBits m" "u = Some x \<Longrightarrow> fst x \<le> snd x" for x
  proof -
    have *: "u = Some x \<Longrightarrow> fst x = b + 1 \<and> fst x \<le> snd x \<and> snd x < maxBits m" for x using u(1) [of x] d(2,3) by (metis prod.collapse)
    show "b \<le> ?e" "?e < maxBits m" "u = Some x \<Longrightarrow> fst x \<le> snd x" using * b(2) by (fastforce split: option.split)+
  qed
  have R: "?R \<subseteq> ?I" using l(1) u(1) by (cases l; cases u) auto
  have span: "{?s..?e} = insert b (\<Union>(s', e')\<in>?R. {s'..e'})"
    using l(1) u(1) ls ue by (cases l; cases u) auto
  have ap: "e' + 1 < ?s \<or> ?e + 1 < s'" if i: "(s', e') \<in> ?I - ?R" for s' e'
  proof -
    have "e' + 1 < ?s" if "e' < b"
    proof (cases l)
      case None
      then show ?thesis using l(2) i that by fastforce
    next
      case (Some x)
      then show ?thesis using l(1) [OF Some] ls(2) [OF Some] i d(2) [of s' e'] d(4) [of s' e' "fst x" "snd x"] that by (cases x) auto
    qed
    moreover have "?e + 1 < s'" if "b < s'"
    proof (cases u)
      case None
      then show ?thesis using u(2) i that by fastforce
    next
      case (Some x)
      then show ?thesis using u(1) [OF Some] ue(3) [OF Some] i d(2) [of s' e'] d(4) [of s' e' "fst x" "snd x"] that by (cases x) auto
    qed
    ultimately show ?thesis using out i by blast
  qed
  have "freed b l u ?I = insert (?s, ?e) (?I - ?R)" by (auto simp: freed_def)
  then show thesis
    using replaced_wf [OF wf b le_trans [OF ls(1) ue(1)] ue(2) R span ap refl] f by (intro that) auto
qed

lemma getConsumerBit_cases:
  assumes "bits_wf m"
  shows "case getConsumerBit m of
       None \<Rightarrow> free_bits m = {}
     | Some (b, m') \<Rightarrow> b = Min (free_bits m) \<and> b \<in> free_bits m \<and> free_bits m' = free_bits m - {b} \<and> bits_wf m' \<and> maxBits m' = maxBits m"
proof (cases "free_bits m = {}")
  case True
  then have "availableIntervals m = {}" using bits_wfD(2) [OF assms] by (fastforce simp: free_bits_def)
  then show ?thesis using True by (simp add: getConsumerBit_def)
next
  case False
  obtain m' where "getConsumerBit m = Some (Min (free_bits m), m')" "bits_wf m'" "maxBits m' = maxBits m"
    "free_bits m' = free_bits m - {Min (free_bits m)}" by (rule getConsumerBit_spec [OF assms False])
  then show ?thesis using Min_in [OF bits_wfD(6) [OF assms] False] by simp
qed

lemma freeConsumerBit_cases:
  assumes "bits_wf m"
  shows "case freeConsumerBit b m of
       (SUCCESS, m') \<Rightarrow> b < maxBits m \<and> b \<notin> free_bits m \<and> free_bits m' = insert b (free_bits m) \<and> bits_wf m' \<and> maxBits m' = maxBits m
     | (INVALID_BIT_TOO_BIG, m') \<Rightarrow> maxBits m \<le> b \<and> m' = m
     | (INVALID_BIT_ALREADY_FREED, m') \<Rightarrow> b \<in> free_bits m \<and> m' = m"
proof (cases "b < maxBits m \<and> b \<notin> free_bits m")
  case True
  then obtain m' where "freeConsumerBit b m = (SUCCESS, m')" "bits_wf m'" "maxBits m' = maxBits m" "free_bits m' = insert b (free_bits m)"
    using freeConsumerBit_spec [OF assms] by blast
  then show ?thesis using True by simp
next
  case False
  then show ?thesis using isBitInUse_free [OF assms, of b] by (cases "maxBits m \<le> b") (simp_all add: freeConsumerBit_def)
qed

text \<open>C23. The interval bookkeeping of the bit manager refines a plain set of free positions. Starting from any well
formed manager, asking for a bit fails exactly when no position is free, and otherwise hands out the lowest free
position and takes exactly that position from the set; giving a bit back is refused without change when the
position is beyond the maximum or already free, and otherwise adds exactly that position. Both keep the intervals
disjoint, non-adjacent and within the maximum, and keep the counter of used bits exact.\<close>

theorem consumerBits_refine:
  assumes "bits_wf m"
  shows "(case getConsumerBit m of
       None \<Rightarrow> free_bits m = {}
     | Some (b, m') \<Rightarrow> b = Min (free_bits m) \<and> b \<in> free_bits m \<and> free_bits m' = free_bits m - {b} \<and> bits_wf m' \<and> maxBits m' = maxBits m) \<and>
    (case freeConsumerBit b m of
       (SUCCESS, m') \<Rightarrow> b < maxBits m \<and> b \<notin> free_bits m \<and> free_bits m' = insert b (free_bits m) \<and> bits_wf m' \<and> maxBits m' = maxBits m
     | (INVALID_BIT_TOO_BIG, m') \<Rightarrow> maxBits m \<le> b \<and> m' = m
     | (INVALID_BIT_ALREADY_FREED, m') \<Rightarrow> b \<in> free_bits m \<and> m' = m) \<and>
    getNumBitsAvailable m = card (free_bits m)"
  using getConsumerBit_cases [OF assms] freeConsumerBit_cases [OF assms, of b] bits_wfD(5) [OF assms]
  by (simp add: getNumBitsAvailable_def)

theorem consumerBits_refine_witness:
  "freeConsumerBit 1 \<lparr>maxBits = 4, numBitsInUse = 2, availableIntervals = {(0, 0), (2, 2)}\<rparr>
     = (SUCCESS, \<lparr>maxBits = 4, numBitsInUse = 1, availableIntervals = {(0, 2)}\<rparr>) \<and>
   card (free_bits \<lparr>maxBits = 4, numBitsInUse = 1, availableIntervals = {(0, 2)}\<rparr>) = 3"
proof -
  let ?m = "\<lparr>maxBits = 4, numBitsInUse = 2, availableIntervals = {(0, 0), (2, 2)}\<rparr>"
  have "free_bits ?m = {0, 2}" by (auto simp: free_bits_def)
  then have "bits_wf ?m" by (auto simp: bits_wf_def apart_def)
  from consumerBits_refine [OF this, of 1] have "fst (freeConsumerBit 1 ?m) = SUCCESS \<longrightarrow> free_bits (snd (freeConsumerBit 1 ?m)) = insert 1 (free_bits ?m)"
    by (auto split: prod.splits ConsumerBitError.splits)
  moreover have *: "freeConsumerBit 1 ?m = (SUCCESS, \<lparr>maxBits = 4, numBitsInUse = 1, availableIntervals = {(0, 2)}\<rparr>)" by code_simp
  ultimately have "free_bits \<lparr>maxBits = 4, numBitsInUse = 1, availableIntervals = {(0, 2)}\<rparr> = {0, 1, 2}" using \<open>free_bits ?m = {0, 2}\<close> by auto
  then show ?thesis using * by simp
qed

end
