(* ===== verification/Spec2Isabelle.thy ===== *)
theory Spec2Isabelle
  imports Zero_Copy Rib_System Consumer_Bits
begin

text \<open>
  A verification library for the BGP++ daemon (\<^verbatim>\<open>src/neteng/fboss/bgp\<close>).
\<close>

end
